(* ===== verification/Prelude.thy ===== *)
theory Prelude
  imports Main "HOL-Library.Word" "HOL-Library.Multiset"
begin

unbundle bit_operations_syntax

text \<open>
  Shared vocabulary of the development.

  \<^item> Machine integers are words of their width; byte buffers are lists of
    8-bit words; C++ strings are lists of 8-bit characters.
  \<^item> \<open>result\<close> is the class \<open>irida::base::Result\<close> (base/result.hpp):
    either an error message or a value.
  \<^item> The fragments of the C and C++ standard library the sources format and
    search text with: \<open>printf\<close>'s \<open>%llx\<close>, \<open>std::to_string\<close>,
    \<open>std::string::find\<close>, and the little-endian \<open>memcpy\<close> of an integer.

  The collections \<open>wire_simps\<close> and \<open>word_nat\<close> gather the rewrite rules the
  component proofs share.
\<close>

named_theorems wire_simps \<open>facts about texts on the wire\<close>
named_theorems word_nat \<open>facts that move word arithmetic to natural numbers\<close>

section \<open>Types\<close>

type_synonym byte = "8 word"
type_synonym bytes = "byte list"
type_synonym u8 = "8 word"
type_synonym u16 = "16 word"
type_synonym u32 = "32 word"
type_synonym u64 = "64 word"

datatype 'a result = Err string | Ok 'a

definition has_value :: "'a result \<Rightarrow> bool" where
  "has_value r = (case r of Err _ \<Rightarrow> False | Ok _ \<Rightarrow> True)"

lemma has_value_simps [simp]:
  "has_value (Ok v)" "\<not> has_value (Err e)"
  by (simp_all add: has_value_def)

definition result_bind :: "'a result \<Rightarrow> ('a \<Rightarrow> 'b result) \<Rightarrow> 'b result" where
  "result_bind r f = (case r of Err e \<Rightarrow> Err e | Ok v \<Rightarrow> f v)"

lemma result_bind_simps [simp]:
  "result_bind (Ok v) f = f v" "result_bind (Err e) f = Err e"
  by (simp_all add: result_bind_def)

lemma result_bind_eq_Ok:
  "result_bind r f = Ok w \<longleftrightarrow> (\<exists>v. r = Ok v \<and> f v = Ok w)"
  by (cases r) simp_all

section \<open>Characters and bytes\<close>

definition byte_of_char :: "char \<Rightarrow> byte" where
  "byte_of_char c = of_char c"

definition char_of_byte :: "byte \<Rightarrow> char" where
  "char_of_byte b = char_of (unat b)"

lemma char_of_byte_of_char [simp]: "char_of_byte (byte_of_char c) = c"
proof -
  have "unat (of_char c :: byte) = (of_char c :: nat)"
  proof -
    have "(of_char c :: byte) = word_of_nat (of_char c)"
      by (cases c) simp
    moreover have "(of_char c :: nat) < 256"
      by (metis of_char_of of_char_mod_256 mod_less_divisor zero_less_numeral)
    ultimately show ?thesis
      by (simp add: unat_of_nat take_bit_eq_mod)
  qed
  then show ?thesis
    by (simp add: byte_of_char_def char_of_byte_def)
qed

lemma byte_of_char_inject [simp]: "byte_of_char c = byte_of_char d \<longleftrightarrow> c = d"
  by (metis char_of_byte_of_char)

section \<open>Text formatting of the C and C++ libraries\<close>

definition hex_digit :: "nat \<Rightarrow> char" where
  "hex_digit n = ''0123456789abcdef'' ! n"

text \<open>\<open>printf ("%x")\<close>: lower case, no leading zeros, a single 0 for zero.\<close>

fun hex_digits :: "nat \<Rightarrow> string" where
  "hex_digits n = (if n < 16 then [hex_digit n] else hex_digits (n div 16) @ [hex_digit (n mod 16)])"

declare hex_digits.simps [simp del]

text \<open>\<open>snprintf ("%02x")\<close> of one byte: always two digits.\<close>

definition fmt_02x :: "byte \<Rightarrow> string" where
  "fmt_02x b = [hex_digit (unat b div 16), hex_digit (unat b mod 16)]"

fun dec_digits :: "nat \<Rightarrow> string" where
  "dec_digits n =
     (if n < 10 then [''0123456789'' ! n] else dec_digits (n div 10) @ [''0123456789'' ! (n mod 10)])"

declare dec_digits.simps [simp del]

text \<open>\<open>std::to_string (int)\<close>.\<close>

definition to_string :: "int \<Rightarrow> string" where
  "to_string i = (if i < 0 then CHR ''-'' # dec_digits (nat (- i)) else dec_digits (nat i))"

section \<open>Searching strings\<close>

fun find_idx :: "char \<Rightarrow> string \<Rightarrow> nat option" where
  "find_idx c [] = None"
| "find_idx c (x # xs) = (if x = c then Some 0 else map_option Suc (find_idx c xs))"

text \<open>\<open>std::string::find (c, from)\<close>; \<open>npos\<close> is \<open>None\<close>.\<close>

definition str_find :: "char \<Rightarrow> nat \<Rightarrow> string \<Rightarrow> nat option" where
  "str_find c from s = map_option (\<lambda>i. from + i) (find_idx c (drop from s))"

lemma find_idx_None_iff: "find_idx c s = None \<longleftrightarrow> c \<notin> set s"
  by (induction s) auto

lemma find_idx_append [wire_simps]:
  "c \<notin> set xs \<Longrightarrow> find_idx c (xs @ ys) = map_option (\<lambda>i. length xs + i) (find_idx c ys)"
  by (cases "find_idx c ys"; induction xs) auto

lemma find_idx_append_in [wire_simps]:
  "c \<in> set xs \<Longrightarrow> find_idx c (xs @ ys) = find_idx c xs"
  by (induction xs) auto

lemma find_idx_SomeD:
  "find_idx c s = Some i \<Longrightarrow> i < length s \<and> s ! i = c \<and> c \<notin> set (take i s)"
  by (induction s arbitrary: i) (auto split: if_splits)

lemma find_idx_Some_split:
  "find_idx c s = Some i \<Longrightarrow> \<exists>xs ys. s = xs @ c # ys \<and> length xs = i \<and> c \<notin> set xs"
proof (induction s arbitrary: i)
  case (Cons x s)
  show ?case
  proof (cases "x = c")
    case True
    with Cons.prems show ?thesis by (intro exI [of _ "[]"] exI [of _ s]) auto
  next
    case False
    with Cons.prems obtain j where j: "find_idx c s = Some j" "i = Suc j" by auto
    from Cons.IH [OF j(1)] obtain xs ys
      where "s = xs @ c # ys" "length xs = j" "c \<notin> set xs" by blast
    with False j(2) show ?thesis by (intro exI [of _ "x # xs"] exI [of _ ys]) auto
  qed
qed simp

section \<open>Index lists\<close>

lemma ex_nat_split: "(\<exists>k. P k) \<longleftrightarrow> P 0 \<or> (\<exists>k. P (Suc k))"
  by (metis not0_implies_Suc)

lemma upt_split: "a \<le> n \<Longrightarrow> [0..<n] = [0..<a] @ map (\<lambda>i. a + i) [0..<n - a]"
proof -
  assume "a \<le> n"
  then have "[0..<n] = [0..<a] @ [a..<a + (n - a)]"
    using upt_add_eq_append [of 0 a "n - a"] by simp
  moreover have "map (\<lambda>i. i + a) [0..<n - a] = [a..<(n - a) + a]"
    by (rule map_add_upt)
  ultimately show ?thesis
    by (simp add: add.commute)
qed

end
