(* ===== verification/Backend_Types.thy ===== *)
theory Backend_Types
  imports Prelude
begin

text \<open>
  backend/types.hpp and backend/backend.hpp: the vocabulary shared by everything
  above a transport, and the abstract class \<open>Backend\<close>.  The class is a record
  of its virtual methods over a state \<open>'b\<close>; a concrete backend is a value of
  that record.
\<close>

datatype attach_method = GdbRemote | NativeProcess

record attach_spec =
  as_method :: attach_method
  as_host :: string
  as_port :: u16
  as_pid :: u32

datatype bp_kind = SoftwareExec | HardwareExec | WriteWatch | ReadWatch | AccessWatch

record mem_map =
  mm_start :: u64
  mm_end :: u64
  mm_perms :: u8
  mm_name :: string

record module_info =
  mod_base :: u64
  mod_size :: u64
  mod_name :: string

record thread_info =
  ti_tid :: u32
  ti_pc :: u64
  ti_current :: bool

datatype stop_kind = Breakpoint | SingleStep | Signal | Exited | Error | Unknown

record stop_reply =
  sr_kind :: stop_kind
  sr_signal :: int
  sr_pc :: u64
  sr_detail :: string

definition stop_reply_init :: stop_reply where
  "stop_reply_init = \<lparr>sr_kind = Unknown, sr_signal = 0, sr_pc = 0, sr_detail = []\<rparr>"

record backend_caps =
  can_step :: bool
  has_hw_bp :: bool
  clean_dr :: bool
  thread_aware :: bool
  modules_native :: bool

record register_field =
  rf_name :: string
  rf_offset :: u32
  rf_size :: u16

record register_profile =
  rp_fields :: "register_field list"
  rp_block_size :: u32

record 'b backend_ops =
  be_attach :: "attach_spec \<Rightarrow> 'b \<Rightarrow> unit result \<times> 'b"
  be_detach :: "'b \<Rightarrow> unit result \<times> 'b"
  be_cont :: "'b \<Rightarrow> stop_reply result \<times> 'b"
  be_step :: "'b \<Rightarrow> stop_reply result \<times> 'b"
  be_request_stop :: "'b \<Rightarrow> unit result \<times> 'b"
  be_read_registers :: "'b \<Rightarrow> bytes result \<times> 'b"
  be_write_registers :: "bytes \<Rightarrow> 'b \<Rightarrow> unit result \<times> 'b"
  be_register_profile :: "'b \<Rightarrow> register_profile"
  be_read_memory :: "u64 \<Rightarrow> u64 \<Rightarrow> 'b \<Rightarrow> bytes result \<times> 'b"
  be_write_memory :: "u64 \<Rightarrow> bytes \<Rightarrow> 'b \<Rightarrow> unit result \<times> 'b"
  be_maps :: "'b \<Rightarrow> mem_map list result \<times> 'b"
  be_modules :: "'b \<Rightarrow> module_info list result \<times> 'b"
  be_threads :: "'b \<Rightarrow> thread_info list result \<times> 'b"
  be_set_breakpoint :: "bp_kind \<Rightarrow> u64 \<Rightarrow> int \<Rightarrow> 'b \<Rightarrow> unit result \<times> 'b"
  be_remove_breakpoint :: "bp_kind \<Rightarrow> u64 \<Rightarrow> int \<Rightarrow> 'b \<Rightarrow> unit result \<times> 'b"
  be_caps :: "'b \<Rightarrow> backend_caps"

section \<open>Little-endian integers in buffers\<close>

text \<open>
  \<open>bytes_of_u64\<close> and \<open>u64_of_bytes\<close> are \<open>memcpy\<close> of a 64-bit integer into and
  out of an 8-byte buffer on the little-endian hosts the sources run on.
\<close>

definition u64_of_bytes :: "bytes \<Rightarrow> u64" where
  "u64_of_bytes bs = foldr (\<lambda>b acc. push_bit 8 acc OR ucast b) bs 0"

definition bytes_of_u64 :: "u64 \<Rightarrow> bytes" where
  "bytes_of_u64 v = map (\<lambda>i. ucast (drop_bit (8 * i) v)) [0..<8]"

lemma length_bytes_of_u64 [simp]: "length (bytes_of_u64 v) = 8"
  by (simp add: bytes_of_u64_def)

lemma bit_u64_of_bytes:
  "length bs \<le> 8 \<Longrightarrow>
   bit (u64_of_bytes bs) n \<longleftrightarrow> n div 8 < length bs \<and> bit (bs ! (n div 8)) (n mod 8)"
proof (induction bs arbitrary: n)
  case (Cons b bs)
  have step: "u64_of_bytes (b # bs) = push_bit 8 (u64_of_bytes bs) OR ucast b"
    by (simp add: u64_of_bytes_def)
  show ?case
  proof (cases "n < 8")
    case True
    then show ?thesis by (auto simp: step bit_simps)
  next
    case False
    then obtain m where m: "n = m + 8" by (metis add.commute le_Suc_ex not_less)
    have len: "length bs \<le> 8" "length bs < 8" using Cons.prems by simp_all
    have b: "\<not> bit b n"
      using False by (auto dest: bit_imp_le_length)
    show ?thesis
    proof (cases "n < 64")
      case True
      have d: "(m + 8) div 8 = Suc (m div 8)" by simp
      show ?thesis using True Cons.IH [OF len(1), of m] b
        by (auto simp: step bit_simps m d simp del: div_add_self2)
    next
      case False
      then have "8 \<le> n div 8" by simp
      then show ?thesis using False len
        by (auto dest: bit_imp_le_length)
    qed
  qed
qed (simp add: u64_of_bytes_def)

lemma u64_of_bytes_of_u64: "u64_of_bytes (bytes_of_u64 v) = v"
proof (rule bit_word_eqI)
  fix n :: nat
  assume n: "n < LENGTH(64)"
  then have "n div 8 < 8" by simp
  then show "bit (u64_of_bytes (bytes_of_u64 v)) n \<longleftrightarrow> bit v n"
    using n by (simp add: bit_u64_of_bytes) (simp add: bytes_of_u64_def bit_simps)
qed

end
