(* ===== verification/Hex.thy ===== *)
theory Hex
  imports Prelude
begin

text \<open>
  protocol/src/hex.cpp: bytes to lower-case hexadecimal text and back.  The
  function \<open>hexval\<close> is repeated verbatim in frame.cpp and packets.cpp; one
  definition serves all three.

  The locale \<open>wire_codec\<close> states the contract the layers above rely on: what
  was encoded decodes to itself.  It is interpreted here for \<open>hex_encode\<close> and
  \<open>hex_decode\<close>, and in Packets and Frame for addresses and frames.
\<close>

definition hexval :: "char \<Rightarrow> int" where
  "hexval c =
     (let v = (of_char c :: int) in
      if of_char CHR ''0'' \<le> v \<and> v \<le> of_char CHR ''9'' then v - of_char CHR ''0''
      else if of_char CHR ''a'' \<le> v \<and> v \<le> of_char CHR ''f'' then v - of_char CHR ''a'' + 10
      else if of_char CHR ''A'' \<le> v \<and> v \<le> of_char CHR ''F'' then v - of_char CHR ''A'' + 10
      else -1)"

fun hex_encode :: "bytes \<Rightarrow> string" where
  "hex_encode [] = []"
| "hex_encode (b # bs) =
     hex_digit (unat (drop_bit 4 b AND 0xf)) # hex_digit (unat (b AND 0xf)) # hex_encode bs"

text \<open>
  The loop of \<open>hex_decode\<close> runs on an even number of characters only, so its
  second equation is not reached.
\<close>

fun hex_decode_loop :: "string \<Rightarrow> bytes \<Rightarrow> bytes result" where
  "hex_decode_loop [] out = Ok out"
| "hex_decode_loop [_] out = Ok out"
| "hex_decode_loop (h # l # rest) out =
     (let hi = hexval h; lo = hexval l in
      if hi < 0 \<or> lo < 0 then Err ''hex_decode: invalid digit''
      else hex_decode_loop rest (out @ [word_of_int (push_bit 4 hi OR lo)]))"

definition hex_decode :: "string \<Rightarrow> bytes result" where
  "hex_decode hex =
     (if length hex mod 2 \<noteq> 0 then Err ''hex_decode: odd length''
      else hex_decode_loop hex [])"

section \<open>Digits\<close>

lemma less_16_cases: "(n::nat) < 16 \<longleftrightarrow> n \<in> {0, 1, 2, 3, 4, 5, 6, 7, 8, 9, 10, 11, 12, 13, 14, 15}"
  by (simp add: set_eq_iff) presburger

lemma hexval_hex_digit: "n < 16 \<Longrightarrow> hexval (hex_digit n) = int n"
  unfolding less_16_cases by (elim insertE emptyE; simp add: hexval_def hex_digit_def)

lemma hexval_range: "-1 \<le> hexval c \<and> hexval c \<le> 15"
  by (simp add: hexval_def Let_def)

lemma hex_digit_wire [wire_simps]:
  "n < 16 \<Longrightarrow> hex_digit n \<notin> {CHR ''#'', CHR ''$'', CHR '','', CHR '':'', CHR '';'', CHR ''+'', CHR ''-''}"
  unfolding less_16_cases by (elim insertE emptyE; simp add: hex_digit_def)

lemma nibble_mask: "x AND 0xf = take_bit 4 (x :: byte)"
  by (simp add: take_bit_eq_mask mask_numeral)

lemma unat_nibbles [word_nat]:
  fixes b :: byte
  shows "unat (b AND 0xf) = unat b mod 16" "unat (drop_bit 4 b AND 0xf) = unat b div 16"
proof -
  have less: "unat b div 16 < 16"
    using unsigned_less [of b, where ?'a = nat] by simp
  have take: "unat (x AND 0xf) = unat x mod 16" for x :: byte
    by (simp only: nibble_mask unsigned_take_bit_eq) (simp add: take_bit_eq_mod)
  show "unat (b AND 0xf) = unat b mod 16" by (rule take)
  have "unat (drop_bit 4 b) = unat b div 16"
    by (simp only: drop_bit_eq_div unat_div) simp
  with less show "unat (drop_bit 4 b AND 0xf) = unat b div 16"
    by (simp only: take) simp
qed

lemma nibble_less: "unat (b AND 0xf :: byte) < 16" "unat (drop_bit 4 b AND 0xf :: byte) < 16"
  unfolding unat_nibbles using unsigned_less [of b, where ?'a = nat] by simp_all

lemma or_nibbles:
  assumes "lo < (16::nat)"
  shows "push_bit 4 (int hi) OR int lo = int (16 * hi + lo)"
proof -
  have "\<not> bit (int lo) n" if "4 \<le> n" for n
  proof -
    have "take_bit 4 (int lo) = int lo" using assms by (simp add: take_bit_int_eq_self)
    then show ?thesis using that by (metis bit_take_bit_iff not_less)
  qed
  then have "push_bit 4 (int hi) AND int lo = 0"
    by (auto simp: bit_eq_iff bit_and_iff bit_push_bit_iff)
  then have "push_bit 4 (int hi) OR int lo = push_bit 4 (int hi) + int lo"
    using plus_and_or [of "push_bit 4 (int hi)" "int lo"] by simp
  then show ?thesis by (simp add: push_bit_eq_mult)
qed

lemma byte_of_nibbles:
  "word_of_int (push_bit 4 (int (unat (drop_bit 4 b AND 0xf))) OR int (unat (b AND 0xf))) = (b::byte)"
proof -
  have eq: "push_bit 4 (int (unat (drop_bit 4 b AND 0xf))) OR int (unat (b AND 0xf)) =
      int (16 * (unat b div 16) + unat b mod 16)"
    by (subst or_nibbles [OF nibble_less(1)]) (simp only: unat_nibbles(2), simp only: unat_nibbles(1))
  show ?thesis unfolding eq by simp
qed

section \<open>Round trips\<close>

lemma hex_decode_loop_encode:
  "hex_decode_loop (hex_encode bs @ rest) out = hex_decode_loop rest (out @ bs)"
proof (induction bs arbitrary: out)
  case (Cons b bs)
  have "hexval (hex_digit (unat (drop_bit 4 b AND 0xf))) = int (unat (drop_bit 4 b AND 0xf))"
    "hexval (hex_digit (unat (b AND 0xf))) = int (unat (b AND 0xf))"
    by (rule hexval_hex_digit, rule nibble_less)+
  then show ?case
    by (simp only: hex_encode.simps append_Cons hex_decode_loop.simps Let_def byte_of_nibbles Cons.IH)
      simp
qed simp

lemma length_hex_encode [simp]: "length (hex_encode bs) = 2 * length bs"
  by (induction bs) simp_all

lemma hex_encode_append: "hex_encode (xs @ ys) = hex_encode xs @ hex_encode ys"
  by (induction xs) simp_all

lemma hex_decode_encode: "hex_decode (hex_encode bs) = Ok bs"
  using hex_decode_loop_encode [of bs "[]" "[]"] by (simp add: hex_decode_def)

lemma hex_encode_wire [wire_simps]:
  assumes "c \<in> {CHR ''#'', CHR ''$'', CHR '','', CHR '':'', CHR '';'', CHR ''+'', CHR ''-''}"
  shows "c \<notin> set (hex_encode bs)"
proof -
  have "hex_digit n \<noteq> c" if "n < 16" for n
    using hex_digit_wire [OF that] assms by blast
  then show ?thesis
    by (induction bs) (use nibble_less in auto)
qed

section \<open>The codec contract\<close>

locale wire_codec =
  fixes enc :: "'a \<Rightarrow> string" and dec :: "string \<Rightarrow> 'a option" and valid :: "'a \<Rightarrow> bool"
  assumes dec_enc: "valid x \<Longrightarrow> dec (enc x) = Some x"
begin

lemma enc_eq_iff: "valid x \<Longrightarrow> valid y \<Longrightarrow> enc x = enc y \<longleftrightarrow> x = y"
  by (metis dec_enc option.inject)

lemma enc_inj_on: "inj_on enc {x. valid x}"
  by (rule inj_onI) (simp add: enc_eq_iff)

text \<open>Two messages sent in either order are told apart.\<close>

lemma enc_list_eq_iff:
  "list_all valid xs \<Longrightarrow> list_all valid ys \<Longrightarrow> map enc xs = map enc ys \<longleftrightarrow> xs = ys"
  by (rule inj_on_map_eq_map)
    (auto intro!: inj_on_subset [OF enc_inj_on] simp: list_all_iff)

end

definition option_of_result :: "'a result \<Rightarrow> 'a option" where
  "option_of_result r = (case r of Err _ \<Rightarrow> None | Ok v \<Rightarrow> Some v)"

lemma option_of_result_simps [simp]:
  "option_of_result (Ok v) = Some v" "option_of_result (Err e) = None"
  by (simp_all add: option_of_result_def)

interpretation hex: wire_codec hex_encode "\<lambda>s. option_of_result (hex_decode s)" "\<lambda>_. True"
  by unfold_locales (simp add: hex_decode_encode)

section \<open>Properties\<close>

text \<open>A buffer written in hexadecimal reads back as itself, the text has two digits per byte,
  and none of them is a character the packet syntax uses.\<close>

theorem hex_round_trip:
  "hex_decode (hex_encode bs) = Ok bs \<and> length (hex_encode bs) = 2 * length bs \<and>
   {CHR ''#'', CHR ''$'', CHR '','', CHR '':'', CHR '';'', CHR ''+'', CHR ''-''} \<inter> set (hex_encode bs) = {}"
  using hex_encode_wire [of _ bs] by (simp add: hex_decode_encode)

end
