(* ===== verification/Frame.thy ===== *)
theory Frame
  imports Hex
begin

text \<open>
  protocol/src/frame.cpp: the packet framing of the gdb remote protocol
  (\<open>$payload#cc\<close> with a two-digit checksum) and the incremental decoder
  \<open>FrameDecoder\<close>.

  \<open>drain\<close> and \<open>run_chunks\<close> describe how the decoder is used: bytes arrive in
  arbitrary pieces, and after each piece payloads are taken out until none is
  left.  The lemmas show that framing survives this: whatever the pieces, the
  payloads that come out are the ones that were framed.
\<close>

unbundle bit_operations_syntax

definition checksum :: "string \<Rightarrow> u8" where
  "checksum payload =
     ucast (foldl (\<lambda>sum c. sum + ucast (byte_of_char c)) (0 :: u32) payload AND 0xff)"

definition frame :: "string \<Rightarrow> string" where
  "frame payload = CHR ''$'' # payload @ CHR ''#'' # fmt_02x (checksum payload)"

definition is_ack :: "char \<Rightarrow> bool" where
  "is_ack c \<longleftrightarrow> c = CHR ''+'' \<or> c = CHR ''-''"

record frame_decoder =
  fd_buf :: string

definition feed :: "frame_decoder \<Rightarrow> string \<Rightarrow> frame_decoder" where
  "feed d bytes = d\<lparr>fd_buf := fd_buf d @ bytes\<rparr>"

definition next_payload :: "frame_decoder \<Rightarrow> string option \<times> frame_decoder" where
  "next_payload d =
     (let b = dropWhile is_ack (fd_buf d) in
      case str_find CHR ''$'' 0 b of
        None \<Rightarrow> (None, d\<lparr>fd_buf := []\<rparr>)
      | Some start \<Rightarrow>
         (case str_find CHR ''#'' start b of
            None \<Rightarrow> (None, d\<lparr>fd_buf := b\<rparr>)
          | Some hash \<Rightarrow>
             if hash + 2 \<ge> length b then (None, d\<lparr>fd_buf := b\<rparr>)
             else
               let payload = take (hash - start - 1) (drop (start + 1) b);
                   hi = hexval (b ! (hash + 1));
                   lo = hexval (b ! (hash + 2));
                   good = (hi \<ge> 0 \<and> lo \<ge> 0 \<and> word_of_int (push_bit 4 hi OR lo) = checksum payload);
                   d' = d\<lparr>fd_buf := drop (hash + 3) b\<rparr>
               in if good then (Some payload, d') else (None, d')))"

section \<open>The checksum\<close>

lemma checksum_fold:
  "foldl (\<lambda>sum c. sum + ucast (byte_of_char c)) (s :: u32) p
   = s + word_of_nat (\<Sum>c\<leftarrow>p. unat (byte_of_char c))"
  by (induction p arbitrary: s) (simp_all add: add.assoc)

lemma checksum_word: "checksum p = word_of_nat (\<Sum>c\<leftarrow>p. unat (byte_of_char c))"
proof -
  have mask: "w AND 0xff = take_bit 8 (w :: u32)" for w
    by (simp add: take_bit_eq_mask mask_numeral)
  have "ucast (take_bit 8 (word_of_nat n :: u32)) = (word_of_nat n :: u8)" for n
    by (rule bit_word_eqI) (auto simp: bit_simps)
  then show ?thesis
    unfolding checksum_def checksum_fold mask by simp
qed

lemma unat_checksum: "unat (checksum p) = (\<Sum>c\<leftarrow>p. unat (byte_of_char c)) mod 256"
  by (simp add: checksum_word unat_of_nat)

lemma checksum_append: "checksum (p @ q) = checksum p + checksum q"
  by (simp add: checksum_word)

lemma hexval_checksum_digits:
  "word_of_int (push_bit 4 (hexval (fmt_02x b ! 0)) OR hexval (fmt_02x b ! Suc 0)) = b"
  "0 \<le> hexval (fmt_02x b ! 0)" "0 \<le> hexval (fmt_02x b ! Suc 0)"
proof -
  have lt: "unat b div 16 < 16" "unat b mod 16 < 16"
    using unsigned_less [of b, where ?'a = nat] by simp_all
  have hv: "hexval (fmt_02x b ! 0) = int (unat b div 16)"
    "hexval (fmt_02x b ! Suc 0) = int (unat b mod 16)"
    unfolding fmt_02x_def using lt by (simp_all only: nth_Cons_0 nth_Cons_Suc hexval_hex_digit)
  show "word_of_int (push_bit 4 (hexval (fmt_02x b ! 0)) OR hexval (fmt_02x b ! Suc 0)) = b"
    unfolding hv or_nibbles [OF lt(2)] by simp
  show "0 \<le> hexval (fmt_02x b ! 0)" "0 \<le> hexval (fmt_02x b ! Suc 0)"
    unfolding hv by simp_all
qed

lemma length_fmt_02x [simp]: "length (fmt_02x b) = 2"
  by (simp add: fmt_02x_def)

lemma length_frame [simp]: "length (frame p) = length p + 4"
  by (simp add: frame_def)

section \<open>One packet\<close>

lemma str_find_dollar:
  "CHR ''$'' \<notin> set junk \<Longrightarrow> str_find CHR ''$'' 0 (junk @ CHR ''$'' # ys) = Some (length junk)"
  by (simp add: str_find_def find_idx_append)

lemma str_find_hash:
  "CHR ''#'' \<notin> set p \<Longrightarrow>
   str_find CHR ''#'' (length junk) (junk @ CHR ''$'' # p @ CHR ''#'' # zs)
   = Some (length junk + (length p + 1))"
  by (simp add: str_find_def find_idx_append)

lemma dropWhile_ack_junk:
  assumes "CHR ''$'' \<notin> set junk"
  obtains junk' where "CHR ''$'' \<notin> set junk'"
    "\<And>ys. dropWhile is_ack (junk @ CHR ''$'' # ys) = junk' @ CHR ''$'' # ys"
proof
  show "CHR ''$'' \<notin> set (dropWhile is_ack junk)"
    using assms by (meson set_dropWhileD)
  show "dropWhile is_ack (junk @ CHR ''$'' # ys) = dropWhile is_ack junk @ CHR ''$'' # ys" for ys
    by (induction junk) (auto simp: is_ack_def)
qed

text \<open>
  A buffer that holds noise without a dollar sign (acknowledgements included), then
  a complete packet with checksum digits \<open>h\<close> and \<open>l\<close>.
\<close>

lemma next_payload_packet:
  assumes "CHR ''$'' \<notin> set junk" "CHR ''#'' \<notin> set p"
  shows "next_payload \<lparr>fd_buf = junk @ CHR ''$'' # p @ CHR ''#'' # h # l # rest\<rparr> =
    (if hexval h \<ge> 0 \<and> hexval l \<ge> 0 \<and> word_of_int (push_bit 4 (hexval h) OR hexval l) = checksum p
     then Some p else None, \<lparr>fd_buf = rest\<rparr>)"
proof -
  obtain junk' where j: "CHR ''$'' \<notin> set junk'"
    "\<And>ys. dropWhile is_ack (junk @ CHR ''$'' # ys) = junk' @ CHR ''$'' # ys"
    using dropWhile_ack_junk [OF assms(1)] by metis
  let ?n = "length junk' + (length p + 1)"
  let ?b = "junk' @ CHR ''$'' # p @ CHR ''#'' # h # l # rest"
  have idx: "?b ! (?n + 1) = h" "?b ! (?n + 2) = l" "drop (?n + 3) ?b = rest"
    by (simp_all add: nth_append eval_nat_numeral)
  have pl: "take (?n - length junk' - 1) (drop (length junk' + 1) ?b) = p" by simp
  show ?thesis
    unfolding next_payload_def Let_def
    by (simp only: frame_decoder.select_convs j(2) str_find_dollar [OF j(1)] option.case
        str_find_hash [OF assms(2)] idx pl) auto
qed

lemma next_payload_frame:
  assumes "CHR ''$'' \<notin> set junk" "CHR ''#'' \<notin> set p"
  shows "next_payload \<lparr>fd_buf = junk @ frame p @ rest\<rparr> = (Some p, \<lparr>fd_buf = rest\<rparr>)"
proof -
  have fr: "frame p = CHR ''$'' # p @ CHR ''#'' #
      [fmt_02x (checksum p) ! 0, fmt_02x (checksum p) ! Suc 0]"
    by (simp add: frame_def fmt_02x_def)
  show ?thesis
    using next_payload_packet [OF assms, of "fmt_02x (checksum p) ! 0"
        "fmt_02x (checksum p) ! Suc 0" rest] hexval_checksum_digits [of "checksum p"]
    by (simp add: fr)
qed

text \<open>Conversely, every payload that comes out stood in the buffer as a complete packet.\<close>

lemma next_payload_SomeD:
  assumes "next_payload d = (Some p, d')"
  shows "\<exists>junk h l. fd_buf d = junk @ CHR ''$'' # p @ CHR ''#'' # h # l # fd_buf d' \<and>
    CHR ''$'' \<notin> set junk \<and> CHR ''#'' \<notin> set p \<and> hexval h \<ge> 0 \<and> hexval l \<ge> 0 \<and>
    word_of_int (push_bit 4 (hexval h) OR hexval l) = checksum p"
proof -
  let ?b = "dropWhile is_ack (fd_buf d)"
  obtain start where start: "str_find CHR ''$'' 0 ?b = Some start"
    using assms by (auto simp: next_payload_def Let_def split: option.splits)
  obtain hash where hash: "str_find CHR ''#'' start ?b = Some hash" "hash + 2 < length ?b"
    using assms start
    by (auto simp: next_payload_def Let_def not_le split: option.splits if_splits)
  obtain xs ys where b: "?b = xs @ CHR ''$'' # ys" "length xs = start" "CHR ''$'' \<notin> set xs"
    using start find_idx_Some_split [of "CHR ''$''" ?b start] by (auto simp: str_find_def)
  obtain i where i: "find_idx CHR ''#'' ys = Some i" "hash = start + (i + 1)"
    using hash(1) b by (auto simp: str_find_def)
  obtain us vs where ys: "ys = us @ CHR ''#'' # vs" "length us = i" "CHR ''#'' \<notin> set us"
    using find_idx_Some_split [OF i(1)] by blast
  obtain h l rest where vs: "vs = h # l # rest"
    using hash(2) b(1,2) ys(1,2) i(2) by (cases vs; cases "tl vs") auto
  have ack: "\<forall>c \<in> set (takeWhile is_ack (fd_buf d)). is_ack c"
    by (meson set_takeWhileD)
  have junk: "CHR ''$'' \<notin> set (takeWhile is_ack (fd_buf d) @ xs)"
    using ack b(3) by (auto simp: is_ack_def)
  have buf: "fd_buf d = (takeWhile is_ack (fd_buf d) @ xs) @ CHR ''$'' # us @ CHR ''#'' # h # l # rest"
    using takeWhile_dropWhile_id [of is_ack "fd_buf d"] unfolding b(1) ys(1) vs by simp
  have "d = \<lparr>fd_buf = fd_buf d\<rparr>" by simp
  then have "next_payload d = (if hexval h \<ge> 0 \<and> hexval l \<ge> 0 \<and>
      word_of_int (push_bit 4 (hexval h) OR hexval l) = checksum us then Some us else None,
      \<lparr>fd_buf = rest\<rparr>)"
    using next_payload_packet [OF junk ys(3), of h l rest] buf by metis
  with assms have "p = us" "fd_buf d' = rest" "hexval h \<ge> 0" "hexval l \<ge> 0"
    "word_of_int (push_bit 4 (hexval h) OR hexval l) = checksum us"
    by (auto split: if_splits)
  with buf junk ys(3) show ?thesis by blast
qed

section \<open>A stream of packets in arbitrary pieces\<close>

text \<open>Take payloads out until none is left: the loop every user of the decoder runs.\<close>

function drain :: "frame_decoder \<Rightarrow> string list \<times> frame_decoder" where
  "drain d =
     (case next_payload d of
        (None, d') \<Rightarrow> ([], d')
      | (Some p, d') \<Rightarrow> (let (ps, d'') = drain d' in (p # ps, d'')))"
  by pat_completeness auto
termination
  by (relation "measure (\<lambda>d. length (fd_buf d))") (auto dest!: next_payload_SomeD [OF sym])

declare drain.simps [simp del]

fun run_chunks :: "frame_decoder \<Rightarrow> string list \<Rightarrow> string list \<times> frame_decoder" where
  "run_chunks d [] = ([], d)"
| "run_chunks d (c # cs) =
     (let (ps, d1) = drain (feed d c); (qs, d2) = run_chunks d1 cs in (ps @ qs, d2))"

text \<open>An incomplete packet stays in the buffer; only the noise before it may go.\<close>

lemma next_payload_noise:
  assumes "CHR ''$'' \<notin> set b"
  shows "next_payload \<lparr>fd_buf = b\<rparr> = (None, \<lparr>fd_buf = []\<rparr>)"
proof -
  have "CHR ''$'' \<notin> set (dropWhile is_ack b)"
    using assms by (meson set_dropWhileD)
  then have "find_idx CHR ''$'' (dropWhile is_ack b) = None" by (simp add: find_idx_None_iff)
  then show ?thesis by (simp add: next_payload_def str_find_def Let_def)
qed

lemma next_payload_partial:
  assumes junk: "CHR ''$'' \<notin> set junk" and p: "CHR ''#'' \<notin> set p"
    and q: "q @ r = p @ CHR ''#'' # fmt_02x cs" and r: "r \<noteq> []"
  obtains junk' where "CHR ''$'' \<notin> set junk'"
    "next_payload \<lparr>fd_buf = junk @ CHR ''$'' # q\<rparr> = (None, \<lparr>fd_buf = junk' @ CHR ''$'' # q\<rparr>)"
proof -
  obtain junk' where j: "CHR ''$'' \<notin> set junk'"
    "\<And>ys. dropWhile is_ack (junk @ CHR ''$'' # ys) = junk' @ CHR ''$'' # ys"
    using dropWhile_ack_junk [OF junk] by metis
  have short: "length q < length p + 3"
    using arg_cong [OF q, of length] r by (cases r) auto
  let ?b = "junk' @ CHR ''$'' # q"
  have "find_idx CHR ''#'' (CHR ''$'' # q) = None
    \<or> find_idx CHR ''#'' (CHR ''$'' # q) = Some (length p + 1)"
  proof (cases "length q \<le> length p")
    case True
    then have "q = take (length q) p"
      using arg_cong [OF q, of "take (length q)"] by simp
    then have "CHR ''#'' \<notin> set q" using p by (metis in_set_takeD)
    then show ?thesis by (simp add: find_idx_None_iff)
  next
    case False
    then have "q = p @ CHR ''#'' # take (length q - length p - 1) (fmt_02x cs)"
      using arg_cong [OF q, of "take (length q)"] by (simp add: take_Cons')
    then have "find_idx CHR ''#'' q = Some (length p)"
      using p by (metis add.right_neutral find_idx.simps(2) find_idx_append option.map(2))
    then show ?thesis by simp
  qed
  then have "str_find CHR ''#'' (length junk') ?b = None
    \<or> str_find CHR ''#'' (length junk') ?b = Some (length junk' + (length p + 1))"
    by (auto simp: str_find_def)
  moreover have "length junk' + (length p + 1) + 2 \<ge> length ?b" using short by simp
  ultimately have "next_payload \<lparr>fd_buf = junk @ CHR ''$'' # q\<rparr> = (None, \<lparr>fd_buf = ?b\<rparr>)"
    unfolding next_payload_def Let_def
    by (elim disjE) (simp_all only: frame_decoder.select_convs j(2) str_find_dollar [OF j(1)]
        option.case if_True frame_decoder.update_convs)
  with j(1) that show thesis by blast
qed

text \<open>
  One poll while a packet is arriving: either it is complete and comes out, or the
  decoder waits and loses at most noise.
\<close>

lemma next_payload_step:
  assumes eq: "b @ rest = (a @ frame p) @ tl'" and ok: "CHR ''$'' \<notin> set a" "CHR ''#'' \<notin> set p"
  obtains
    (complete) b2 where "next_payload \<lparr>fd_buf = b\<rparr> = (Some p, \<lparr>fd_buf = b2\<rparr>)" "b2 @ rest = tl'"
  | (waiting) a' b' where "next_payload \<lparr>fd_buf = b\<rparr> = (None, \<lparr>fd_buf = b'\<rparr>)"
      "CHR ''$'' \<notin> set a'" "b' @ rest = (a' @ frame p) @ tl'" "rest \<noteq> []"
proof -
  consider (whole) b2 where "b = (a @ frame p) @ b2" "b2 @ rest = tl'"
    | (part) r where "a @ frame p = b @ r" "rest = r @ tl'" "r \<noteq> []"
  proof -
    from eq obtain us where
      "b = (a @ frame p) @ us \<and> us @ rest = tl' \<or> b @ us = a @ frame p \<and> rest = us @ tl'"
      unfolding append_eq_append_conv2 [of b] by blast
    then show thesis by (cases "us = []") (metis append_Nil append_Nil2 whole, metis whole part)
  qed
  then show thesis
  proof cases
    case whole
    then show thesis using complete next_payload_frame [OF ok, of b2] by simp
  next
    case part
    show thesis
    proof (cases "CHR ''$'' \<in> set b")
      case False
      have "length b \<le> length a"
      proof (rule ccontr)
        assume "\<not> length b \<le> length a"
        with arg_cong [OF part(1), of "\<lambda>x. x ! length a"] have "b ! length a = CHR ''$''"
          by (simp add: nth_append frame_def)
        with False \<open>\<not> length b \<le> length a\<close> show False by (metis not_le nth_mem)
      qed
      then obtain a' where "a = b @ a'" "r = a' @ frame p"
        using part(1) by (auto simp: append_eq_append_conv2)
      with waiting [OF next_payload_noise [OF False], of a'] part ok show thesis by auto
    next
      case True
      have "\<exists>q. b = a @ CHR ''$'' # q \<and> q @ r = p @ CHR ''#'' # fmt_02x (checksum p)"
        using part(1) True ok(1) by (auto simp: append_eq_append_conv2 frame_def Cons_eq_append_conv)
      then obtain q where q: "b = a @ CHR ''$'' # q" "q @ r = p @ CHR ''#'' # fmt_02x (checksum p)"
        by blast
      obtain a' where a': "CHR ''$'' \<notin> set a'"
        "next_payload \<lparr>fd_buf = b\<rparr> = (None, \<lparr>fd_buf = a' @ CHR ''$'' # q\<rparr>)"
        using next_payload_partial [OF ok q(2) part(3)] q(1) by metis
      have "(a' @ CHR ''$'' # q) @ rest = (a' @ frame p) @ tl'"
        using q(2) part(2) by (metis append.assoc append_Cons frame_def)
      with waiting [OF a'(2,1)] part(2,3) show thesis by blast
    qed
  qed
qed

type_synonym packet_item = "string \<times> string"

definition emit :: "packet_item \<Rightarrow> string" where
  "emit it = fst it @ frame (snd it)"

definition item_ok :: "packet_item \<Rightarrow> bool" where
  "item_ok it \<longleftrightarrow> CHR ''$'' \<notin> set (fst it) \<and> CHR ''#'' \<notin> set (snd it)"

lemma emit_pair [simp]: "emit (a, p) = a @ frame p"
  by (simp add: emit_def)

lemma item_ok_pair [simp]: "item_ok (a, p) \<longleftrightarrow> CHR ''$'' \<notin> set a \<and> CHR ''#'' \<notin> set p"
  by (simp add: item_ok_def)

lemma drain_None: "next_payload d = (None, d') \<Longrightarrow> drain d = ([], d')"
  by (simp add: drain.simps)

lemma drain_Some:
  "next_payload d = (Some p, d') \<Longrightarrow> drain d = (p # fst (drain d'), snd (drain d'))"
  by (subst drain.simps) (simp add: case_prod_unfold Let_def)

lemma drain_stream:
  assumes "b @ rest = concat (map emit items)" "list_all item_ok items"
  shows "\<exists>done left b'. drain \<lparr>fd_buf = b\<rparr> = (map snd done, \<lparr>fd_buf = b'\<rparr>) \<and>
    map snd items = map snd (done :: packet_item list) @ map snd left \<and>
    b' @ rest = concat (map emit left) \<and> list_all item_ok left \<and> (rest = [] \<longrightarrow> left = [])"
  using assms
proof (induction items arbitrary: b)
  case Nil
  have "drain \<lparr>fd_buf = []\<rparr> = ([], \<lparr>fd_buf = []\<rparr>)"
    by (intro drain_None next_payload_noise) simp
  with Nil show ?case by (intro exI [of _ "[]"]) auto
next
  case (Cons it items)
  obtain a p where it: "it = (a, p)" by (cases it)
  have "item_ok it" and items: "list_all item_ok items" using Cons.prems(2) by simp_all
  then have ok: "CHR ''$'' \<notin> set a" "CHR ''#'' \<notin> set p" by (simp_all add: it)
  have eq: "b @ rest = (a @ frame p) @ concat (map emit items)"
    using Cons.prems(1) it by simp
  from eq ok show ?case
  proof (cases rule: next_payload_step)
    case (complete b2)
    from Cons.IH [OF complete(2) items] obtain don left b' where ih:
      "drain \<lparr>fd_buf = b2\<rparr> = (map snd don, \<lparr>fd_buf = b'\<rparr>)"
      "map snd items = map snd (don :: packet_item list) @ map snd left"
      "b' @ rest = concat (map emit left)" "list_all item_ok left" "rest = [] \<longrightarrow> left = []"
      by blast
    have "drain \<lparr>fd_buf = b\<rparr> = (map snd (it # don), \<lparr>fd_buf = b'\<rparr>)"
      using drain_Some [OF complete(1)] ih(1) it by simp
    with ih it show ?thesis by (intro exI [of _ "it # don"] exI [of _ left] exI [of _ b']) simp
  next
    case (waiting a' b')
    with drain_None [OF waiting(1)] ok items it show ?thesis
      by (intro exI [of _ "[]"] exI [of _ "(a', p) # items"] exI [of _ b']) auto
  qed
qed

text \<open>Whatever the pieces, the payloads that come out are the ones that went in.\<close>

lemma run_chunks_stream:
  assumes "b @ concat chunks = concat (map emit items)" "list_all item_ok items"
    and "chunks = [] \<longrightarrow> items = []"
  shows "fst (run_chunks \<lparr>fd_buf = b\<rparr> chunks) = map snd items"
  using assms
proof (induction chunks arbitrary: b items)
  case (Cons c chunks)
  from Cons.prems(1) have "(b @ c) @ concat chunks = concat (map emit items)" by simp
  from drain_stream [OF this Cons.prems(2)] obtain don left b' where d:
    "drain \<lparr>fd_buf = b @ c\<rparr> = (map snd don, \<lparr>fd_buf = b'\<rparr>)"
    "map snd items = map snd (don :: packet_item list) @ map snd left"
    "b' @ concat chunks = concat (map emit left)" "list_all item_ok left"
    "concat chunks = [] \<longrightarrow> left = []"
    by blast
  have "fst (run_chunks \<lparr>fd_buf = b'\<rparr> chunks) = map snd left"
    using Cons.IH [OF d(3,4)] d(5) by auto
  with d(1,2) show ?case by (simp add: feed_def case_prod_unfold Let_def)
qed simp

section \<open>Properties\<close>

text \<open>C1: Packets and noise between them arrive cut into pieces anywhere; feeding the pieces to the
  decoder one by one and polling it after each yields exactly the payloads sent, in order.\<close>

theorem decoder_reassembles_stream:
  assumes "concat chunks = concat (map emit items)" "list_all item_ok items" "chunks \<noteq> []"
  shows "fst (run_chunks \<lparr>fd_buf = []\<rparr> chunks) = map snd items"
  using run_chunks_stream [of "[]" chunks items] assms by simp

theorem decoder_reassembles_stream_witness:
  "fst (run_chunks \<lparr>fd_buf = []\<rparr> [''+$O'', ''K#9'', ''a++$'', ''g#67'']) = [''OK'', ''g'']"
proof -
  have "fst (run_chunks \<lparr>fd_buf = []\<rparr> [''+$O'', ''K#9'', ''a++$'', ''g#67'']) =
      map snd [(''+'', ''OK''), (''++'', ''g'')]"
    by (rule decoder_reassembles_stream) code_simp+
  then show ?thesis by simp
qed

text \<open>C10: A payload the decoder delivers stood in its buffer as a whole packet with the matching
  checksum, nothing before it but noise without a packet start, and everything after it is kept.\<close>

theorem decoder_delivers_only_valid:
  assumes "next_payload d = (Some p, d')"
  shows "\<exists>junk h l. fd_buf d = junk @ CHR ''$'' # p @ CHR ''#'' # h # l # fd_buf d' \<and>
    CHR ''$'' \<notin> set junk \<and> hexval h \<ge> 0 \<and> hexval l \<ge> 0 \<and>
    (16 * hexval h + hexval l) mod 256 = int ((\<Sum>c\<leftarrow>p. unat (byte_of_char c)) mod 256)"
proof -
  from next_payload_SomeD [OF assms] obtain junk h l where s:
    "fd_buf d = junk @ CHR ''$'' # p @ CHR ''#'' # h # l # fd_buf d'" "CHR ''$'' \<notin> set junk"
    "hexval h \<ge> 0" "hexval l \<ge> 0" "word_of_int (push_bit 4 (hexval h) OR hexval l) = checksum p"
    by blast
  have r: "hexval l < 16" using hexval_range [of l] by simp
  have "push_bit 4 (hexval h) OR hexval l = 16 * hexval h + hexval l"
    using or_nibbles [of "nat (hexval l)" "nat (hexval h)"] s(3,4) r by simp
  with s(5) have "(word_of_int (16 * hexval h + hexval l) :: u8) = checksum p" by simp
  from arg_cong [OF this, of uint]
  have "(16 * hexval h + hexval l) mod 256 = uint (checksum p)"
    by (subst (asm) uint_word_of_int) simp
  also have "\<dots> = int (unat (checksum p))" by simp
  finally show ?thesis
    unfolding unat_checksum using s(1-4) by blast
qed

theorem decoder_delivers_only_valid_witness:
  "\<exists>junk h l. ''+$OK#9a$g'' = junk @ CHR ''$'' # ''OK'' @ CHR ''#'' # h # l # ''$g'' \<and>
    CHR ''$'' \<notin> set junk \<and> hexval h \<ge> 0 \<and> hexval l \<ge> 0 \<and>
    (16 * hexval h + hexval l) mod 256 = int ((\<Sum>c\<leftarrow>''OK''. unat (byte_of_char c)) mod 256)"
proof -
  have "next_payload \<lparr>fd_buf = ''+$OK#9a$g''\<rparr> = (Some ''OK'', \<lparr>fd_buf = ''$g''\<rparr>)"
    by code_simp
  from decoder_delivers_only_valid [OF this] show ?thesis by simp
qed

end
