(* ===== verification/Packets.thy ===== *)
theory Packets
  imports Frame
begin

text \<open>
  protocol/src/packets.cpp: the request texts a client sends and the parsing of
  the replies it gets.  The lemmas show that a request text determines its
  arguments, that no request contains a framing character, and that the stop
  reply parser recovers every field a well-formed reply carries.
\<close>

unbundle bit_operations_syntax

section \<open>Requests\<close>

definition hexnum :: "u64 \<Rightarrow> string" where
  "hexnum v = hex_digits (unat v)"

definition parse_hex_byte :: "string \<Rightarrow> int" where
  "parse_hex_byte s =
     (if length s < 2 then -1
      else
        let hi = hexval (s ! 0); lo = hexval (s ! 1) in
        if hi < 0 \<or> lo < 0 then -1 else push_bit 4 hi OR lo)"

definition req_read_registers :: string where
  "req_read_registers = ''g''"

definition req_read_memory :: "u64 \<Rightarrow> u64 \<Rightarrow> string" where
  "req_read_memory addr len = ''m'' @ hexnum addr @ '','' @ hexnum len"

definition req_write_memory :: "u64 \<Rightarrow> bytes \<Rightarrow> string" where
  "req_write_memory addr data =
     ''M'' @ hexnum addr @ '','' @ hexnum (word_of_nat (length data)) @ '':'' @ hex_encode data"

definition req_set_breakpoint :: "int \<Rightarrow> u64 \<Rightarrow> int \<Rightarrow> string" where
  "req_set_breakpoint type addr kind = ''Z'' @ to_string type @ '','' @ hexnum addr @ '','' @ to_string kind"

definition req_remove_breakpoint :: "int \<Rightarrow> u64 \<Rightarrow> int \<Rightarrow> string" where
  "req_remove_breakpoint type addr kind = ''z'' @ to_string type @ '','' @ hexnum addr @ '','' @ to_string kind"

definition req_continue :: string where
  "req_continue = ''c''"

definition req_step :: string where
  "req_step = ''s''"

definition req_halt_reason :: string where
  "req_halt_reason = ''?''"

definition req_qsupported :: string where
  "req_qsupported = ''qSupported''"

section \<open>Replies\<close>

definition reply_is_ok :: "string \<Rightarrow> bool" where
  "reply_is_ok payload \<longleftrightarrow> payload = ''OK''"

definition reply_error_code :: "string \<Rightarrow> int option" where
  "reply_error_code payload =
     (if length payload \<ge> 3 \<and> payload ! 0 = CHR ''E'' then
        let b = parse_hex_byte (drop 1 payload) in if b \<ge> 0 then Some b else None
      else None)"

datatype wire_stop_kind = WSignal | WExited | WTerminated | WOutput | WUnknown

record wire_stop =
  ws_kind :: wire_stop_kind
  ws_code :: int
  ws_info :: "(string \<times> string) list"
  ws_output :: string

definition wire_stop_init :: wire_stop where
  "wire_stop_init = \<lparr>ws_kind = WUnknown, ws_code = 0, ws_info = [], ws_output = []\<rparr>"

text \<open>
  The loop over the \<open>key:value;\<close> fields of a \<open>T\<close> reply.  The argument is what is
  left of the text from index \<open>i\<close> on.
\<close>

function parse_stop_fields :: "string \<Rightarrow> (string \<times> string) list \<Rightarrow> (string \<times> string) list" where
  "parse_stop_fields rest info =
     (if rest = [] then info
      else
        let semi = str_find CHR '';'' 0 rest;
            field = (case semi of None \<Rightarrow> rest | Some k \<Rightarrow> take k rest);
            info' = (case str_find CHR '':'' 0 field of
                       None \<Rightarrow> info
                     | Some colon \<Rightarrow> info @ [(take colon field, drop (colon + 1) field)])
        in case semi of None \<Rightarrow> info' | Some k \<Rightarrow> parse_stop_fields (drop (k + 1) rest) info')"
  by pat_completeness auto
termination
  by (relation "measure (\<lambda>(rest, info). length rest)") auto

declare parse_stop_fields.simps [simp del]

definition parse_stop_reply :: "string \<Rightarrow> wire_stop" where
  "parse_stop_reply p =
     (case p of
        [] \<Rightarrow> wire_stop_init
      | t # _ \<Rightarrow>
          if t = CHR ''O'' then wire_stop_init\<lparr>ws_kind := WOutput, ws_output := drop 1 p\<rparr>
          else
            let code = parse_hex_byte (drop 1 p);
                r = wire_stop_init\<lparr>ws_code := (if code < 0 then 0 else code)\<rparr>
            in
            if t = CHR ''S'' then r\<lparr>ws_kind := WSignal\<rparr>
            else if t = CHR ''T'' then
              r\<lparr>ws_kind := WSignal,
                ws_info := parse_stop_fields (if length p > 3 then drop 3 p else []) []\<rparr>
            else if t = CHR ''W'' then r\<lparr>ws_kind := WExited\<rparr>
            else if t = CHR ''X'' then r\<lparr>ws_kind := WTerminated\<rparr>
            else r\<lparr>ws_kind := WUnknown\<rparr>)"

section \<open>Numbers on the wire\<close>

definition hex_value :: "string \<Rightarrow> nat" where
  "hex_value s = foldl (\<lambda>a c. 16 * a + nat (hexval c)) 0 s"

lemma hex_value_snoc: "hex_value (s @ [c]) = 16 * hex_value s + nat (hexval c)"
  by (simp add: hex_value_def)

lemma hex_value_digits: "hex_value (hex_digits n) = n"
proof (induction n rule: hex_digits.induct)
  case (1 n)
  show ?case
  proof (cases "n < 16")
    case True
    then show ?thesis
      by (subst hex_digits.simps) (simp add: hex_value_def hexval_hex_digit)
  next
    case False
    then have "hex_digits n = hex_digits (n div 16) @ [hex_digit (n mod 16)]"
      by (subst hex_digits.simps) simp
    then show ?thesis
      using 1 False by (simp add: hex_value_snoc hexval_hex_digit)
  qed
qed

lemma hex_value_hexnum: "word_of_nat (hex_value (hexnum v)) = v"
  by (simp add: hexnum_def hex_value_digits)

interpretation hexnum: wire_codec hexnum "\<lambda>s. Some (word_of_nat (hex_value s))" "\<lambda>_. True"
  by unfold_locales (simp add: hex_value_hexnum)

abbreviation wire_special :: "char set" where
  "wire_special \<equiv> {CHR ''#'', CHR ''$'', CHR '','', CHR '':'', CHR '';'', CHR ''+'', CHR ''-''}"

lemma hex_digits_wire [wire_simps]: "c \<in> wire_special \<Longrightarrow> c \<notin> set (hex_digits n)"
proof (induction n rule: hex_digits.induct)
  case (1 n)
  have digit: "c \<noteq> hex_digit k" if "k < 16" for k
    using hex_digit_wire [OF that] 1(2) by blast
  show ?case
  proof (cases "n < 16")
    case True
    then show ?thesis using digit by (subst hex_digits.simps) simp
  next
    case False
    with 1 have "c \<notin> set (hex_digits (n div 16))" by blast
    with False digit show ?thesis by (subst hex_digits.simps) simp
  qed
qed

lemma hexnum_wire [wire_simps]: "c \<in> wire_special \<Longrightarrow> c \<notin> set (hexnum v)"
  unfolding hexnum_def by (rule hex_digits_wire)

lemma less_10_cases: "(n::nat) < 10 \<longleftrightarrow> n \<in> {0, 1, 2, 3, 4, 5, 6, 7, 8, 9}"
  by (simp add: set_eq_iff) presburger

lemma dec_digit_wire: "n < 10 \<Longrightarrow> ''0123456789'' ! n \<notin> wire_special"
  unfolding less_10_cases by (elim insertE emptyE; simp)

lemma dec_digits_wire [wire_simps]: "c \<in> wire_special \<Longrightarrow> c \<notin> set (dec_digits n)"
proof (induction n rule: dec_digits.induct)
  case (1 n)
  have digit: "c \<noteq> ''0123456789'' ! k" if "k < 10" for k
    using dec_digit_wire [OF that] 1(2) by blast
  show ?case
  proof (cases "n < 10")
    case True
    then show ?thesis using digit [OF True] by (subst dec_digits.simps) simp
  next
    case False
    with 1 have "c \<notin> set (dec_digits (n div 10))" by blast
    with False digit [of "n mod 10"] show ?thesis by (subst dec_digits.simps) simp
  qed
qed

lemma to_string_wire [wire_simps]:
  "c \<in> wire_special - {CHR ''-''} \<Longrightarrow> c \<notin> set (to_string i)"
  using dec_digits_wire [of c] by (auto simp: to_string_def)

definition dec_value :: "string \<Rightarrow> nat" where
  "dec_value s = foldl (\<lambda>a c. 10 * a + nat (hexval c)) 0 s"

lemma dec_value_digits: "dec_value (dec_digits n) = n"
proof (induction n rule: dec_digits.induct)
  case (1 n)
  have hv: "hexval (''0123456789'' ! k) = int k" if "k < 10" for k
    using that unfolding less_10_cases by (elim insertE emptyE; simp add: hexval_def)
  show ?case
  proof (cases "n < 10")
    case True
    then show ?thesis by (subst dec_digits.simps) (simp add: dec_value_def hv)
  next
    case False
    then have "dec_digits n = dec_digits (n div 10) @ [''0123456789'' ! (n mod 10)]"
      by (subst dec_digits.simps) simp
    then show ?thesis
      using 1 False by (simp add: dec_value_def hv [of "n mod 10"])
  qed
qed

lemma dec_digits_inject: "dec_digits n = dec_digits m \<longleftrightarrow> n = m"
  by (metis dec_value_digits)

lemma dec_digits_no_minus: "dec_digits n \<noteq> CHR ''-'' # s"
  using dec_digits_wire [of "CHR ''-''" n] by (metis insertI1 insert_iff list.set_intros(1))

lemma to_string_inject: "to_string i = to_string j \<longleftrightarrow> i = j"
  by (auto simp: to_string_def dec_digits_inject dec_digits_no_minus dec_digits_no_minus [symmetric])

text \<open>Two texts that agree up to a separator neither part contains agree on both sides of it.\<close>

lemma append_sep_inject:
  "c \<notin> set xs \<Longrightarrow> c \<notin> set xs' \<Longrightarrow> xs @ c # ys = xs' @ c # ys' \<longleftrightarrow> xs = xs' \<and> ys = ys'"
proof (induction xs arbitrary: xs')
  case Nil
  then show ?case by (cases xs') auto
next
  case (Cons x xs)
  then show ?case by (cases xs') auto
qed

section \<open>The requests as a whole\<close>

text \<open>The requests a client can make, as data; \<open>request_text\<close> is the function that writes each.\<close>

datatype request =
    ReadRegisters
  | ReadMemory u64 u64
  | WriteMemory u64 bytes
  | SetBreakpoint int u64 int
  | RemoveBreakpoint int u64 int
  | Continue
  | Step
  | HaltReason
  | QSupported

fun request_text :: "request \<Rightarrow> string" where
  "request_text ReadRegisters = req_read_registers"
| "request_text (ReadMemory addr len) = req_read_memory addr len"
| "request_text (WriteMemory addr data) = req_write_memory addr data"
| "request_text (SetBreakpoint type addr kind) = req_set_breakpoint type addr kind"
| "request_text (RemoveBreakpoint type addr kind) = req_remove_breakpoint type addr kind"
| "request_text Continue = req_continue"
| "request_text Step = req_step"
| "request_text HaltReason = req_halt_reason"
| "request_text QSupported = req_qsupported"

lemmas request_defs = req_read_registers_def req_read_memory_def req_write_memory_def
  req_set_breakpoint_def req_remove_breakpoint_def req_continue_def req_step_def
  req_halt_reason_def req_qsupported_def

lemma request_text_no_frame_chars:
  "c \<in> {CHR ''#'', CHR ''$''} \<Longrightarrow> c \<notin> set (request_text r)"
  by (cases r) (auto simp: request_defs wire_simps)

lemma request_text_inject: "request_text r = request_text r' \<longleftrightarrow> r = r'"
proof -
  have comma: "CHR '','' \<notin> set (hexnum v)" "CHR '','' \<notin> set (to_string i)" for v i
    by (simp_all add: wire_simps)
  have colon: "CHR '':'' \<notin> set (hexnum v)" for v
    by (simp add: wire_simps)
  note sep = append_sep_inject [OF comma(1) comma(1)] append_sep_inject [OF comma(2) comma(2)]
    append_sep_inject [OF colon colon]
  have hex: "hexnum v = hexnum w \<longleftrightarrow> v = w" "hex_encode b = hex_encode c \<longleftrightarrow> b = c" for v w b c
    using hexnum.enc_eq_iff hex.enc_eq_iff by simp_all
  show ?thesis
    by (cases r; cases r') (auto simp: request_defs sep hex to_string_inject)
qed

section \<open>Reading replies\<close>

lemma parse_hex_byte_digits: "parse_hex_byte (fmt_02x b @ rest) = int (unat b)"
proof -
  have lt: "unat b div 16 < 16" "unat b mod 16 < 16"
    using unsigned_less [of b, where ?'a = nat] by simp_all
  have hv: "hexval (hex_digit (unat b div 16)) = int (unat b div 16)"
    "hexval (hex_digit (unat b mod 16)) = int (unat b mod 16)"
    using lt by (simp_all only: hexval_hex_digit)
  show ?thesis
    unfolding parse_hex_byte_def fmt_02x_def Let_def
    by (simp only: append_Cons append_Nil nth_Cons_0 nth_Cons_Suc One_nat_def hv or_nibbles [OF lt(2)])
      simp
qed

lemma parse_hex_byte_range: "parse_hex_byte s = -1 \<or> 0 \<le> parse_hex_byte s \<and> parse_hex_byte s < 256"
proof (cases "length s < 2 \<or> hexval (s ! 0) < 0 \<or> hexval (s ! 1) < 0")
  case True
  then show ?thesis by (auto simp: parse_hex_byte_def)
next
  case False
  then have "parse_hex_byte s = int (16 * nat (hexval (s ! 0)) + nat (hexval (s ! 1)))"
    using hexval_range [of "s ! 1"] or_nibbles [of "nat (hexval (s ! 1))" "nat (hexval (s ! 0))"]
    by (auto simp: parse_hex_byte_def Let_def)
  with False show ?thesis using hexval_range [of "s ! 0"] hexval_range [of "s ! 1"] by simp
qed

definition field_text :: "string \<times> string \<Rightarrow> string" where
  "field_text kv = fst kv @ '':'' @ snd kv @ '';''"

definition field_ok :: "string \<times> string \<Rightarrow> bool" where
  "field_ok kv \<longleftrightarrow> CHR '':'' \<notin> set (fst kv) \<and> CHR '';'' \<notin> set (fst kv) \<and> CHR '';'' \<notin> set (snd kv)"

lemma parse_stop_fields_text:
  "list_all field_ok kvs \<Longrightarrow>
   parse_stop_fields (concat (map field_text kvs)) info = info @ kvs"
proof (induction kvs arbitrary: info)
  case Nil
  show ?case by (subst parse_stop_fields.simps) simp
next
  case (Cons kv kvs)
  obtain k v where kv: "kv = (k, v)" by (cases kv)
  from Cons.prems have "field_ok kv" and rest: "list_all field_ok kvs" by simp_all
  then have ok: "CHR '':'' \<notin> set k" "CHR '';'' \<notin> set k" "CHR '';'' \<notin> set v"
    by (simp_all add: kv field_ok_def)
  let ?tail = "concat (map field_text kvs)"
  have line: "concat (map field_text (kv # kvs)) = (k @ CHR '':'' # v) @ CHR '';'' # ?tail"
    by (simp add: kv field_text_def [of "(k, v)"])
  have semi: "str_find CHR '';'' 0 ((k @ CHR '':'' # v) @ CHR '';'' # ?tail)
      = Some (length (k @ CHR '':'' # v))"
    unfolding str_find_def using ok by (subst drop_0, subst find_idx_append) auto
  have colon: "str_find CHR '':'' 0 (k @ CHR '':'' # v) = Some (length k)"
    unfolding str_find_def using ok by (subst drop_0, subst find_idx_append) auto
  have parts: "take (length (k @ CHR '':'' # v)) ((k @ CHR '':'' # v) @ CHR '';'' # ?tail) = k @ CHR '':'' # v"
    "drop (length (k @ CHR '':'' # v) + 1) ((k @ CHR '':'' # v) @ CHR '';'' # ?tail) = ?tail"
    "take (length k) (k @ CHR '':'' # v) = k" "drop (length k + 1) (k @ CHR '':'' # v) = v"
    by simp_all
  have nonempty: "(k @ CHR '':'' # v) @ CHR '';'' # ?tail \<noteq> []" by simp
  have "parse_stop_fields ((k @ CHR '':'' # v) @ CHR '';'' # ?tail) info =
      parse_stop_fields ?tail (info @ [(k, v)])"
    by (subst parse_stop_fields.simps)
      (simp only: nonempty if_False semi option.case Let_def parts colon)
  then show ?case unfolding line by (simp add: Cons.IH [OF rest] kv)
qed

lemma parse_stop_reply_T:
  assumes "list_all field_ok kvs"
  shows "parse_stop_reply (CHR ''T'' # fmt_02x b @ concat (map field_text kvs)) =
    \<lparr>ws_kind = WSignal, ws_code = int (unat b), ws_info = kvs, ws_output = []\<rparr>"
proof -
  let ?f = "concat (map field_text kvs)"
  have d: "drop 3 (CHR ''T'' # fmt_02x b @ ?f) = ?f" "drop 1 (CHR ''T'' # fmt_02x b @ ?f) = fmt_02x b @ ?f"
    by (simp_all add: fmt_02x_def)
  have len: "length (CHR ''T'' # fmt_02x b @ ?f) > 3 \<longleftrightarrow> ?f \<noteq> []" by auto
  have "(if ?f \<noteq> [] then ?f else []) = ?f" by simp
  then have info: "parse_stop_fields (if ?f \<noteq> [] then ?f else []) [] = kvs"
    using parse_stop_fields_text [OF assms, of "[]"] by (simp only: append_Nil)
  show ?thesis
    unfolding parse_stop_reply_def list.case Let_def d parse_hex_byte_digits len info
    by (simp add: wire_stop_init_def)
qed

section \<open>Properties\<close>

text \<open>C8: Every request a client can make survives framing: behind noise, in front of anything, the
  decoder takes out the request's text, and that text is no other request's.\<close>

theorem request_survives_framing:
  assumes "CHR ''$'' \<notin> set junk"
  shows "next_payload \<lparr>fd_buf = junk @ frame (request_text r) @ rest\<rparr> =
      (Some (request_text r), \<lparr>fd_buf = rest\<rparr>) \<and>
    (request_text r' = request_text r \<longrightarrow> r' = r)"
  using next_payload_frame [OF assms, of "request_text r" rest]
    request_text_no_frame_chars [of "CHR ''#''" r]
  by (simp add: request_text_inject)

theorem request_survives_framing_witness:
  "next_payload \<lparr>fd_buf = ''++'' @ frame (request_text (ReadMemory 0x1000 16)) @ ''$g''\<rparr> =
      (Some ''m1000,10'', \<lparr>fd_buf = ''$g''\<rparr>)"
proof -
  have "request_text (ReadMemory 0x1000 16) = ''m1000,10''"
    by (simp add: req_read_memory_def hexnum_def hex_digits.simps hex_digit_def)
  with request_survives_framing [of "''++''" "ReadMemory 0x1000 16" "''$g''" Step]
  show ?thesis by simp
qed

text \<open>C9: A \<open>T\<close> stop reply is parsed back into its signal number and its key-value fields, in order.\<close>

theorem stop_reply_parsed:
  assumes "list_all field_ok kvs"
  shows "parse_stop_reply (CHR ''T'' # fmt_02x b @ concat (map field_text kvs)) =
    \<lparr>ws_kind = WSignal, ws_code = int (unat b), ws_info = kvs, ws_output = []\<rparr>"
  by (rule parse_stop_reply_T [OF assms])

theorem stop_reply_parsed_witness:
  "parse_stop_reply ''T05swbreak:;thread:1;'' =
    \<lparr>ws_kind = WSignal, ws_code = 5, ws_info = [(''swbreak'', ''''), (''thread'', ''1'')], ws_output = []\<rparr>"
  using stop_reply_parsed [of "[(''swbreak'', ''''), (''thread'', ''1'')]" 5]
  by (simp add: field_ok_def field_text_def fmt_02x_def hex_digit_def)

end
