(* ===== verification/Transport.thy ===== *)
theory Transport
  imports Packets
begin

text \<open>
  host/src/tcp.cpp and transport/src/gdb_client.cpp: the blocking TCP client and
  the gdb remote client on top of it.

  Winsock is not part of the repository.  It is the parameter \<open>winsock\<close>: one
  function per call the sources make, acting on a state \<open>'w\<close> of the outside
  world.  A failing call returns -1 (\<open>INVALID_SOCKET\<close>, \<open>SOCKET_ERROR\<close>), as
  documented; \<open>wsk_recv\<close> also returns what it stored in the buffer.  The process-wide
  \<open>WSAStartup\<close> of \<open>ensure_wsa\<close> has no counterpart.

  \<open>std::byte\<close> buffers that carry text are strings here, since the sources only
  reinterpret them.
\<close>

record 'w winsock =
  wsk_socket :: "'w \<Rightarrow> int \<times> 'w"
  wsk_inet_pton :: "string \<Rightarrow> u32 option"
  wsk_connect :: "int \<Rightarrow> u32 \<Rightarrow> u16 \<Rightarrow> 'w \<Rightarrow> int \<times> 'w"
  wsk_set_rcvtimeo :: "int \<Rightarrow> int \<Rightarrow> 'w \<Rightarrow> 'w"
  wsk_send :: "int \<Rightarrow> string \<Rightarrow> 'w \<Rightarrow> int \<times> 'w"
  wsk_recv :: "int \<Rightarrow> nat \<Rightarrow> 'w \<Rightarrow> (int \<times> string) \<times> 'w"
  wsk_closesocket :: "int \<Rightarrow> 'w \<Rightarrow> 'w"

section \<open>TcpClient\<close>

record 'w tcp_client =
  tcp_sock :: int
  tcp_net :: 'w

definition tcp_connect ::
    "'w winsock \<Rightarrow> string \<Rightarrow> u16 \<Rightarrow> 'w tcp_client \<Rightarrow> unit result \<times> 'w tcp_client" where
  "tcp_connect ws host port t =
     (let (s, w1) = wsk_socket ws (tcp_net t) in
      if s = -1 then (Err ''socket() failed'', t\<lparr>tcp_net := w1\<rparr>)
      else
        case wsk_inet_pton ws host of
          None \<Rightarrow> (Err (''invalid host address: '' @ host), t\<lparr>tcp_net := wsk_closesocket ws s w1\<rparr>)
        | Some addr \<Rightarrow>
            let (r, w2) = wsk_connect ws s addr port w1 in
            if r \<noteq> 0 then (Err ''connect() failed'', t\<lparr>tcp_net := wsk_closesocket ws s w2\<rparr>)
            else (Ok (), t\<lparr>tcp_sock := s, tcp_net := w2\<rparr>))"

definition tcp_send ::
    "'w winsock \<Rightarrow> string \<Rightarrow> 'w tcp_client \<Rightarrow> nat result \<times> 'w tcp_client" where
  "tcp_send ws data t =
     (if tcp_sock t < 0 then (Err ''send: not connected'', t)
      else
        let (n, w1) = wsk_send ws (tcp_sock t) data (tcp_net t); t1 = t\<lparr>tcp_net := w1\<rparr> in
        if n = -1 then (Err ''send() failed'', t1) else (Ok (nat n), t1))"

text \<open>The received bytes stand for the filled part of the caller's buffer.\<close>

definition tcp_recv ::
    "'w winsock \<Rightarrow> nat \<Rightarrow> int \<Rightarrow> 'w tcp_client \<Rightarrow> string result \<times> 'w tcp_client" where
  "tcp_recv ws buf_size timeout_ms t =
     (if tcp_sock t < 0 then (Err ''recv: not connected'', t)
      else
        let w1 = wsk_set_rcvtimeo ws (tcp_sock t) timeout_ms (tcp_net t);
            ((n, buf), w2) = wsk_recv ws (tcp_sock t) buf_size w1;
            t2 = t\<lparr>tcp_net := w2\<rparr>
        in if n = -1 then (Err ''recv() failed or timed out'', t2)
           else if n = 0 then (Err ''recv: connection closed'', t2)
           else (Ok (take (nat n) buf), t2))"

definition tcp_close :: "'w winsock \<Rightarrow> 'w tcp_client \<Rightarrow> 'w tcp_client" where
  "tcp_close ws t =
     (if tcp_sock t \<ge> 0 then
        t\<lparr>tcp_net := wsk_closesocket ws (tcp_sock t) (tcp_net t), tcp_sock := -1\<rparr>
      else t)"

section \<open>GdbClient\<close>

record 'w gdb_client =
  gc_sock :: "'w tcp_client"
  gc_decoder :: frame_decoder

definition kTimeoutMs :: int where
  "kTimeoutMs = 3000"

text \<open>The reply loop; the number counts the attempts that are left of the 64.\<close>

fun transact_loop ::
    "'w winsock \<Rightarrow> nat \<Rightarrow> 'w gdb_client \<Rightarrow> string result \<times> 'w gdb_client" where
  "transact_loop ws 0 c = (Err ''transact: no reply within attempt budget'', c)"
| "transact_loop ws (Suc left) c =
     (case next_payload (gc_decoder c) of
        (Some p, d) \<Rightarrow> (Ok p, c\<lparr>gc_decoder := d\<rparr>)
      | (None, d) \<Rightarrow>
          (case tcp_recv ws 512 kTimeoutMs (gc_sock c) of
             (Err e, t) \<Rightarrow> (Err e, c\<lparr>gc_decoder := d, gc_sock := t\<rparr>)
           | (Ok chunk, t) \<Rightarrow>
               transact_loop ws left (c\<lparr>gc_decoder := feed d chunk, gc_sock := t\<rparr>)))"

definition transact :: "'w winsock \<Rightarrow> string \<Rightarrow> 'w gdb_client \<Rightarrow> string result \<times> 'w gdb_client" where
  "transact ws payload c =
     (case tcp_send ws (frame payload) (gc_sock c) of
        (Err e, t) \<Rightarrow> (Err e, c\<lparr>gc_sock := t\<rparr>)
      | (Ok _, t) \<Rightarrow> transact_loop ws 64 (c\<lparr>gc_sock := t\<rparr>))"

definition gdb_connect ::
    "'w winsock \<Rightarrow> string \<Rightarrow> u16 \<Rightarrow> 'w gdb_client \<Rightarrow> unit result \<times> 'w gdb_client" where
  "gdb_connect ws host port c =
     (case tcp_connect ws host port (gc_sock c) of
        (Err e, t) \<Rightarrow> (Err e, c\<lparr>gc_sock := t\<rparr>)
      | (Ok _, t) \<Rightarrow> (Ok (), snd (transact ws req_qsupported (c\<lparr>gc_sock := t\<rparr>))))"

definition gdb_read_registers :: "'w winsock \<Rightarrow> 'w gdb_client \<Rightarrow> bytes result \<times> 'w gdb_client" where
  "gdb_read_registers ws c =
     (let (t, c') = transact ws req_read_registers c in
      (case t of Err e \<Rightarrow> Err e
       | Ok payload \<Rightarrow> (case hex_decode payload of Err e \<Rightarrow> Err e | Ok d \<Rightarrow> Ok d), c'))"

definition memory_reply :: "string \<Rightarrow> bytes result" where
  "memory_reply payload =
     (case reply_error_code payload of
        Some e \<Rightarrow> Err (''read_memory: target error E'' @ to_string e)
      | None \<Rightarrow> (case hex_decode payload of Err e \<Rightarrow> Err e | Ok d \<Rightarrow> Ok d))"

definition gdb_read_memory ::
    "'w winsock \<Rightarrow> u64 \<Rightarrow> u64 \<Rightarrow> 'w gdb_client \<Rightarrow> bytes result \<times> 'w gdb_client" where
  "gdb_read_memory ws addr len c =
     (let (t, c') = transact ws (req_read_memory addr len) c in
      (case t of Err e \<Rightarrow> Err e | Ok payload \<Rightarrow> memory_reply payload, c'))"

definition gdb_write_memory ::
    "'w winsock \<Rightarrow> u64 \<Rightarrow> bytes \<Rightarrow> 'w gdb_client \<Rightarrow> unit result \<times> 'w gdb_client" where
  "gdb_write_memory ws addr data c =
     (let (t, c') = transact ws (req_write_memory addr data) c in
      (case t of Err e \<Rightarrow> Err e
       | Ok payload \<Rightarrow>
           if \<not> reply_is_ok payload then Err (''write_memory: not OK ('' @ payload @ '')'')
           else Ok (), c'))"

definition expect_ok :: "string result \<Rightarrow> string \<Rightarrow> unit result" where
  "expect_ok t what =
     (case t of Err e \<Rightarrow> Err e
      | Ok payload \<Rightarrow>
          if \<not> reply_is_ok payload then Err (what @ '': not OK ('' @ payload @ '')'') else Ok ())"

definition gdb_set_breakpoint ::
    "'w winsock \<Rightarrow> int \<Rightarrow> u64 \<Rightarrow> int \<Rightarrow> 'w gdb_client \<Rightarrow> unit result \<times> 'w gdb_client" where
  "gdb_set_breakpoint ws type addr kind c =
     (let (t, c') = transact ws (req_set_breakpoint type addr kind) c in
      (expect_ok t ''set_breakpoint'', c'))"

definition gdb_remove_breakpoint ::
    "'w winsock \<Rightarrow> int \<Rightarrow> u64 \<Rightarrow> int \<Rightarrow> 'w gdb_client \<Rightarrow> unit result \<times> 'w gdb_client" where
  "gdb_remove_breakpoint ws type addr kind c =
     (let (t, c') = transact ws (req_remove_breakpoint type addr kind) c in
      (expect_ok t ''remove_breakpoint'', c'))"

definition as_stop :: "string result \<Rightarrow> wire_stop result" where
  "as_stop t = (case t of Err e \<Rightarrow> Err e | Ok payload \<Rightarrow> Ok (parse_stop_reply payload))"

definition gdb_cont :: "'w winsock \<Rightarrow> 'w gdb_client \<Rightarrow> wire_stop result \<times> 'w gdb_client" where
  "gdb_cont ws c = (let (t, c') = transact ws req_continue c in (as_stop t, c'))"

definition gdb_step :: "'w winsock \<Rightarrow> 'w gdb_client \<Rightarrow> wire_stop result \<times> 'w gdb_client" where
  "gdb_step ws c = (let (t, c') = transact ws req_step c in (as_stop t, c'))"

definition gdb_halt_reason :: "'w winsock \<Rightarrow> 'w gdb_client \<Rightarrow> wire_stop result \<times> 'w gdb_client" where
  "gdb_halt_reason ws c = (let (t, c') = transact ws req_halt_reason c in (as_stop t, c'))"

definition gdb_disconnect :: "'w winsock \<Rightarrow> 'w gdb_client \<Rightarrow> 'w gdb_client" where
  "gdb_disconnect ws c = c\<lparr>gc_sock := tcp_close ws (gc_sock c)\<rparr>"

section \<open>The connection\<close>

lemma tcp_closed_fails:
  "tcp_sock t < 0 \<Longrightarrow> tcp_send ws data t = (Err ''send: not connected'', t)"
  "tcp_sock t < 0 \<Longrightarrow> tcp_recv ws n ms t = (Err ''recv: not connected'', t)"
  by (simp_all add: tcp_send_def tcp_recv_def)

lemma tcp_close_idem: "tcp_close ws (tcp_close ws t) = tcp_close ws t"
  by (simp add: tcp_close_def)

lemma transact_closed:
  "tcp_sock (gc_sock c) < 0 \<Longrightarrow> transact ws payload c = (Err ''send: not connected'', c)"
  by (simp add: transact_def tcp_closed_fails)

section \<open>A request and its reply\<close>

text \<open>The socket hands over these pieces, one per receive, ending in the second state.\<close>

inductive delivers :: "'w winsock \<Rightarrow> 'w tcp_client \<Rightarrow> string list \<Rightarrow> bool" for ws where
  nothing: "delivers ws t []"
| more: "tcp_recv ws 512 kTimeoutMs t = (Ok c, t') \<Longrightarrow> delivers ws t' cs \<Longrightarrow> delivers ws t (c # cs)"

inductive_cases delivers_ConsE: "delivers ws t (c # cs)"

text \<open>
  The loop finds the reply as soon as the pieces contain it, whatever their sizes; it
  needs one attempt more than there are pieces.
\<close>

lemma transact_loop_reply:
  assumes "delivers ws (gc_sock c) chunks" "length chunks < n"
    and "fd_buf (gc_decoder c) @ concat chunks = (a @ frame reply) @ rest"
    and "CHR ''$'' \<notin> set a" "CHR ''#'' \<notin> set reply"
  shows "fst (transact_loop ws n c) = Ok reply"
  using assms
proof (induction n arbitrary: c chunks a)
  case (Suc n)
  have dec: "gc_decoder c = \<lparr>fd_buf = fd_buf (gc_decoder c)\<rparr>" by simp
  from Suc.prems(3-5) show ?case
  proof (cases rule: next_payload_step)
    case (complete b2)
    have "next_payload (gc_decoder c) = (Some reply, \<lparr>fd_buf = b2\<rparr>)"
      by (subst dec) (rule complete(1))
    then show ?thesis by simp
  next
    case (waiting a' b')
    then obtain ch chs where chunks: "chunks = ch # chs" by (cases chunks) auto
    with Suc.prems(1) obtain t where t: "tcp_recv ws 512 kTimeoutMs (gc_sock c) = (Ok ch, t)"
      "delivers ws t chs"
      by (auto elim: delivers_ConsE)
    let ?c = "c\<lparr>gc_decoder := feed \<lparr>fd_buf = b'\<rparr> ch, gc_sock := t\<rparr>"
    have "next_payload (gc_decoder c) = (None, \<lparr>fd_buf = b'\<rparr>)"
      by (subst dec) (rule waiting(1))
    then have "transact_loop ws (Suc n) c = transact_loop ws n ?c"
      using t(1) by simp
    moreover have "fst (transact_loop ws n ?c) = Ok reply"
      using Suc.prems(2,5) chunks t(2) waiting(2,3)
      by (intro Suc.IH [of ?c chs a']) (simp_all add: feed_def)
    ultimately show ?thesis by simp
  qed
qed simp

lemma transact_reply:
  assumes "tcp_send ws (frame payload) (gc_sock c) = (Ok n, t)"
    and "delivers ws t chunks" "length chunks < 64"
    and "fd_buf (gc_decoder c) @ concat chunks = (a @ frame reply) @ rest"
    and "CHR ''$'' \<notin> set a" "CHR ''#'' \<notin> set reply"
  shows "fst (transact ws payload c) = Ok reply"
  using transact_loop_reply [of ws "c\<lparr>gc_sock := t\<rparr>" chunks 64 a reply rest] assms
  by (simp add: transact_def)

section \<open>What a reply means\<close>

lemma hex_encode_not_error: "reply_error_code (hex_encode bs) = None"
proof -
  have "hex_digit n \<noteq> CHR ''E''" if "n < 16" for n
    using that unfolding less_16_cases by (elim insertE emptyE; simp add: hex_digit_def)
  then have "hex_encode bs \<noteq> [] \<longrightarrow> hex_encode bs ! 0 \<noteq> CHR ''E''"
    by (cases bs) (simp_all add: nibble_less)
  then show ?thesis
    by (cases "hex_encode bs = []") (simp_all add: reply_error_code_def)
qed

lemma memory_reply_hex: "memory_reply (hex_encode bs) = Ok bs"
  by (simp add: memory_reply_def hex_encode_not_error hex_decode_encode)

lemma reply_error_code_E: "reply_error_code (CHR ''E'' # fmt_02x b) = Some (int (unat b))"
  using parse_hex_byte_digits [of b "[]"] by (simp add: reply_error_code_def)

lemma memory_reply_error:
  "memory_reply (CHR ''E'' # fmt_02x b) = Err (''read_memory: target error E'' @ to_string (int (unat b)))"
  unfolding memory_reply_def reply_error_code_E by simp

section \<open>Properties\<close>

text \<open>
  A socket that accepts everything and hands out the strings of a script, one per
  receive: the network of the concrete instances below.
\<close>

definition scripted_winsock :: "string list winsock" where
  "scripted_winsock =
     \<lparr>wsk_socket = (\<lambda>w. (3, w)),
      wsk_inet_pton = (\<lambda>h. Some 0),
      wsk_connect = (\<lambda>s a p w. (0, w)),
      wsk_set_rcvtimeo = (\<lambda>s ms w. w),
      wsk_send = (\<lambda>s d w. (int (length d), w)),
      wsk_recv = (\<lambda>s n w. case w of [] \<Rightarrow> ((-1, []), []) | c # cs \<Rightarrow> ((int (length c), c), cs)),
      wsk_closesocket = (\<lambda>s w. w)\<rparr>"

lemma scripted_delivers:
  "list_all (\<lambda>c. c \<noteq> []) cs \<Longrightarrow> 0 \<le> s \<Longrightarrow> delivers scripted_winsock \<lparr>tcp_sock = s, tcp_net = cs @ ds\<rparr> cs"
proof (induction cs)
  case (Cons c cs)
  then have "tcp_recv scripted_winsock 512 kTimeoutMs \<lparr>tcp_sock = s, tcp_net = (c # cs) @ ds\<rparr> =
      (Ok c, \<lparr>tcp_sock = s, tcp_net = cs @ ds\<rparr>)"
    by (simp add: tcp_recv_def scripted_winsock_def Let_def)
  with Cons show ?case by (auto intro: delivers.more)
qed (rule delivers.nothing)

lemma scripted_send:
  "0 \<le> tcp_sock t \<Longrightarrow> tcp_send scripted_winsock d t = (Ok (length d), t)"
  by (simp add: tcp_send_def scripted_winsock_def Let_def)

lemma fmt_02x_wire [wire_simps]: "c \<in> wire_special \<Longrightarrow> c \<notin> set (fmt_02x b)"
proof -
  have lt: "unat b div 16 < 16" "unat b mod 16 < 16"
    using unsigned_less [of b, where ?'a = nat] by simp_all
  assume "c \<in> wire_special"
  then show ?thesis
    using hex_digit_wire [OF lt(1)] hex_digit_wire [OF lt(2)]
    unfolding fmt_02x_def list.set(2) list.set(1) by blast
qed

text \<open>C3: A memory read over the wire returns the target's bytes: when the reply to the request arrives
  in at most 63 pieces, behind noise and in front of anything, a hexadecimal reply is the
  bytes it encodes and an \<open>Exx\<close> reply is the error with that number.\<close>

theorem read_memory_over_the_wire:
  assumes "tcp_send ws (frame (req_read_memory addr len)) (gc_sock c) = (Ok n, t)"
    and "delivers ws t chunks" "length chunks < 64"
    and "fd_buf (gc_decoder c) @ concat chunks = (a @ frame reply) @ rest"
    and "CHR ''$'' \<notin> set a"
  shows "(reply = hex_encode bs \<longrightarrow> fst (gdb_read_memory ws addr len c) = Ok bs) \<and>
    (reply = CHR ''E'' # fmt_02x e \<longrightarrow>
      fst (gdb_read_memory ws addr len c) = Err (''read_memory: target error E'' @ to_string (int (unat e))))"
proof -
  have r: "fst (gdb_read_memory ws addr len c) = memory_reply reply" if "CHR ''#'' \<notin> set reply"
    using transact_reply [OF assms that]
    by (cases "transact ws (req_read_memory addr len) c") (simp add: gdb_read_memory_def)
  have "CHR ''#'' \<notin> set (hex_encode bs)" "CHR ''#'' \<notin> set (CHR ''E'' # fmt_02x e)"
    using hex_encode_wire [of "CHR ''#''" bs] fmt_02x_wire [of "CHR ''#''" e] by simp_all
  with r show ?thesis by (auto simp: memory_reply_hex memory_reply_error)
qed

theorem read_memory_over_the_wire_witness:
  "fst (gdb_read_memory scripted_winsock 0x400000 2
      \<lparr>gc_sock = \<lparr>tcp_sock = 3, tcp_net = [''+'', ''$90'', ''c3#ff'']\<rparr>, gc_decoder = \<lparr>fd_buf = []\<rparr>\<rparr>) =
    Ok [0x90, 0xc3]"
proof -
  let ?c = "\<lparr>gc_sock = \<lparr>tcp_sock = 3, tcp_net = [''+'', ''$90'', ''c3#ff'']\<rparr>, gc_decoder = \<lparr>fd_buf = []\<rparr>\<rparr>"
  have fr: "frame ''90c3'' = ''$90c3#ff''" "hex_encode [0x90, 0xc3] = ''90c3''" by code_simp+
  have d: "delivers scripted_winsock (gc_sock ?c) [''+'', ''$90'', ''c3#ff'']"
    using scripted_delivers [of "[''+'', ''$90'', ''c3#ff'']" 3 "[]"] by simp
  have s: "tcp_send scripted_winsock (frame (req_read_memory 0x400000 2)) (gc_sock ?c) =
      (Ok (length (frame (req_read_memory 0x400000 2))), gc_sock ?c)"
    by (rule scripted_send) simp
  show ?thesis
    using read_memory_over_the_wire [OF s d, of "''+''" "''90c3''" "[]" "[0x90, 0xc3]" 0] fr by simp
qed

end
