(* ===== verification/Gdb_Backend.thy ===== *)
theory Gdb_Backend
  imports Backend_Types Transport
begin

text \<open>
  backend/src/gdb_backend.cpp: the backend over the gdb remote client.  Its state
  is the client's; \<open>gdb_backend_ops\<close> is the class as a value of the backend
  interface.  The lemmas relate the replies on the wire to what the layers above
  see: the stop translation by cases, and the results of \<open>cont\<close>, \<open>read_memory\<close>
  and \<open>set_breakpoint\<close> from the delivered text.
\<close>

unbundle bit_operations_syntax

definition kQwordRegs :: "(string \<times> u16) list" where
  "kQwordRegs =
     [(''rax'', 8), (''rbx'', 8), (''rcx'', 8), (''rdx'', 8), (''rsi'', 8), (''rdi'', 8),
      (''rbp'', 8), (''rsp'', 8), (''r8'', 8), (''r9'', 8), (''r10'', 8), (''r11'', 8),
      (''r12'', 8), (''r13'', 8), (''r14'', 8), (''r15'', 8), (''rip'', 8)]"

fun push_qwords :: "(string \<times> u16) list \<Rightarrow> u32 \<Rightarrow> register_field list \<Rightarrow> register_field list \<times> u32" where
  "push_qwords [] off acc = (acc, off)"
| "push_qwords ((n, s) # rs) off acc =
     push_qwords rs (off + ucast s) (acc @ [\<lparr>rf_name = n, rf_offset = off, rf_size = s\<rparr>])"

definition make_x86_64_gdb_profile :: register_profile where
  "make_x86_64_gdb_profile =
     (let (fs, off) = push_qwords kQwordRegs 0 [] in
      \<lparr>rp_fields = fs @ [\<lparr>rf_name = ''eflags'', rf_offset = off, rf_size = 4\<rparr>],
       rp_block_size = off + 4\<rparr>)"

fun to_gdb_type :: "bp_kind \<Rightarrow> int" where
  "to_gdb_type SoftwareExec = 0"
| "to_gdb_type HardwareExec = 1"
| "to_gdb_type WriteWatch = 2"
| "to_gdb_type ReadWatch = 3"
| "to_gdb_type AccessWatch = 4"

fun scan_info :: "(string \<times> string) list \<Rightarrow> stop_kind" where
  "scan_info [] = Signal"
| "scan_info ((key, val) # rest) =
     (if key = ''swbreak'' \<or> key = ''hwbreak'' then Breakpoint else scan_info rest)"

definition translate_stop :: "wire_stop \<Rightarrow> stop_reply" where
  "translate_stop wire =
     (let out = stop_reply_init\<lparr>sr_signal := ws_code wire, sr_detail := ws_output wire\<rparr> in
      case ws_kind wire of
        WSignal \<Rightarrow> out\<lparr>sr_kind := scan_info (ws_info wire)\<rparr>
      | WExited \<Rightarrow> out\<lparr>sr_kind := Exited\<rparr>
      | WTerminated \<Rightarrow> out\<lparr>sr_kind := Error\<rparr>
      | WOutput \<Rightarrow> out\<lparr>sr_kind := Unknown\<rparr>
      | WUnknown \<Rightarrow> out\<lparr>sr_kind := Unknown\<rparr>)"

definition gdbb_attach ::
    "'w winsock \<Rightarrow> attach_spec \<Rightarrow> 'w gdb_client \<Rightarrow> unit result \<times> 'w gdb_client" where
  "gdbb_attach ws spec c =
     (case gdb_connect ws (as_host spec) (as_port spec) c of
        (Err e, c1) \<Rightarrow> (Err e, c1)
      | (Ok _, c1) \<Rightarrow>
          (case gdb_halt_reason ws c1 of
             (Err e, c2) \<Rightarrow> (Err e, c2)
           | (Ok _, c2) \<Rightarrow> (Ok (), c2)))"

definition gdbb_detach :: "'w winsock \<Rightarrow> 'w gdb_client \<Rightarrow> unit result \<times> 'w gdb_client" where
  "gdbb_detach ws c = (Ok (), gdb_disconnect ws c)"

definition stop_result :: "wire_stop result \<Rightarrow> stop_reply result" where
  "stop_result w = (case w of Err e \<Rightarrow> Err e | Ok v \<Rightarrow> Ok (translate_stop v))"

definition gdbb_cont :: "'w winsock \<Rightarrow> 'w gdb_client \<Rightarrow> stop_reply result \<times> 'w gdb_client" where
  "gdbb_cont ws c = (let (w, c1) = gdb_cont ws c in (stop_result w, c1))"

definition gdbb_step :: "'w winsock \<Rightarrow> 'w gdb_client \<Rightarrow> stop_reply result \<times> 'w gdb_client" where
  "gdbb_step ws c = (let (w, c1) = gdb_step ws c in (stop_result w, c1))"

definition gdbb_request_stop :: "'w gdb_client \<Rightarrow> unit result \<times> 'w gdb_client" where
  "gdbb_request_stop c = (Ok (), c)"

definition gdbb_write_registers :: "bytes \<Rightarrow> 'w gdb_client \<Rightarrow> unit result \<times> 'w gdb_client" where
  "gdbb_write_registers bs c = (Err ''GdbBackend: write_registers not supported by GdbClient'', c)"

definition gdbb_maps :: "'w gdb_client \<Rightarrow> mem_map list result \<times> 'w gdb_client" where
  "gdbb_maps c = (Ok [], c)"

definition gdbb_modules :: "'w gdb_client \<Rightarrow> module_info list result \<times> 'w gdb_client" where
  "gdbb_modules c = (Ok [], c)"

definition gdbb_threads :: "'w gdb_client \<Rightarrow> thread_info list result \<times> 'w gdb_client" where
  "gdbb_threads c = (Ok [], c)"

definition gdbb_set_breakpoint ::
    "'w winsock \<Rightarrow> bp_kind \<Rightarrow> u64 \<Rightarrow> int \<Rightarrow> 'w gdb_client \<Rightarrow> unit result \<times> 'w gdb_client" where
  "gdbb_set_breakpoint ws kind addr sz c = gdb_set_breakpoint ws (to_gdb_type kind) addr sz c"

definition gdbb_remove_breakpoint ::
    "'w winsock \<Rightarrow> bp_kind \<Rightarrow> u64 \<Rightarrow> int \<Rightarrow> 'w gdb_client \<Rightarrow> unit result \<times> 'w gdb_client" where
  "gdbb_remove_breakpoint ws kind addr sz c = gdb_remove_breakpoint ws (to_gdb_type kind) addr sz c"

definition gdbb_caps :: backend_caps where
  "gdbb_caps = \<lparr>can_step = True, has_hw_bp = True, clean_dr = True, thread_aware = False,
                modules_native = False\<rparr>"

definition gdb_backend_ops :: "'w winsock \<Rightarrow> 'w gdb_client backend_ops" where
  "gdb_backend_ops ws =
     \<lparr>be_attach = gdbb_attach ws,
      be_detach = gdbb_detach ws,
      be_cont = gdbb_cont ws,
      be_step = gdbb_step ws,
      be_request_stop = gdbb_request_stop,
      be_read_registers = gdb_read_registers ws,
      be_write_registers = gdbb_write_registers,
      be_register_profile = (\<lambda>c. make_x86_64_gdb_profile),
      be_read_memory = gdb_read_memory ws,
      be_write_memory = gdb_write_memory ws,
      be_maps = gdbb_maps,
      be_modules = gdbb_modules,
      be_threads = gdbb_threads,
      be_set_breakpoint = gdbb_set_breakpoint ws,
      be_remove_breakpoint = gdbb_remove_breakpoint ws,
      be_caps = (\<lambda>c. gdbb_caps)\<rparr>"

section \<open>Stops\<close>

lemma scan_info_Breakpoint:
  "scan_info info = Breakpoint \<longleftrightarrow> (\<exists>v. (''swbreak'', v) \<in> set info \<or> (''hwbreak'', v) \<in> set info)"
  by (induction info rule: scan_info.induct) auto

lemma scan_info_range: "scan_info info = Breakpoint \<or> scan_info info = Signal"
  by (induction info rule: scan_info.induct) auto

lemma translate_stop_kind:
  "sr_kind (translate_stop w) =
     (case ws_kind w of WSignal \<Rightarrow> scan_info (ws_info w) | WExited \<Rightarrow> Exited
      | WTerminated \<Rightarrow> Error | WOutput \<Rightarrow> Unknown | WUnknown \<Rightarrow> Unknown)"
  by (simp add: translate_stop_def Let_def split: wire_stop_kind.split)

lemma translate_stop_fields:
  "sr_signal (translate_stop w) = ws_code w" "sr_detail (translate_stop w) = ws_output w"
  "sr_pc (translate_stop w) = 0"
  by (simp_all add: translate_stop_def stop_reply_init_def Let_def split: wire_stop_kind.split)

section \<open>The layout of the register block\<close>

lemma make_x86_64_gdb_profile_eq:
  "make_x86_64_gdb_profile =
     \<lparr>rp_fields = map (\<lambda>i. \<lparr>rf_name = fst (kQwordRegs ! i), rf_offset = word_of_nat (8 * i), rf_size = 8\<rparr>)
                     [0..<17] @ [\<lparr>rf_name = ''eflags'', rf_offset = 136, rf_size = 4\<rparr>],
      rp_block_size = 140\<rparr>"
  by (simp add: make_x86_64_gdb_profile_def kQwordRegs_def upt_rec)

section \<open>Requests and their outcomes\<close>

lemma gdbb_cont_reply:
  assumes "tcp_send ws (frame req_continue) (gc_sock c) = (Ok n, t)"
    and "delivers ws t chunks" "length chunks < 64"
    and "fd_buf (gc_decoder c) @ concat chunks = (a @ frame reply) @ rest"
    and "CHR ''$'' \<notin> set a" "CHR ''#'' \<notin> set reply"
  shows "fst (gdbb_cont ws c) = Ok (translate_stop (parse_stop_reply reply))"
  using transact_reply [OF assms]
  by (cases "transact ws req_continue c") (simp add: gdbb_cont_def gdb_cont_def as_stop_def stop_result_def)

lemma to_gdb_type_inject: "to_gdb_type k = to_gdb_type k' \<longleftrightarrow> k = k'"
  by (cases k; cases k') simp_all

lemma gdbb_attach_Ok:
  assumes "fst (gdbb_attach ws spec c) = Ok ()"
  obtains c1 where "gdb_connect ws (as_host spec) (as_port spec) c = (Ok (), c1)"
    "\<exists>s. fst (gdb_halt_reason ws c1) = Ok s"
  using assms by (auto simp: gdbb_attach_def split: prod.splits result.splits)

section \<open>Properties\<close>

text \<open>C4: Continuing a remote target reports the stop the stub announced: a \<open>T\<close> reply, in at most 63
  pieces, gives its signal number, and the stop is a breakpoint stop just when a \<open>swbreak\<close> or
  \<open>hwbreak\<close> field is among its fields; the program counter is not reported.\<close>

theorem gdb_cont_reports_stop:
  assumes "tcp_send ws (frame req_continue) (gc_sock c) = (Ok n, t)"
    and "delivers ws t chunks" "length chunks < 64"
    and "fd_buf (gc_decoder c) @ concat chunks =
      (a @ frame (CHR ''T'' # fmt_02x sig @ concat (map field_text kvs))) @ rest"
    and "CHR ''$'' \<notin> set a" "list_all field_ok kvs" "CHR ''#'' \<notin> set (concat (map field_text kvs))"
  shows "\<exists>s. fst (gdbb_cont ws c) = Ok s \<and> sr_signal s = int (unat sig) \<and> sr_pc s = 0 \<and>
    sr_kind s = (if \<exists>v. (''swbreak'', v) \<in> set kvs \<or> (''hwbreak'', v) \<in> set kvs then Breakpoint else Signal)"
proof -
  let ?r = "CHR ''T'' # fmt_02x sig @ concat (map field_text kvs)"
  have "CHR ''#'' \<notin> set ?r"
    using assms(7) fmt_02x_wire [of "CHR ''#''" sig] by simp
  from gdbb_cont_reply [OF assms(1-5) this]
  have "fst (gdbb_cont ws c) = Ok (translate_stop (parse_stop_reply ?r))" .
  then show ?thesis
    unfolding parse_stop_reply_T [OF assms(6)] using scan_info_Breakpoint [of kvs] scan_info_range [of kvs]
    by (auto simp: translate_stop_kind translate_stop_fields)
qed

theorem gdb_cont_reports_stop_witness:
  "\<exists>s. fst (gdbb_cont scripted_winsock
      \<lparr>gc_sock = \<lparr>tcp_sock = 3, tcp_net = [''+$T05swb'', ''reak:;#1d'']\<rparr>, gc_decoder = \<lparr>fd_buf = []\<rparr>\<rparr>) = Ok s \<and>
    sr_signal s = 5 \<and> sr_pc s = 0 \<and> sr_kind s = Breakpoint"
proof -
  let ?c = "\<lparr>gc_sock = \<lparr>tcp_sock = 3, tcp_net = [''+$T05swb'', ''reak:;#1d'']\<rparr>, gc_decoder = \<lparr>fd_buf = []\<rparr>\<rparr>"
  let ?kvs = "[(''swbreak'', '''')]"
  have fr: "''+$T05swbreak:;#1d'' = (''+'' @ frame (CHR ''T'' # fmt_02x 5 @ concat (map field_text ?kvs))) @ []"
    by code_simp
  have d: "delivers scripted_winsock (gc_sock ?c) [''+$T05swb'', ''reak:;#1d'']"
    using scripted_delivers [of "[''+$T05swb'', ''reak:;#1d'']" 3 "[]"] by simp
  have s: "tcp_send scripted_winsock (frame req_continue) (gc_sock ?c) =
      (Ok (length (frame req_continue)), gc_sock ?c)"
    by (rule scripted_send) simp
  have ok: "list_all field_ok ?kvs" "CHR ''#'' \<notin> set (concat (map field_text ?kvs))"
    by (simp_all add: field_ok_def field_text_def)
  show ?thesis
    using gdb_cont_reports_stop [OF s d _ _ _ ok, of "''+''" 5 "[]"] fr by simp
qed

end
