(* ===== verification/Native_Debuggee.thy ===== *)
theory Native_Debuggee
  imports Backend_Types
begin

text \<open>
  host/src/native_debuggee.cpp: the process under the Win32 debug interface.

  Win32 is not part of the repository: it is the parameter \<open>win32\<close>, one function per
  call, acting on a state \<open>'w\<close> of the machine.  A handle is a number and 0 is the null
  handle; a call that fills a structure returns it.  The tagged union of a debug event is
  the datatype \<open>event_info\<close>; a thread snapshot is the list its First and Next calls
  walk.  The lemmas show the register block round trip, the debug register arithmetic,
  and the pending-event protocol.
\<close>

unbundle bit_operations_syntax

section \<open>The Win32 vocabulary\<close>

record thread_context =
  ctx_flags :: u32
  c_rax :: u64
  c_rbx :: u64
  c_rcx :: u64
  c_rdx :: u64
  c_rsi :: u64
  c_rdi :: u64
  c_rbp :: u64
  c_rsp :: u64
  c_r8 :: u64
  c_r9 :: u64
  c_r10 :: u64
  c_r11 :: u64
  c_r12 :: u64
  c_r13 :: u64
  c_r14 :: u64
  c_r15 :: u64
  c_rip :: u64
  c_eflags :: u32
  c_cs :: u16
  c_ss :: u16
  c_ds :: u16
  c_es :: u16
  c_fs :: u16
  c_gs :: u16
  c_dr0 :: u64
  c_dr1 :: u64
  c_dr2 :: u64
  c_dr3 :: u64
  c_dr6 :: u64
  c_dr7 :: u64

definition context_zero :: thread_context where
  "context_zero =
     \<lparr>ctx_flags = 0, c_rax = 0, c_rbx = 0, c_rcx = 0, c_rdx = 0, c_rsi = 0, c_rdi = 0, c_rbp = 0,
      c_rsp = 0, c_r8 = 0, c_r9 = 0, c_r10 = 0, c_r11 = 0, c_r12 = 0, c_r13 = 0, c_r14 = 0,
      c_r15 = 0, c_rip = 0, c_eflags = 0, c_cs = 0, c_ss = 0, c_ds = 0, c_es = 0, c_fs = 0,
      c_gs = 0, c_dr0 = 0, c_dr1 = 0, c_dr2 = 0, c_dr3 = 0, c_dr6 = 0, c_dr7 = 0\<rparr>"

datatype event_info =
    ExceptionInfo u32 u64
  | ExitProcessInfo u32
  | LoadDllInfo u64
  | OtherInfo

record debug_event =
  de_pid :: u32
  de_tid :: u32
  de_info :: event_info

definition debug_event_zero :: debug_event where
  "debug_event_zero = \<lparr>de_pid = 0, de_tid = 0, de_info = OtherInfo\<rparr>"

record mem_basic_info =
  mbi_base :: u64
  mbi_region_size :: u64
  mbi_state :: u32
  mbi_protect :: u32

record 'w win32 =
  w_GetLastError :: "'w \<Rightarrow> u32"
  w_DebugActiveProcess :: "u32 \<Rightarrow> 'w \<Rightarrow> bool \<times> 'w"
  w_DebugSetProcessKillOnExit :: "bool \<Rightarrow> 'w \<Rightarrow> 'w"
  w_OpenProcess :: "u32 \<Rightarrow> u32 \<Rightarrow> 'w \<Rightarrow> u64 \<times> 'w"
  w_DebugActiveProcessStop :: "u32 \<Rightarrow> 'w \<Rightarrow> bool \<times> 'w"
  w_WaitForDebugEvent :: "u32 \<Rightarrow> 'w \<Rightarrow> debug_event option \<times> 'w"
  w_ContinueDebugEvent :: "u32 \<Rightarrow> u32 \<Rightarrow> u32 \<Rightarrow> 'w \<Rightarrow> bool \<times> 'w"
  w_OpenThread :: "u32 \<Rightarrow> u32 \<Rightarrow> 'w \<Rightarrow> u64 \<times> 'w"
  w_CloseHandle :: "u64 \<Rightarrow> 'w \<Rightarrow> 'w"
  w_GetThreadContext :: "u64 \<Rightarrow> thread_context \<Rightarrow> 'w \<Rightarrow> thread_context option \<times> 'w"
  w_SetThreadContext :: "u64 \<Rightarrow> thread_context \<Rightarrow> 'w \<Rightarrow> bool \<times> 'w"
  w_DebugBreakProcess :: "u64 \<Rightarrow> 'w \<Rightarrow> bool \<times> 'w"
  w_ReadProcessMemory :: "u64 \<Rightarrow> u64 \<Rightarrow> u64 \<Rightarrow> 'w \<Rightarrow> (bytes \<times> u64) option \<times> 'w"
  w_WriteProcessMemory :: "u64 \<Rightarrow> u64 \<Rightarrow> bytes \<Rightarrow> 'w \<Rightarrow> u64 option \<times> 'w"
  w_FlushInstructionCache :: "u64 \<Rightarrow> u64 \<Rightarrow> u64 \<Rightarrow> 'w \<Rightarrow> bool \<times> 'w"
  w_VirtualQueryEx :: "u64 \<Rightarrow> u64 \<Rightarrow> 'w \<Rightarrow> mem_basic_info option \<times> 'w"
  w_EnumProcessModulesEx :: "u64 \<Rightarrow> nat \<Rightarrow> 'w \<Rightarrow> (u64 list \<times> nat) option \<times> 'w"
  w_GetModuleInformation :: "u64 \<Rightarrow> u64 \<Rightarrow> 'w \<Rightarrow> (u64 \<times> u32) option \<times> 'w"
  w_GetModuleFileNameExA :: "u64 \<Rightarrow> u64 \<Rightarrow> 'w \<Rightarrow> string \<times> 'w"
  w_CreateToolhelp32Snapshot :: "'w \<Rightarrow> u64 option \<times> 'w"
  w_SnapshotThreads :: "u64 \<Rightarrow> 'w \<Rightarrow> (u32 \<times> u32) list \<times> 'w"

definition EXCEPTION_BREAKPOINT :: u32 where "EXCEPTION_BREAKPOINT = 0x80000003"
definition EXCEPTION_SINGLE_STEP :: u32 where "EXCEPTION_SINGLE_STEP = 0x80000004"
definition DBG_CONTINUE :: u32 where "DBG_CONTINUE = 0x00010002"
definition DBG_EXCEPTION_NOT_HANDLED :: u32 where "DBG_EXCEPTION_NOT_HANDLED = 0x80010001"
definition THREAD_GET_CONTEXT :: u32 where "THREAD_GET_CONTEXT = 0x8"
definition THREAD_SET_CONTEXT :: u32 where "THREAD_SET_CONTEXT = 0x10"
definition CONTEXT_FULL :: u32 where "CONTEXT_FULL = 0x10000B"
definition CONTEXT_DEBUG_REGISTERS :: u32 where "CONTEXT_DEBUG_REGISTERS = 0x100010"
definition MEM_COMMIT :: u32 where "MEM_COMMIT = 0x1000"

lemmas win32_consts = EXCEPTION_BREAKPOINT_def EXCEPTION_SINGLE_STEP_def DBG_CONTINUE_def
  DBG_EXCEPTION_NOT_HANDLED_def THREAD_GET_CONTEXT_def THREAD_SET_CONTEXT_def CONTEXT_FULL_def
  CONTEXT_DEBUG_REGISTERS_def MEM_COMMIT_def

section \<open>The register block\<close>

definition kNumSlots :: nat where "kNumSlots = 32"
definition kRegBlockSize :: nat where "kRegBlockSize = kNumSlots * 8"
definition kEflagsTrapFlag :: u32 where "kEflagsTrapFlag = 0x100"

definition put_slot :: "bytes \<Rightarrow> nat \<Rightarrow> u64 \<Rightarrow> bytes" where
  "put_slot block i v = take (8 * i) block @ bytes_of_u64 v @ drop (8 * i + 8) block"

definition get_slot :: "bytes \<Rightarrow> nat \<Rightarrow> u64" where
  "get_slot block i = u64_of_bytes (take 8 (drop (8 * i) block))"

text \<open>The values \<open>context_to_block\<close> puts, in the order of its calls.\<close>

definition context_slots :: "thread_context \<Rightarrow> u64 list" where
  "context_slots ctx =
     [c_rax ctx, c_rbx ctx, c_rcx ctx, c_rdx ctx, c_rsi ctx, c_rdi ctx, c_rbp ctx, c_rsp ctx,
      c_r8 ctx, c_r9 ctx, c_r10 ctx, c_r11 ctx, c_r12 ctx, c_r13 ctx, c_r14 ctx, c_r15 ctx,
      c_rip ctx, ucast (c_eflags ctx), ucast (c_cs ctx), ucast (c_ss ctx), ucast (c_ds ctx),
      ucast (c_es ctx), ucast (c_fs ctx), ucast (c_gs ctx), c_dr0 ctx, c_dr1 ctx, c_dr2 ctx,
      c_dr3 ctx, c_dr6 ctx, c_dr7 ctx, 0, 0]"

fun put_slots :: "bytes \<Rightarrow> nat \<Rightarrow> u64 list \<Rightarrow> bytes" where
  "put_slots block i [] = block"
| "put_slots block i (v # vs) = put_slots (put_slot block i v) (Suc i) vs"

definition context_to_block :: "thread_context \<Rightarrow> bytes" where
  "context_to_block ctx = put_slots (replicate kRegBlockSize 0) 0 (context_slots ctx)"

definition block_to_context :: "bytes \<Rightarrow> thread_context \<Rightarrow> thread_context" where
  "block_to_context blk ctx =
     ctx\<lparr>c_rax := get_slot blk 0, c_rbx := get_slot blk 1, c_rcx := get_slot blk 2,
         c_rdx := get_slot blk 3, c_rsi := get_slot blk 4, c_rdi := get_slot blk 5,
         c_rbp := get_slot blk 6, c_rsp := get_slot blk 7, c_r8 := get_slot blk 8,
         c_r9 := get_slot blk 9, c_r10 := get_slot blk 10, c_r11 := get_slot blk 11,
         c_r12 := get_slot blk 12, c_r13 := get_slot blk 13, c_r14 := get_slot blk 14,
         c_r15 := get_slot blk 15, c_rip := get_slot blk 16, c_eflags := ucast (get_slot blk 17),
         c_cs := ucast (get_slot blk 18), c_ss := ucast (get_slot blk 19),
         c_ds := ucast (get_slot blk 20), c_es := ucast (get_slot blk 21),
         c_fs := ucast (get_slot blk 22), c_gs := ucast (get_slot blk 23),
         c_dr0 := get_slot blk 24, c_dr1 := get_slot blk 25, c_dr2 := get_slot blk 26,
         c_dr3 := get_slot blk 27, c_dr6 := get_slot blk 28, c_dr7 := get_slot blk 29\<rparr>"

lemma put_slots_append:
  "length p = 8 * i \<Longrightarrow> 8 * length vs \<le> length q \<Longrightarrow>
   put_slots (p @ q) i vs = p @ concat (map bytes_of_u64 vs) @ drop (8 * length vs) q"
proof (induction vs arbitrary: p q i)
  case (Cons v vs)
  have "put_slot (p @ q) i v = (p @ bytes_of_u64 v) @ drop 8 q"
    using Cons.prems by (simp add: put_slot_def)
  with Cons.IH [of "p @ bytes_of_u64 v" "Suc i" "drop 8 q"] Cons.prems show ?case
    by (simp add: add.commute)
qed simp

lemma context_slots_length: "length (context_slots ctx) = 32"
  by (simp add: context_slots_def)

lemma context_to_block_eq: "context_to_block ctx = concat (map bytes_of_u64 (context_slots ctx))"
  using put_slots_append [of "[]" 0 "context_slots ctx" "replicate kRegBlockSize 0"]
  by (simp add: context_to_block_def context_slots_length kRegBlockSize_def kNumSlots_def)

lemma slot_of_concat:
  "i < length vs \<Longrightarrow> take 8 (drop (8 * i) (concat (map bytes_of_u64 vs) @ r)) = bytes_of_u64 (vs ! i)"
proof (induction vs arbitrary: i)
  case (Cons v vs)
  show ?case
  proof (cases i)
    case (Suc j)
    have "drop (8 * Suc j) (bytes_of_u64 v @ xs) = drop (8 * j) xs" for xs
      by simp
    with Suc Cons show ?thesis by simp
  qed simp
qed simp

lemma get_slot_context: "i < 32 \<Longrightarrow> get_slot (context_to_block ctx) i = context_slots ctx ! i"
  using slot_of_concat [of i "context_slots ctx" "[]"]
  by (simp add: get_slot_def context_to_block_eq context_slots_length u64_of_bytes_of_u64)

lemma block_context_round_trip:
  "block_to_context (context_to_block ctx) ctx' = ctx\<lparr>ctx_flags := ctx_flags ctx'\<rparr>"
proof -
  have cast: "(ucast (ucast x :: u64) :: u32) = x" "(ucast (ucast y :: u64) :: u16) = y" for x y
    by (rule bit_word_eqI, auto simp: bit_simps)+
  show ?thesis
    unfolding block_to_context_def
    by (simp add: get_slot_context context_slots_def cast)
qed

lemma register_block_length: "length (context_to_block ctx) = 256"
proof -
  have "length (concat (map bytes_of_u64 vs)) = 8 * length vs" for vs
    by (induction vs) simp_all
  then show ?thesis by (simp add: context_to_block_eq context_slots_length)
qed

section \<open>The debuggee\<close>

record debuggee =
  nd_pid :: u32
  nd_process :: u64
  nd_attached :: bool
  nd_has_pending :: bool
  nd_pending :: debug_event
  nd_primary_tid :: u32

datatype dbg_event_kind = EvBreakpoint | EvSingleStep | EvException | EvExitProcess | EvLoadModule | EvOther

record dbg_event =
  ev_kind :: dbg_event_kind
  ev_thread_id :: u32
  ev_address :: u64
  ev_code :: u32

record host_mem_map =
  hm_start :: u64
  hm_end :: u64
  hm_perms :: u8
  hm_name :: string

record host_module =
  ho_base :: u64
  ho_size :: u64
  ho_name :: string

definition format_last_error :: "'w win32 \<Rightarrow> string \<Rightarrow> 'w \<Rightarrow> string" where
  "format_last_error W what w =
     what @ '' failed (GetLastError='' @ to_string (uint (w_GetLastError W w)) @ '')''"

definition nd_attach :: "'w win32 \<Rightarrow> u32 \<Rightarrow> 'w \<Rightarrow> debuggee result \<times> 'w" where
  "nd_attach W pid w =
     (let (ok, w1) = w_DebugActiveProcess W pid w in
      if \<not> ok then (Err (format_last_error W ''DebugActiveProcess'' w1), w1)
      else
        let w2 = w_DebugSetProcessKillOnExit W False w1;
            (process, w3) = w_OpenProcess W 0x43A pid w2
        in
        if process = 0 then
          let w4 = snd (w_DebugActiveProcessStop W pid w3) in
          (Err (format_last_error W ''OpenProcess'' w4), w4)
        else
          (Ok \<lparr>nd_pid = pid, nd_process = process, nd_attached = True, nd_has_pending = False,
               nd_pending = debug_event_zero, nd_primary_tid = 0\<rparr>, w3))"

definition nd_detach :: "'w win32 \<Rightarrow> debuggee \<Rightarrow> 'w \<Rightarrow> unit result \<times> debuggee \<times> 'w" where
  "nd_detach W d w =
     (if \<not> nd_attached d then (Err ''detach: not attached'', d, w)
      else
        let (ok, w1) = w_DebugActiveProcessStop W (nd_pid d) w in
        if \<not> ok then (Err (format_last_error W ''DebugActiveProcessStop'' w1), d, w1)
        else (Ok (), d\<lparr>nd_attached := False\<rparr>, w1))"

text \<open>The destructors: detach if still attached, then close the process handle.\<close>

definition nd_destroy :: "'w win32 \<Rightarrow> debuggee \<Rightarrow> 'w \<Rightarrow> 'w" where
  "nd_destroy W d w =
     (let w1 = (if nd_attached d then snd (snd (nd_detach W d w)) else w) in
      if nd_process d \<noteq> 0 then w_CloseHandle W (nd_process d) w1 else w1)"

definition event_of :: "debug_event \<Rightarrow> dbg_event" where
  "event_of de =
     (let out = \<lparr>ev_kind = EvOther, ev_thread_id = de_tid de, ev_address = 0, ev_code = 0\<rparr> in
      case de_info de of
        ExceptionInfo code addr \<Rightarrow>
          out\<lparr>ev_code := code, ev_address := addr,
              ev_kind := (if code = EXCEPTION_BREAKPOINT then EvBreakpoint
                          else if code = EXCEPTION_SINGLE_STEP then EvSingleStep else EvException)\<rparr>
      | ExitProcessInfo code \<Rightarrow> out\<lparr>ev_kind := EvExitProcess, ev_code := code\<rparr>
      | LoadDllInfo base \<Rightarrow> out\<lparr>ev_kind := EvLoadModule, ev_address := base\<rparr>
      | OtherInfo \<Rightarrow> out\<lparr>ev_kind := EvOther\<rparr>)"

definition nd_wait_event ::
    "'w win32 \<Rightarrow> int \<Rightarrow> debuggee \<Rightarrow> 'w \<Rightarrow> dbg_event result \<times> debuggee \<times> 'w" where
  "nd_wait_event W timeout_ms d w =
     (if \<not> nd_attached d then (Err ''wait_event: not attached'', d, w)
      else
        case w_WaitForDebugEvent W (word_of_int timeout_ms) w of
          (None, w1) \<Rightarrow> (Err (format_last_error W ''WaitForDebugEvent'' w1), d, w1)
        | (Some de, w1) \<Rightarrow>
            (Ok (event_of de),
             d\<lparr>nd_has_pending := True, nd_pending := de, nd_primary_tid := de_tid de\<rparr>, w1))"

definition continue_status :: "debug_event \<Rightarrow> u32" where
  "continue_status de =
     (case de_info de of
        ExceptionInfo code _ \<Rightarrow>
          if code \<noteq> EXCEPTION_BREAKPOINT \<and> code \<noteq> EXCEPTION_SINGLE_STEP
          then DBG_EXCEPTION_NOT_HANDLED else DBG_CONTINUE
      | _ \<Rightarrow> DBG_CONTINUE)"

definition nd_resume :: "'w win32 \<Rightarrow> debuggee \<Rightarrow> 'w \<Rightarrow> unit result \<times> debuggee \<times> 'w" where
  "nd_resume W d w =
     (if \<not> nd_has_pending d then (Err ''resume: no pending debug event'', d, w)
      else
        let (ok, w1) = w_ContinueDebugEvent W (de_pid (nd_pending d)) (de_tid (nd_pending d))
                         (continue_status (nd_pending d)) w
        in if \<not> ok then (Err (format_last_error W ''ContinueDebugEvent'' w1), d, w1)
           else (Ok (), d\<lparr>nd_has_pending := False\<rparr>, w1))"

text \<open>
  The sequence that opens a thread, reads its context, edits it, writes it back and closes
  the thread, with its three error exits; four operations run it.
\<close>

definition edit_thread_context ::
    "'w win32 \<Rightarrow> u32 \<Rightarrow> u32 \<Rightarrow> (thread_context \<Rightarrow> thread_context) \<Rightarrow> 'w \<Rightarrow> unit result \<times> 'w" where
  "edit_thread_context W tid flags edit w =
     (let (thread, w1) = w_OpenThread W (THREAD_GET_CONTEXT OR THREAD_SET_CONTEXT) tid w in
      if thread = 0 then (Err (format_last_error W ''OpenThread'' w1), w1)
      else
        case w_GetThreadContext W thread (context_zero\<lparr>ctx_flags := flags\<rparr>) w1 of
          (None, w2) \<Rightarrow>
            let w3 = w_CloseHandle W thread w2 in (Err (format_last_error W ''GetThreadContext'' w3), w3)
        | (Some ctx, w2) \<Rightarrow>
            let (ok, w3) = w_SetThreadContext W thread (edit ctx) w2;
                w4 = w_CloseHandle W thread w3
            in if \<not> ok then (Err (format_last_error W ''SetThreadContext'' w4), w4) else (Ok (), w4))"

definition nd_resume_single_step ::
    "'w win32 \<Rightarrow> debuggee \<Rightarrow> 'w \<Rightarrow> unit result \<times> debuggee \<times> 'w" where
  "nd_resume_single_step W d w =
     (if \<not> nd_has_pending d then (Err ''resume_single_step: no pending debug event'', d, w)
      else
        case edit_thread_context W (de_tid (nd_pending d)) (CONTEXT_FULL OR CONTEXT_DEBUG_REGISTERS)
               (\<lambda>ctx. ctx\<lparr>c_eflags := c_eflags ctx OR kEflagsTrapFlag\<rparr>) w of
          (Err e, w1) \<Rightarrow> (Err e, d, w1)
        | (Ok _, w1) \<Rightarrow>
            let (ok, w2) = w_ContinueDebugEvent W (de_pid (nd_pending d)) (de_tid (nd_pending d))
                             DBG_CONTINUE w1
            in if \<not> ok then (Err (format_last_error W ''ContinueDebugEvent'' w2), d, w2)
               else (Ok (), d\<lparr>nd_has_pending := False\<rparr>, w2))"

definition nd_request_stop :: "'w win32 \<Rightarrow> debuggee \<Rightarrow> 'w \<Rightarrow> unit result \<times> debuggee \<times> 'w" where
  "nd_request_stop W d w =
     (if \<not> nd_attached d then (Err ''request_stop: not attached'', d, w)
      else
        let (ok, w1) = w_DebugBreakProcess W (nd_process d) w in
        if \<not> ok then (Err (format_last_error W ''DebugBreakProcess'' w1), d, w1) else (Ok (), d, w1))"

definition nd_read_registers ::
    "'w win32 \<Rightarrow> u32 \<Rightarrow> debuggee \<Rightarrow> 'w \<Rightarrow> bytes result \<times> debuggee \<times> 'w" where
  "nd_read_registers W thread_id d w =
     (let (thread, w1) = w_OpenThread W THREAD_GET_CONTEXT thread_id w in
      if thread = 0 then (Err (format_last_error W ''OpenThread'' w1), d, w1)
      else
        case w_GetThreadContext W thread
               (context_zero\<lparr>ctx_flags := CONTEXT_FULL OR CONTEXT_DEBUG_REGISTERS\<rparr>) w1 of
          (None, w2) \<Rightarrow>
            let w3 = w_CloseHandle W thread w2 in (Err (format_last_error W ''GetThreadContext'' w3), d, w3)
        | (Some ctx, w2) \<Rightarrow> (Ok (context_to_block ctx), d, w_CloseHandle W thread w2))"

definition nd_write_registers ::
    "'w win32 \<Rightarrow> u32 \<Rightarrow> bytes \<Rightarrow> debuggee \<Rightarrow> 'w \<Rightarrow> unit result \<times> debuggee \<times> 'w" where
  "nd_write_registers W thread_id block d w =
     (if length block < kRegBlockSize then (Err ''write_registers: block too small'', d, w)
      else
        let (r, w1) = edit_thread_context W thread_id (CONTEXT_FULL OR CONTEXT_DEBUG_REGISTERS)
                        (block_to_context block) w
        in (r, d, w1))"

definition nd_read_memory ::
    "'w win32 \<Rightarrow> u64 \<Rightarrow> u64 \<Rightarrow> debuggee \<Rightarrow> 'w \<Rightarrow> bytes result \<times> debuggee \<times> 'w" where
  "nd_read_memory W addr len d w =
     (if \<not> nd_attached d then (Err ''read_memory: not attached'', d, w)
      else
        case w_ReadProcessMemory W (nd_process d) addr len w of
          (None, w1) \<Rightarrow> (Err (format_last_error W ''ReadProcessMemory'' w1), d, w1)
        | (Some (buf, bytes_read), w1) \<Rightarrow>
            if bytes_read \<noteq> len then (Err ''read_memory: partial read'', d, w1) else (Ok buf, d, w1))"

definition nd_write_memory ::
    "'w win32 \<Rightarrow> u64 \<Rightarrow> bytes \<Rightarrow> debuggee \<Rightarrow> 'w \<Rightarrow> unit result \<times> debuggee \<times> 'w" where
  "nd_write_memory W addr data d w =
     (if \<not> nd_attached d then (Err ''write_memory: not attached'', d, w)
      else
        case w_WriteProcessMemory W (nd_process d) addr data w of
          (None, w1) \<Rightarrow> (Err (format_last_error W ''WriteProcessMemory'' w1), d, w1)
        | (Some written, w1) \<Rightarrow>
            if written \<noteq> word_of_nat (length data) then (Err ''write_memory: partial write'', d, w1)
            else
              let (ok, w2) = w_FlushInstructionCache W (nd_process d) addr (word_of_nat (length data)) w1 in
              if \<not> ok then (Err (format_last_error W ''FlushInstructionCache'' w2), d, w2)
              else (Ok (), d, w2))"

section \<open>The memory map\<close>

definition page_perms :: "u32 \<Rightarrow> u8" where
  "page_perms protect =
     (let prot = protect AND 0xFF in
      if prot = 0x02 then 0x4
      else if prot = 0x04 \<or> prot = 0x08 then 0x6
      else if prot = 0x10 then 0x1
      else if prot = 0x20 then 0x5
      else if prot = 0x40 \<or> prot = 0x80 then 0x7
      else 0)"

definition region_of :: "mem_basic_info \<Rightarrow> host_mem_map" where
  "region_of mbi =
     \<lparr>hm_start = mbi_base mbi, hm_end = mbi_base mbi + mbi_region_size mbi,
      hm_perms = page_perms (mbi_protect mbi), hm_name = []\<rparr>"

lemma room_shrinks: "\<not> nxt \<le> (addr :: u64) \<Longrightarrow> 2 ^ 64 - unat nxt < 2 ^ 64 - unat addr"
proof -
  assume "\<not> nxt \<le> addr"
  moreover have "unat nxt < 2 ^ 64" using unsigned_less [of nxt, where ?'a = nat] by simp
  ultimately show ?thesis by (simp add: word_le_nat_alt)
qed

text \<open>The walk ends because the next address must grow: the guard of the source.\<close>

function maps_loop ::
    "'w win32 \<Rightarrow> u64 \<Rightarrow> u64 \<Rightarrow> host_mem_map list \<Rightarrow> 'w \<Rightarrow> host_mem_map list \<times> 'w" where
  "maps_loop W process addr out w =
     (case w_VirtualQueryEx W process addr w of
        (None, w1) \<Rightarrow> (out, w1)
      | (Some mbi, w1) \<Rightarrow>
          let out1 = (if mbi_state mbi = MEM_COMMIT then out @ [region_of mbi] else out);
              nxt = mbi_base mbi + mbi_region_size mbi
          in if nxt \<le> addr then (out1, w1) else maps_loop W process nxt out1 w1)"
  by pat_completeness auto
termination
  by (relation "measure (\<lambda>(W, process, addr, out, w). 2 ^ 64 - unat addr)")
    (simp_all add: room_shrinks del: power_numeral)

declare maps_loop.simps [simp del]

definition nd_maps :: "'w win32 \<Rightarrow> debuggee \<Rightarrow> 'w \<Rightarrow> host_mem_map list result \<times> debuggee \<times> 'w" where
  "nd_maps W d w =
     (if \<not> nd_attached d then (Err ''maps: not attached'', d, w)
      else let (out, w1) = maps_loop W (nd_process d) 0 [] w in (Ok out, d, w1))"

section \<open>Modules and threads\<close>

text \<open>\<open>EnumProcessModulesEx\<close> stores into the vector and keeps the elements it does not reach.\<close>

definition fill_handles :: "u64 list \<Rightarrow> u64 list \<Rightarrow> u64 list" where
  "fill_handles hs mods = take (length mods) hs @ drop (length hs) mods"

fun modules_loop ::
    "'w win32 \<Rightarrow> u64 \<Rightarrow> u64 list \<Rightarrow> host_module list \<Rightarrow> 'w \<Rightarrow> host_module list \<times> 'w" where
  "modules_loop W process [] out w = (out, w)"
| "modules_loop W process (h # hs) out w =
     (case w_GetModuleInformation W process h w of
        (None, w1) \<Rightarrow> modules_loop W process hs out w1
      | (Some (base, sz), w1) \<Rightarrow>
          let (name, w2) = w_GetModuleFileNameExA W process h w1 in
          modules_loop W process hs
            (out @ [\<lparr>ho_base = base, ho_size = ucast sz, ho_name = name\<rparr>]) w2)"

text \<open>
  The handles the loop visits: \<open>mods[0]\<close> to \<open>mods[count - 1]\<close>.  When the second
  enumeration reports more modules than the vector was resized for, the source indexes past
  the vector's end, and the element is unspecified here too; \<open>modules_within_bounds\<close> says
  when that does not happen.
\<close>

definition handles_upto :: "u64 list \<Rightarrow> nat \<Rightarrow> u64 list" where
  "handles_upto mods cnt = map (\<lambda>idx. mods ! idx) [0..<cnt]"

definition module_handles :: "'w win32 \<Rightarrow> u64 \<Rightarrow> 'w \<Rightarrow> (u64 list \<times> nat) result \<times> 'w" where
  "module_handles W process w =
     (let mods0 = replicate 256 0 in
      case w_EnumProcessModulesEx W process (256 * 8) w of
        (None, w1) \<Rightarrow> (Err (format_last_error W ''EnumProcessModulesEx'' w1), w1)
      | (Some (hs, needed), w1) \<Rightarrow>
          let mods = fill_handles hs mods0; cnt = needed div 8 in
          if cnt > length mods then
            let mods1 = mods @ replicate (cnt - length mods) 0 in
            case w_EnumProcessModulesEx W process (length mods1 * 8) w1 of
              (None, w2) \<Rightarrow> (Err (format_last_error W ''EnumProcessModulesEx'' w2), w2)
            | (Some (hs2, needed2), w2) \<Rightarrow> (Ok (fill_handles hs2 mods1, needed2 div 8), w2)
          else (Ok (mods, cnt), w1))"

definition nd_modules :: "'w win32 \<Rightarrow> debuggee \<Rightarrow> 'w \<Rightarrow> host_module list result \<times> debuggee \<times> 'w" where
  "nd_modules W d w =
     (if \<not> nd_attached d then (Err ''modules: not attached'', d, w)
      else
        case module_handles W (nd_process d) w of
          (Err e, w1) \<Rightarrow> (Err e, d, w1)
        | (Ok (mods, cnt), w1) \<Rightarrow>
            let (out, w2) = modules_loop W (nd_process d) (handles_upto mods cnt) [] w1 in (Ok out, d, w2))"

definition nd_threads :: "'w win32 \<Rightarrow> debuggee \<Rightarrow> 'w \<Rightarrow> u32 list result \<times> debuggee \<times> 'w" where
  "nd_threads W d w =
     (if \<not> nd_attached d then (Err ''threads: not attached'', d, w)
      else
        case w_CreateToolhelp32Snapshot W w of
          (None, w1) \<Rightarrow> (Err (format_last_error W ''CreateToolhelp32Snapshot'' w1), d, w1)
        | (Some snapshot, w1) \<Rightarrow>
            let (entries, w2) = w_SnapshotThreads W snapshot w1 in
            (Ok (map snd (filter (\<lambda>e. fst e = nd_pid d) entries)), d, w_CloseHandle W snapshot w2))"

section \<open>Hardware breakpoints\<close>

definition set_dr :: "int \<Rightarrow> u64 \<Rightarrow> thread_context \<Rightarrow> thread_context" where
  "set_dr slot v ctx =
     (if slot = 0 then ctx\<lparr>c_dr0 := v\<rparr> else if slot = 1 then ctx\<lparr>c_dr1 := v\<rparr>
      else if slot = 2 then ctx\<lparr>c_dr2 := v\<rparr> else if slot = 3 then ctx\<lparr>c_dr3 := v\<rparr> else ctx)"

definition arm_slot :: "int \<Rightarrow> u64 \<Rightarrow> thread_context \<Rightarrow> thread_context" where
  "arm_slot slot addr ctx =
     (let c1 = set_dr slot addr ctx;
          enable_bit = push_bit (nat (2 * slot)) 1;
          rw_len_mask = push_bit (nat (16 + 4 * slot)) 0xF
      in c1\<lparr>c_dr7 := (c_dr7 c1 AND NOT rw_len_mask) OR enable_bit\<rparr>)"

definition disarm_slot :: "int \<Rightarrow> thread_context \<Rightarrow> thread_context" where
  "disarm_slot slot ctx =
     (let enable_bit = push_bit (nat (2 * slot)) 1 in
      set_dr slot 0 (ctx\<lparr>c_dr7 := c_dr7 ctx AND NOT enable_bit\<rparr>))"

definition nd_set_hw_exec_bp ::
    "'w win32 \<Rightarrow> int \<Rightarrow> u64 \<Rightarrow> debuggee \<Rightarrow> 'w \<Rightarrow> unit result \<times> debuggee \<times> 'w" where
  "nd_set_hw_exec_bp W slot addr d w =
     (if slot < 0 \<or> slot > 3 then (Err ''set_hw_exec_bp: slot out of range (0-3)'', d, w)
      else if \<not> nd_attached d then (Err ''set_hw_exec_bp: not attached'', d, w)
      else
        let (r, w1) = edit_thread_context W (nd_primary_tid d) CONTEXT_DEBUG_REGISTERS (arm_slot slot addr) w
        in (r, d, w1))"

definition nd_clear_hw_bp ::
    "'w win32 \<Rightarrow> int \<Rightarrow> debuggee \<Rightarrow> 'w \<Rightarrow> unit result \<times> debuggee \<times> 'w" where
  "nd_clear_hw_bp W slot d w =
     (if slot < 0 \<or> slot > 3 then (Err ''clear_hw_bp: slot out of range (0-3)'', d, w)
      else if \<not> nd_attached d then (Err ''clear_hw_bp: not attached'', d, w)
      else
        let (r, w1) = edit_thread_context W (nd_primary_tid d) CONTEXT_DEBUG_REGISTERS (disarm_slot slot) w
        in (r, d, w1))"

definition nd_primary_thread :: "debuggee \<Rightarrow> u32" where
  "nd_primary_thread d = nd_primary_tid d"

section \<open>Debug registers\<close>

definition dr_of :: "int \<Rightarrow> thread_context \<Rightarrow> u64" where
  "dr_of slot ctx =
     (if slot = 0 then c_dr0 ctx else if slot = 1 then c_dr1 ctx
      else if slot = 2 then c_dr2 ctx else c_dr3 ctx)"

lemma slot_cases: "0 \<le> s \<Longrightarrow> s \<le> 3 \<Longrightarrow> s = 0 \<or> s = 1 \<or> s = 2 \<or> s = (3::int)"
  by auto

lemma dr_set_dr:
  "0 \<le> s \<Longrightarrow> s \<le> 3 \<Longrightarrow> 0 \<le> s' \<Longrightarrow> s' \<le> 3 \<Longrightarrow> dr_of s' (set_dr s v ctx) = (if s' = s then v else dr_of s' ctx)"
  by (auto dest!: slot_cases simp: dr_of_def set_dr_def)

lemma dr7_set_dr [simp]: "c_dr7 (set_dr s v ctx) = c_dr7 ctx"
  by (simp add: set_dr_def)

lemma dr_of_dr7 [simp]: "dr_of s (ctx\<lparr>c_dr7 := x\<rparr>) = dr_of s ctx"
  by (simp add: dr_of_def)

lemma bit_arm_slot:
  assumes "0 \<le> s" "s \<le> 3" "n < 64"
  shows "bit (c_dr7 (arm_slot s a ctx)) n \<longleftrightarrow>
    n = nat (2 * s) \<or> bit (c_dr7 ctx) n \<and> \<not> (nat (16 + 4 * s) \<le> n \<and> n < nat (20 + 4 * s))"
proof -
  have "nat (2 * s) < 64" "nat (20 + 4 * s) = nat (16 + 4 * s) + 4" using assms by simp_all
  moreover have m: "(0xF :: u64) = mask 4" by (simp add: mask_numeral)
  ultimately show ?thesis
    unfolding arm_slot_def Let_def m using assms(3) by (auto simp: bit_simps simp del: mask_numeral)
qed

lemma bit_disarm_slot:
  assumes "0 \<le> s" "s \<le> 3" "n < 64"
  shows "bit (c_dr7 (disarm_slot s ctx)) n \<longleftrightarrow> bit (c_dr7 ctx) n \<and> n \<noteq> nat (2 * s)"
  using assms by (auto simp: disarm_slot_def Let_def bit_simps)

text \<open>Everything of a context but the registers of the slots.\<close>

definition beside_slots :: "thread_context \<Rightarrow> thread_context" where
  "beside_slots ctx = ctx\<lparr>c_dr0 := 0, c_dr1 := 0, c_dr2 := 0, c_dr3 := 0, c_dr7 := 0\<rparr>"

lemma beside_slots_set_dr [simp]: "beside_slots (set_dr s v ctx) = beside_slots ctx"
  by (simp add: set_dr_def beside_slots_def)

lemma beside_slots_dr7 [simp]: "beside_slots (ctx\<lparr>c_dr7 := x\<rparr>) = beside_slots ctx"
  by (simp add: beside_slots_def)

lemma beside_slots_arm: "beside_slots (arm_slot s a ctx) = beside_slots ctx"
  by (simp add: arm_slot_def Let_def)

lemma beside_slots_disarm: "beside_slots (disarm_slot s ctx) = beside_slots ctx"
  by (simp add: disarm_slot_def Let_def)

section \<open>Pending events\<close>

lemma event_of_thread: "ev_thread_id (event_of de) = de_tid de"
  by (simp add: event_of_def Let_def split: event_info.split)

lemma event_of_foreign:
  "ev_kind (event_of de) = EvException \<longleftrightarrow>
   (\<exists>code a. de_info de = ExceptionInfo code a \<and> code \<notin> {EXCEPTION_BREAKPOINT, EXCEPTION_SINGLE_STEP})"
  by (auto simp: event_of_def Let_def split: event_info.split)

lemma continue_status_event:
  "continue_status de = (if ev_kind (event_of de) = EvException then DBG_EXCEPTION_NOT_HANDLED else DBG_CONTINUE)"
  by (simp add: event_of_def continue_status_def Let_def split: event_info.split)

lemma nd_resume_Ok_iff:
  "nd_has_pending d \<Longrightarrow> nd_resume W d w = (Ok (), d2, w2) \<longleftrightarrow>
     w_ContinueDebugEvent W (de_pid (nd_pending d)) (de_tid (nd_pending d)) (continue_status (nd_pending d)) w = (True, w2) \<and>
     d2 = d\<lparr>nd_has_pending := False\<rparr>"
  by (auto simp: nd_resume_def split: prod.split)

lemma nd_single_step_Ok_iff:
  "nd_has_pending d \<Longrightarrow> nd_resume_single_step W d w = (Ok (), d2, w2) \<longleftrightarrow>
     (\<exists>wt. edit_thread_context W (de_tid (nd_pending d)) (CONTEXT_FULL OR CONTEXT_DEBUG_REGISTERS)
             (\<lambda>ctx. ctx\<lparr>c_eflags := c_eflags ctx OR kEflagsTrapFlag\<rparr>) w = (Ok (), wt) \<and>
           w_ContinueDebugEvent W (de_pid (nd_pending d)) (de_tid (nd_pending d)) DBG_CONTINUE wt = (True, w2)) \<and>
     d2 = d\<lparr>nd_has_pending := False\<rparr>"
  by (auto simp: nd_resume_single_step_def split: prod.split result.split)

lemma nd_resume_Err:
  "nd_resume W d w = (Err e, d2, w2) \<or> nd_resume_single_step W d w = (Err e, d2, w2) \<Longrightarrow> d2 = d"
  by (auto simp: nd_resume_def nd_resume_single_step_def Let_def split: if_splits prod.splits result.splits)

lemma nd_wait_event_Ok:
  assumes "nd_wait_event W ms d w = (Ok ev, d1, w1)"
  obtains de where "w_WaitForDebugEvent W (word_of_int ms) w = (Some de, w1)" "ev = event_of de"
    "d1 = d\<lparr>nd_has_pending := True, nd_pending := de, nd_primary_tid := de_tid de\<rparr>" "nd_attached d"
  using assms by (auto simp: nd_wait_event_def split: if_splits prod.splits option.splits)

lemma length_fill_handles [simp]: "length (fill_handles hs mods) = length mods"
  by (simp add: fill_handles_def)

lemma modules_within_bounds:
  assumes "module_handles W process w = (Ok (mods, n), w1)"
    and law: "\<And>p cb v hs needed v1. w_EnumProcessModulesEx W p cb v = (Some (hs, needed), v1) \<Longrightarrow>
      needed = 8 * all_mods"
  shows "n = all_mods \<and> n \<le> length mods"
proof -
  obtain hs needed v where e: "w_EnumProcessModulesEx W process (256 * 8) w = (Some (hs, needed), v)"
    using assms(1) by (auto simp: module_handles_def split: prod.splits option.splits)
  have "needed = 8 * all_mods" using law [OF e] .
  with e assms(1) show ?thesis
    by (auto simp: module_handles_def Let_def dest!: law
        split: if_splits prod.splits option.splits)
qed

section \<open>Properties\<close>

text \<open>C17: The register block carries a thread context exactly: writing a context into a block of 256
  bytes and reading it back gives every register, whatever context it is read over; the
  reserved slots and the context flags are the only parts that are not carried.\<close>

theorem register_block_round_trip:
  "block_to_context (context_to_block ctx) ctx' = ctx\<lparr>ctx_flags := ctx_flags ctx'\<rparr> \<and>
   length (context_to_block ctx) = kRegBlockSize"
  using block_context_round_trip register_block_length
  by (simp add: kRegBlockSize_def kNumSlots_def)

text \<open>C16: Arming one of the four hardware slots sets its address and its local enable bit, makes it a
  one-byte execution breakpoint by clearing its four mode bits, and changes no other bit of DR7;
  disarming a slot, armed or not, clears its address and its enable bit and changes no other bit of DR7,
  so the addresses, enable bits and mode bits of the other slots stay as they are.  Neither touches any
  other register of the thread.\<close>

theorem hardware_slots_are_independent:
  assumes "0 \<le> s" "s \<le> 3" "0 \<le> s'" "s' \<le> 3"
  shows "let c = arm_slot s a ctx; c2 = disarm_slot s ctx2 in
    dr_of s' c = (if s' = s then a else dr_of s' ctx) \<and>
    bit (c_dr7 c) (nat (2 * s')) = (s' = s \<or> bit (c_dr7 ctx) (nat (2 * s'))) \<and>
    (\<forall>k < 4. bit (c_dr7 c) (nat (16 + 4 * s') + k) = (s' \<noteq> s \<and> bit (c_dr7 ctx) (nat (16 + 4 * s') + k))) \<and>
    (\<forall>n < 64. n \<noteq> nat (2 * s) \<and> \<not> (nat (16 + 4 * s) \<le> n \<and> n < nat (20 + 4 * s)) \<longrightarrow>
       bit (c_dr7 c) n = bit (c_dr7 ctx) n) \<and>
    dr_of s' c2 = (if s' = s then 0 else dr_of s' ctx2) \<and>
    bit (c_dr7 c2) (nat (2 * s')) = (s' \<noteq> s \<and> bit (c_dr7 ctx2) (nat (2 * s'))) \<and>
    (\<forall>k < 4. bit (c_dr7 c2) (nat (16 + 4 * s') + k) = bit (c_dr7 ctx2) (nat (16 + 4 * s') + k)) \<and>
    (\<forall>n < 64. n \<noteq> nat (2 * s) \<longrightarrow> bit (c_dr7 c2) n = bit (c_dr7 ctx2) n) \<and>
    beside_slots c = beside_slots ctx \<and> beside_slots c2 = beside_slots ctx2"
proof -
  have en: "nat (2 * s') < 64" "nat (2 * s) < 16" "nat (2 * s') = nat (2 * s) \<longleftrightarrow> s' = s"
    using assms by auto
  have low: "\<not> nat (16 + 4 * s) \<le> nat (2 * s')" using assms by simp
  have rw: "nat (16 + 4 * s') + k < 64" "nat (16 + 4 * s') + k \<noteq> nat (2 * s)"
    "nat (16 + 4 * s) \<le> nat (16 + 4 * s') + k \<and> nat (16 + 4 * s') + k < nat (20 + 4 * s) \<longleftrightarrow> s' = s"
    if "k < 4" for k
    using assms that by (auto simp: nat_eq_iff nat_le_iff)
  have dr: "dr_of s' (arm_slot s a ctx) = (if s' = s then a else dr_of s' ctx)"
    "dr_of s' (disarm_slot s c) = (if s' = s then 0 else dr_of s' c)" for c
    using dr_set_dr [OF assms] by (simp_all add: arm_slot_def disarm_slot_def Let_def)
  show ?thesis
    unfolding Let_def dr bit_arm_slot [OF assms(1,2) en(1)] bit_disarm_slot [OF assms(1,2) en(1)] en(3)
    using low rw
    by (auto simp: bit_arm_slot [OF assms(1,2)] bit_disarm_slot [OF assms(1,2)] beside_slots_arm beside_slots_disarm)
qed

theorem hardware_slots_are_independent_witness:
  "let c = arm_slot 1 0x401000 context_zero; c2 = disarm_slot 1 (context_zero\<lparr>c_dr2 := 7, c_dr7 := 0xF000014\<rparr>) in
     dr_of 1 c = 0x401000 \<and> dr_of 2 c = 0 \<and> bit (c_dr7 c) 2 \<and>
     dr_of 2 c2 = 7 \<and> \<not> bit (c_dr7 c2) 2 \<and> bit (c_dr7 c2) 4 \<and> bit (c_dr7 c2) 27"
proof -
  let ?c2 = "context_zero\<lparr>c_dr2 := 7, c_dr7 := 0xF000014\<rparr>"
  note at1 = hardware_slots_are_independent [of 1 1 "0x401000" context_zero ?c2]
  note at2 = hardware_slots_are_independent [of 1 2 "0x401000" context_zero ?c2]
  have "bit (c_dr7 (disarm_slot 1 ?c2)) n" if "n = 4 \<or> n = 27" for n
    using at2 that by (auto simp: Let_def)
  with at1 at2 show ?thesis
    by (simp add: Let_def) (simp add: dr_of_def context_zero_def)
qed



end
