(* ===== verification/Ordered_Map.thy ===== *)
theory Ordered_Map
  imports Prelude
begin

text \<open>
  \<open>std::map\<close> as the sources use it: an association list kept in key order.
  \<open>om_put\<close> is \<open>m[k] = v\<close>, \<open>om_emplace\<close> is \<open>m.emplace (k, v)\<close> (which
  keeps an existing entry), \<open>om_erase\<close> is \<open>m.erase (it)\<close>, and lookup
  (\<open>find\<close>) is \<open>map_of\<close>.  Iteration visits the list from left to right,
  that is in increasing key order.

  The locale \<open>std_map\<close> is the interface the components rely on; it is
  interpreted on these operations at the end of the theory.
\<close>

type_synonym ('k, 'v) omap = "('k \<times> 'v) list"

definition om_ok :: "('k::linorder, 'v) omap \<Rightarrow> bool" where
  "om_ok m \<longleftrightarrow> sorted_wrt (<) (map fst m)"

fun om_put :: "'k::linorder \<Rightarrow> 'v \<Rightarrow> ('k, 'v) omap \<Rightarrow> ('k, 'v) omap" where
  "om_put k v [] = [(k, v)]"
| "om_put k v ((k', v') # m) =
     (if k < k' then (k, v) # (k', v') # m
      else if k = k' then (k, v) # m
      else (k', v') # om_put k v m)"

definition om_emplace :: "'k::linorder \<Rightarrow> 'v \<Rightarrow> ('k, 'v) omap \<Rightarrow> ('k, 'v) omap" where
  "om_emplace k v m = (case map_of m k of None \<Rightarrow> om_put k v m | Some _ \<Rightarrow> m)"

definition om_erase :: "'k::linorder \<Rightarrow> ('k, 'v) omap \<Rightarrow> ('k, 'v) omap" where
  "om_erase k m = filter (\<lambda>e. fst e \<noteq> k) m"

lemma om_ok_Nil [simp]: "om_ok []"
  by (simp add: om_ok_def)

lemma om_ok_Cons [simp]:
  "om_ok ((k, v) # m) \<longleftrightarrow> (\<forall>k' \<in> fst ` set m. k < k') \<and> om_ok m"
  by (auto simp: om_ok_def)

lemma om_ok_distinct: "om_ok m \<Longrightarrow> distinct (map fst m)"
  unfolding om_ok_def by (induction m) auto

lemma om_ok_sorted: "om_ok m \<Longrightarrow> sorted (map fst m)"
  unfolding om_ok_def by (induction m) (auto simp: less_imp_le)

lemma keys_om_put [simp]: "fst ` set (om_put k v m) = insert k (fst ` set m)"
  by (induction k v m rule: om_put.induct) auto

lemma om_put_ok: "om_ok m \<Longrightarrow> om_ok (om_put k v m)"
  by (induction k v m rule: om_put.induct) auto

lemma map_of_om_put: "om_ok m \<Longrightarrow> map_of (om_put k v m) = (map_of m)(k \<mapsto> v)"
proof (induction k v m rule: om_put.induct)
  case (2 k v k' v' m)
  show ?case
  proof (cases "k < k'")
    case True
    then show ?thesis by (auto simp: fun_eq_iff)
  next
    case False
    with 2 show ?thesis by (auto simp: fun_eq_iff)
  qed
qed simp

lemma om_emplace_ok: "om_ok m \<Longrightarrow> om_ok (om_emplace k v m)"
  by (simp add: om_emplace_def om_put_ok split: option.split)

lemma map_of_om_emplace:
  "om_ok m \<Longrightarrow>
   map_of (om_emplace k v m) = (case map_of m k of None \<Rightarrow> (map_of m)(k \<mapsto> v) | Some _ \<Rightarrow> map_of m)"
  by (simp add: om_emplace_def map_of_om_put split: option.split)

lemma om_erase_ok: "om_ok m \<Longrightarrow> om_ok (om_erase k m)"
  unfolding om_erase_def by (induction m) auto

lemma map_of_om_erase: "map_of (om_erase k m) = (map_of m)(k := None)"
  unfolding om_erase_def by (induction m) auto

lemma mset_om_put_fresh:
  "map_of m k = None \<Longrightarrow> mset (om_put k v m) = add_mset (k, v) (mset m)"
  by (induction k v m rule: om_put.induct) (auto split: if_splits)

lemma map_of_om_ok_Some_iff: "om_ok m \<Longrightarrow> map_of m k = Some v \<longleftrightarrow> (k, v) \<in> set m"
  by (simp add: om_ok_distinct)

lemma set_om_emplace:
  "set (om_emplace k v m) = (if map_of m k = None then insert (k, v) (set m) else set m)"
proof (cases "map_of m k")
  case None
  then have "set_mset (mset (om_put k v m)) = insert (k, v) (set m)"
    by (simp add: mset_om_put_fresh)
  with None show ?thesis by (simp add: om_emplace_def)
qed (simp add: om_emplace_def)

lemma keys_om_emplace [simp]: "fst ` set (om_emplace k v m) = insert k (fst ` set m)"
  by (force simp: set_om_emplace map_of_eq_None_iff image_iff)

section \<open>The interface\<close>

locale std_map =
  fixes find :: "'m \<Rightarrow> 'k \<Rightarrow> 'v option"
    and put :: "'k \<Rightarrow> 'v \<Rightarrow> 'm \<Rightarrow> 'm"
    and emplace :: "'k \<Rightarrow> 'v \<Rightarrow> 'm \<Rightarrow> 'm"
    and erase :: "'k \<Rightarrow> 'm \<Rightarrow> 'm"
    and empty :: 'm
    and ok :: "'m \<Rightarrow> bool"
  assumes find_empty: "find empty = Map.empty"
    and find_put: "ok m \<Longrightarrow> find (put k v m) = (find m)(k \<mapsto> v)"
    and find_emplace:
      "ok m \<Longrightarrow> find (emplace k v m) = (if find m k = None then (find m)(k \<mapsto> v) else find m)"
    and find_erase: "ok m \<Longrightarrow> find (erase k m) = (find m)(k := None)"
    and ok_empty: "ok empty"
    and ok_put: "ok m \<Longrightarrow> ok (put k v m)"
    and ok_emplace: "ok m \<Longrightarrow> ok (emplace k v m)"
    and ok_erase: "ok m \<Longrightarrow> ok (erase k m)"
begin

lemma find_put_same: "ok m \<Longrightarrow> find (put k v m) k = Some v"
  by (simp add: find_put)

lemma find_put_other: "ok m \<Longrightarrow> k' \<noteq> k \<Longrightarrow> find (put k v m) k' = find m k'"
  by (simp add: find_put)

lemma emplace_keeps: "ok m \<Longrightarrow> find m k = Some v \<Longrightarrow> find (emplace k' w m) k = Some v"
  by (auto simp: find_emplace)

lemma erase_put: "ok m \<Longrightarrow> find (erase k (put k v m)) = (find m)(k := None)"
  by (simp add: find_erase find_put ok_put)

text \<open>A cache fill: remembering what a lookup would have answered changes no answer.\<close>

lemma put_known: "ok m \<Longrightarrow> find m k = Some v \<Longrightarrow> find (put k v m) = find m"
  by (simp add: find_put map_upd_triv)

lemma dom_put: "ok m \<Longrightarrow> dom (find (put k v m)) = insert k (dom (find m))"
  by (simp add: find_put)

lemma dom_erase: "ok m \<Longrightarrow> dom (find (erase k m)) = dom (find m) - {k}"
  by (simp add: find_erase)

end

interpretation om: std_map "map_of :: ('k::linorder, 'v) omap \<Rightarrow> 'k \<Rightarrow> 'v option"
    om_put om_emplace om_erase "[]" om_ok
  by unfold_locales
    (auto simp: map_of_om_put map_of_om_emplace map_of_om_erase om_put_ok om_emplace_ok om_erase_ok
      fun_eq_iff split: option.split)

end
