(* ===== verification/Memory_Cache.thy ===== *)
theory Memory_Cache
  imports Backend_Types Ordered_Map
begin

text \<open>
  target/src/memory_cache.cpp: guest memory cached by page and stop epoch.  The
  C++ object refers to a backend; here the backend's state is passed along with the
  cache's.  The operations take the backend as a value of \<open>backend_ops\<close>.

  \<open>changed_loop\<close> need not end (see \<open>changed_diverges\<close>), so it counts fuel and is
  \<open>None\<close> when that runs out; \<open>changed_loop_total\<close> says which fuel is enough.

  The locale \<open>memory_source\<close> states what the cache relies on: reading changes no
  memory, and a successful read returns the bytes asked for.
\<close>

definition kPageSize :: u64 where
  "kPageSize = 4096"

record mem_cache =
  mc_epoch :: u64
  mc_cur :: "(u64, bytes) omap"
  mc_prev :: "(u64, bytes) omap"

definition mem_cache_init :: mem_cache where
  "mem_cache_init = \<lparr>mc_epoch = 0, mc_cur = [], mc_prev = []\<rparr>"

definition set_epoch :: "u64 \<Rightarrow> mem_cache \<Rightarrow> mem_cache" where
  "set_epoch e c = c\<lparr>mc_epoch := e, mc_prev := mc_cur c, mc_cur := []\<rparr>"

definition read_page ::
    "'b backend_ops \<Rightarrow> u64 \<Rightarrow> mem_cache \<Rightarrow> 'b \<Rightarrow> bytes result \<times> mem_cache \<times> 'b" where
  "read_page ops page_addr c b =
     (case map_of (mc_cur c) page_addr of
        Some d \<Rightarrow> (Ok d, c, b)
      | None \<Rightarrow>
          (case be_read_memory ops page_addr kPageSize b of
             (Err e, b1) \<Rightarrow> (Err e, c, b1)
           | (Ok d, b1) \<Rightarrow> (Ok d, c\<lparr>mc_cur := om_put page_addr d (mc_cur c)\<rparr>, b1)))"

definition page_of :: "u64 \<Rightarrow> u64" where
  "page_of pos = (pos div kPageSize) * kPageSize"

text \<open>The bytes one turn of the loop of \<open>read\<close> appends; a page may be shorter than a page.\<close>

definition page_slice :: "bytes \<Rightarrow> u64 \<Rightarrow> u64 \<Rightarrow> bytes" where
  "page_slice d off tk =
     map (\<lambda>i. let idx = unat (off + word_of_nat i) in if idx < length d then d ! idx else 0)
       [0..<unat tk]"

lemma page_off: "pos - page_of pos = pos mod kPageSize"
  by (simp add: page_of_def minus_div_mult_eq_mod)

lemma unat_page_of: "unat (page_of pos) = unat pos div 4096 * 4096"
proof -
  have "unat pos div 4096 * 4096 \<le> unat pos" by simp
  also have "\<dots> < 2 ^ 64" using unsigned_less [of pos, where ?'a = nat] by simp
  finally show ?thesis
    unfolding page_of_def kPageSize_def unat_word_ariths(2) unat_div by simp
qed

lemma page_of_idem: "page_of (page_of pos) = page_of pos"
proof -
  have "unat (page_of (page_of pos)) = unat (page_of pos)"
    by (simp only: unat_page_of) simp
  then show ?thesis by (simp only: unsigned_word_eqI)
qed

lemma unat_page_off: "unat (pos mod kPageSize) = unat pos mod 4096"
  by (simp add: kPageSize_def unat_mod)

lemma unat_avail: "unat (kPageSize - pos mod kPageSize) = 4096 - unat pos mod 4096"
proof -
  have "pos mod kPageSize \<le> kPageSize"
    by (simp add: word_le_nat_alt unat_page_off) (simp add: kPageSize_def less_imp_le)
  then show ?thesis
    by (simp add: unat_sub unat_page_off) (simp add: kPageSize_def)
qed

lemma read_loop_decr:
  "remaining \<noteq> 0 \<Longrightarrow>
   unat (remaining - min (kPageSize - (pos - page_of pos)) remaining) < unat remaining"
proof -
  assume r: "remaining \<noteq> 0"
  define t where "t = min (kPageSize - (pos - page_of pos)) remaining"
  have "unat (kPageSize - (pos - page_of pos)) > 0"
    by (simp add: page_off unat_avail)
  with r have "t \<noteq> 0" "t \<le> remaining"
    by (auto simp: t_def min_def)
  then show ?thesis
    unfolding t_def [symmetric] by (simp add: unat_sub word_le_nat_alt unat_gt_0 r)
qed

function read_loop ::
    "'b backend_ops \<Rightarrow> u64 \<Rightarrow> u64 \<Rightarrow> bytes \<Rightarrow> mem_cache \<Rightarrow> 'b \<Rightarrow>
     bytes result \<times> mem_cache \<times> 'b" where
  "read_loop ops pos remaining out c b =
     (if remaining = 0 then (Ok out, c, b)
      else
        let page_addr = page_of pos;
            off = pos - page_addr
        in
        case read_page ops page_addr c b of
          (Err e, c1, b1) \<Rightarrow> (Err e, c1, b1)
        | (Ok d, c1, b1) \<Rightarrow>
            let avail = kPageSize - off;
                tk = min avail remaining
            in read_loop ops (pos + tk) (remaining - tk) (out @ page_slice d off tk) c1 b1)"
  by pat_completeness auto
termination
  by (relation "measure (\<lambda>(ops, pos, remaining, out, c, b). unat remaining)")
    (auto simp: read_loop_decr)

declare read_loop.simps [simp del]

definition mc_read ::
    "'b backend_ops \<Rightarrow> u64 \<Rightarrow> u64 \<Rightarrow> mem_cache \<Rightarrow> 'b \<Rightarrow> bytes result \<times> mem_cache \<times> 'b" where
  "mc_read ops addr len c b = read_loop ops addr len [] c b"

fun changed_loop ::
    "'b backend_ops \<Rightarrow> u64 \<Rightarrow> nat \<Rightarrow> u64 \<Rightarrow> mem_cache \<Rightarrow> 'b \<Rightarrow> (bool \<times> mem_cache \<times> 'b) option" where
  "changed_loop ops last_page 0 page_addr c b = None"
| "changed_loop ops last_page (Suc fuel) page_addr c b =
     (if page_addr \<le> last_page then
        (case read_page ops page_addr c b of
           (Err e, c1, b1) \<Rightarrow> Some (False, c1, b1)
         | (Ok d, c1, b1) \<Rightarrow>
             (case map_of (mc_prev c1) page_addr of
                None \<Rightarrow> changed_loop ops last_page fuel (page_addr + kPageSize) c1 b1
              | Some old \<Rightarrow>
                  if d \<noteq> old then Some (True, c1, b1)
                  else changed_loop ops last_page fuel (page_addr + kPageSize) c1 b1))
      else Some (False, c, b))"

definition changed_since_last_epoch ::
    "'b backend_ops \<Rightarrow> nat \<Rightarrow> u64 \<Rightarrow> u64 \<Rightarrow> mem_cache \<Rightarrow> 'b \<Rightarrow> (bool \<times> mem_cache \<times> 'b) option" where
  "changed_since_last_epoch ops fuel addr len c b =
     (if len = 0 then Some (False, c, b)
      else changed_loop ops (page_of (addr + len - 1)) fuel (page_of addr) c b)"

section \<open>One page\<close>

lemma read_page_hit: "map_of (mc_cur c) p = Some d \<Longrightarrow> read_page ops p c b = (Ok d, c, b)"
  by (simp add: read_page_def)

lemma read_page_grows:
  assumes "om_ok (mc_cur c)" "read_page ops p c b = (r, c1, b1)"
  shows "om_ok (mc_cur c1)" "map_of (mc_cur c) \<subseteq>\<^sub>m map_of (mc_cur c1)" "mc_prev c1 = mc_prev c"
    "mc_epoch c1 = mc_epoch c" "r = Ok d \<Longrightarrow> map_of (mc_cur c1) p = Some d"
proof -
  consider "c1 = c" "map_of (mc_cur c) p = None" "\<exists>e. r = Err e"
    | d where "c1 = c" "map_of (mc_cur c) p = Some d" "r = Ok d"
    | d where "map_of (mc_cur c) p = None" "r = Ok d" "c1 = c\<lparr>mc_cur := om_put p d (mc_cur c)\<rparr>"
    using assms(2) by (auto simp: read_page_def split: option.splits prod.splits result.splits)
  then have "om_ok (mc_cur c1) \<and> map_of (mc_cur c) \<subseteq>\<^sub>m map_of (mc_cur c1) \<and> mc_prev c1 = mc_prev c \<and>
      mc_epoch c1 = mc_epoch c \<and> (r = Ok d \<longrightarrow> map_of (mc_cur c1) p = Some d)"
    by cases (use assms(1) in \<open>auto simp: om.ok_put om.find_put map_le_def\<close>)
  then show "om_ok (mc_cur c1)" "map_of (mc_cur c) \<subseteq>\<^sub>m map_of (mc_cur c1)" "mc_prev c1 = mc_prev c"
    "mc_epoch c1 = mc_epoch c" "r = Ok d \<Longrightarrow> map_of (mc_cur c1) p = Some d" by blast+
qed

section \<open>A second read in the same epoch\<close>

abbreviation grown :: "mem_cache \<Rightarrow> mem_cache \<Rightarrow> bool" where
  "grown c c1 \<equiv> om_ok (mc_cur c1) \<and> map_of (mc_cur c) \<subseteq>\<^sub>m map_of (mc_cur c1) \<and>
     mc_prev c1 = mc_prev c \<and> mc_epoch c1 = mc_epoch c"

lemma grown_trans: "grown c c1 \<Longrightarrow> grown c1 c2 \<Longrightarrow> grown c c2"
  by (auto intro: map_le_trans)

lemma read_loop_step:
  assumes "remaining \<noteq> 0" "read_page ops (page_of pos) c b = (Ok d, c1, b1)"
  shows "read_loop ops pos remaining out c b =
     (let tk = min (kPageSize - (pos - page_of pos)) remaining in
      read_loop ops (pos + tk) (remaining - tk) (out @ page_slice d (pos - page_of pos) tk) c1 b1)"
  using assms by (subst read_loop.simps) (simp add: Let_def)

lemma read_loop_step_Err:
  assumes "remaining \<noteq> 0" "read_page ops (page_of pos) c b = (Err e, c1, b1)"
  shows "read_loop ops pos remaining out c b = (Err e, c1, b1)"
  using assms by (subst read_loop.simps) (simp add: Let_def)

lemma read_loop_0 [simp]: "read_loop ops pos 0 out c b = (Ok out, c, b)"
  by (subst read_loop.simps) simp

text \<open>Induction over the turns of the loop.\<close>

lemma read_loop_rule [case_names finished failed turn]:
  assumes "\<And>pos out c b. P pos 0 out c b"
    and "\<And>pos remaining out c b e c1 b1. remaining \<noteq> 0 \<Longrightarrow>
      read_page ops (page_of pos) c b = (Err e, c1, b1) \<Longrightarrow> P pos remaining out c b"
    and "\<And>pos remaining out c b d c1 b1 tk. remaining \<noteq> 0 \<Longrightarrow>
      read_page ops (page_of pos) c b = (Ok d, c1, b1) \<Longrightarrow>
      tk = min (kPageSize - (pos - page_of pos)) remaining \<Longrightarrow>
      P (pos + tk) (remaining - tk) (out @ page_slice d (pos - page_of pos) tk) c1 b1 \<Longrightarrow>
      P pos remaining out c b"
  shows "P pos remaining out c b"
proof (induction "unat remaining" arbitrary: pos remaining out c b rule: less_induct)
  case (less remaining pos out c b)
  show ?case
  proof (cases "remaining = 0")
    case False
    obtain r c1 b1 where p: "read_page ops (page_of pos) c b = (r, c1, b1)"
      by (metis prod_cases3)
    show ?thesis
    proof (cases r)
      case (Err e)
      with p show ?thesis using assms(2) [OF False] by blast
    next
      case (Ok d)
      show ?thesis
        by (rule assms(3) [OF False p [unfolded Ok] refl], rule less, rule read_loop_decr [OF False])
    qed
  qed (use assms(1) in simp)
qed

lemma read_loop_grown:
  "om_ok (mc_cur c) \<Longrightarrow> read_loop ops pos remaining out c b = (r, c1, b1) \<Longrightarrow> grown c c1"
proof (induction pos remaining out c b rule: read_loop_rule [where ops = ops])
  case (failed pos remaining out c b e c1' b1')
  then show ?case
    using read_page_grows(1-4) [OF failed.prems(1) failed(2)] read_loop_step_Err [OF failed(1,2), of out] by simp
next
  case (turn pos remaining out c b d c2 b2 tk)
  note g = read_page_grows(1-4) [OF turn.prems(1) turn(2)]
  have "grown c2 c1"
    using turn.IH g(1) turn.prems(2) read_loop_step [OF turn(1,2), of out] turn(3) by (simp add: Let_def)
  with g show ?case by (auto intro: map_le_trans)
qed simp

lemma read_loop_again:
  "om_ok (mc_cur c) \<Longrightarrow> read_loop ops pos remaining out c b = (Ok res, c1, b1) \<Longrightarrow>
   map_of (mc_cur c1) \<subseteq>\<^sub>m map_of (mc_cur c2) \<Longrightarrow>
   read_loop ops2 pos remaining out c2 b2 = (Ok res, c2, b2)"
proof (induction pos remaining out c b rule: read_loop_rule [where ops = ops])
  case (failed pos remaining out c b e c3 b3)
  then show ?case using read_loop_step_Err [OF failed(1,2), of out] by simp
next
  case (turn pos remaining out c b d c3 b3 tk)
  note g = read_page_grows [OF turn.prems(1) turn(2)]
  have rest: "read_loop ops (pos + tk) (remaining - tk) (out @ page_slice d (pos - page_of pos) tk) c3 b3
      = (Ok res, c1, b1)"
    using turn.prems(2) read_loop_step [OF turn(1,2), of out] turn(3) by (simp add: Let_def)
  have "map_of (mc_cur c3) \<subseteq>\<^sub>m map_of (mc_cur c1)"
    using read_loop_grown [OF g(1) rest] by blast
  then have "map_of (mc_cur c2) (page_of pos) = Some d"
    using g(5) [OF refl] turn.prems(3) unfolding map_le_def by (metis domI)
  then have hit: "read_page ops2 (page_of pos) c2 b2 = (Ok d, c2, b2)"
    by (rule read_page_hit)
  show ?case
    using read_loop_step [OF turn(1) hit, of out] turn.IH [OF g(1) rest turn.prems(3)] turn(3)
    by (simp add: Let_def)
qed simp

text \<open>A read succeeds where every page can be read.\<close>

lemma mc_read_total:
  assumes "\<And>b a n. I b \<Longrightarrow> \<exists>d b1. be_read_memory ops a n b = (Ok d, b1) \<and> I b1"
    and "I b"
  shows "\<exists>out c1 b1. mc_read ops addr len c b = (Ok out, c1, b1)"
proof -
  have page: "\<exists>d c1 b1. read_page ops p c b = (Ok d, c1, b1) \<and> I b1" if "I b" for p c b
    using assms(1) [OF that, of p kPageSize] that by (auto simp: read_page_def split: option.split)
  have "I b \<Longrightarrow> \<exists>res c1 b1. read_loop ops pos remaining out c b = (Ok res, c1, b1)" for pos remaining out
  proof (induction pos remaining out c b rule: read_loop_rule [where ops = ops])
    case (failed pos remaining out c b e c1 b1)
    then show ?case using page [of b "page_of pos" c] by auto
  next
    case (turn pos remaining out c b d c1 b1 tk)
    then have "I b1" using page [OF turn.prems, of "page_of pos" c] by auto
    with turn.IH read_loop_step [OF turn(1,2), of out] turn(3) show ?case by (simp add: Let_def)
  qed simp
  then show ?thesis using assms(2) by (simp add: mc_read_def)
qed

section \<open>Comparing epochs\<close>

text \<open>Turns that are left of the page loop, when it does not reach the last page of memory.\<close>

definition pages_left :: "u64 \<Rightarrow> u64 \<Rightarrow> nat" where
  "pages_left last_page p = (unat last_page + 4096 - unat p) div 4096"

lemma next_page:
  assumes "unat last_page + 4096 < 2 ^ 64" "p \<le> last_page"
  shows "unat (p + kPageSize) = unat p + 4096"
    "pages_left last_page p = Suc (pages_left last_page (p + kPageSize))"
proof -
  have "unat p + 4096 < 2 ^ 64" using assms by (simp add: word_le_nat_alt)
  then show u: "unat (p + kPageSize) = unat p + 4096"
    by (simp add: unat_word_ariths kPageSize_def)
  have le: "unat p \<le> unat last_page" using assms(2) by (simp add: word_le_nat_alt)
  then have "unat last_page + 4096 - unat p = (unat last_page - unat p) + 4096" by linarith
  moreover have "(x + 4096) div 4096 = Suc (x div 4096)" for x :: nat by simp
  moreover have "unat last_page + 4096 - unat (p + kPageSize) = unat last_page - unat p"
    unfolding u by linarith
  ultimately show "pages_left last_page p = Suc (pages_left last_page (p + kPageSize))"
    unfolding pages_left_def by metis
qed

lemma changed_loop_total:
  "unat last_page + 4096 < 2 ^ 64 \<Longrightarrow> pages_left last_page p < fuel \<Longrightarrow>
   \<exists>r. changed_loop ops last_page fuel p c b = Some r"
proof (induction fuel arbitrary: p c b)
  case (Suc fuel)
  show ?case
  proof (cases "p \<le> last_page")
    case True
    then have "\<exists>r. changed_loop ops last_page fuel (p + kPageSize) c1 b1 = Some r" for c1 b1
      using Suc next_page(2) [OF Suc.prems(1) True] by simp
    then show ?thesis by (auto split: prod.split result.split option.split)
  next
    case False
    then show ?thesis by auto
  qed
qed simp

text \<open>
  The page number of the loop wraps after the last page of the address space, so a range that
  ends there leaves the loop only through a difference or a failing read.
\<close>

lemma top_page_above: "page_of p = p \<Longrightarrow> p \<le> 0xFFFFFFFFFFFFF000"
proof -
  assume "page_of p = p"
  then have "p mod kPageSize = 0" by (metis page_off diff_self)
  then have "unat p mod 4096 = 0" by (metis unat_0 unat_page_off)
  moreover have "unat p < 2 ^ 64" using unsigned_less [of p, where ?'a = nat] by simp
  then have "unat p div 4096 < 4503599627370496" by (simp add: less_mult_imp_div_less)
  ultimately have "unat p \<le> 0xFFFFFFFFFFFFF000" by (auto simp: mod_eq_0_iff_dvd dvd_def)
  then show ?thesis by (simp add: word_le_nat_alt)
qed

lemma page_of_next: "page_of p = p \<Longrightarrow> page_of (p + kPageSize) = p + kPageSize"
proof -
  assume "page_of p = p"
  then have "p mod kPageSize = 0" by (metis page_off diff_self)
  then have m: "unat p mod 4096 = 0" by (metis unat_0 unat_page_off)
  have "unat (p + kPageSize) mod 4096 = ((unat p + 4096) mod 2 ^ 64) mod 4096"
    by (simp add: unat_word_ariths kPageSize_def)
  also have "\<dots> = (unat p + 4096) mod 4096"
    by (rule mod_mod_cancel) simp
  finally have "unat ((p + kPageSize) mod kPageSize) = 0"
    using m by (simp add: unat_page_off)
  then have "(p + kPageSize) mod kPageSize = 0" by (simp only: unat_eq_0)
  then show ?thesis by (metis page_off diff_0_right eq_iff_diff_eq_0)
qed

lemma changed_loop_diverges:
  assumes "\<And>a b. \<exists>d. be_read_memory ops a kPageSize b = (Ok d, b)"
  shows "mc_prev c = [] \<Longrightarrow> page_of p = p \<Longrightarrow> changed_loop ops 0xFFFFFFFFFFFFF000 fuel p c b = None"
proof (induction fuel arbitrary: p c)
  case (Suc fuel)
  obtain d c1 where p: "read_page ops p c b = (Ok d, c1, b)" "mc_prev c1 = mc_prev c"
    using assms [of p b] by (cases "map_of (mc_cur c) p") (auto simp: read_page_def)
  then show ?case
    using Suc.IH [of c1 "p + kPageSize"] Suc.prems top_page_above page_of_next by simp
qed simp

section \<open>What the cache relies on\<close>

text \<open>A page of memory \<open>m\<close>; a cache that agrees with \<open>m\<close>; a page that differs from its last copy.\<close>

definition page_bytes :: "(u64 \<Rightarrow> byte) \<Rightarrow> u64 \<Rightarrow> bytes" where
  "page_bytes m p = map (\<lambda>i. m (p + word_of_nat i)) [0..<4096]"

definition coherent :: "mem_cache \<Rightarrow> (u64 \<Rightarrow> byte) \<Rightarrow> bool" where
  "coherent c m \<longleftrightarrow> om_ok (mc_cur c) \<and> (\<forall>p d. map_of (mc_cur c) p = Some d \<longrightarrow> d = page_bytes m p)"

definition page_differs :: "mem_cache \<Rightarrow> (u64 \<Rightarrow> byte) \<Rightarrow> u64 \<Rightarrow> bool" where
  "page_differs c m q \<longleftrightarrow> (\<exists>old. map_of (mc_prev c) q = Some old \<and> old \<noteq> page_bytes m q)"

text \<open>
  A source of guest memory: \<open>view b\<close> is the memory in backend state \<open>b\<close>, and
  \<open>good b\<close> the condition under which the two laws hold.
\<close>

locale memory_source =
  fixes ops :: "'b backend_ops"
    and view :: "'b \<Rightarrow> u64 \<Rightarrow> byte"
    and good :: "'b \<Rightarrow> bool"
  assumes fetch_keeps:
      "good b \<Longrightarrow> be_read_memory ops a n b = (r, b1) \<Longrightarrow> good b1 \<and> view b1 = view b"
    and fetch_data:
      "good b \<Longrightarrow> be_read_memory ops a n b = (Ok d, b1) \<Longrightarrow>
       d = map (\<lambda>i. view b (a + word_of_nat i)) [0..<unat n]"
begin

lemma coherent_set_epoch: "coherent (set_epoch e c) m"
  by (simp add: coherent_def set_epoch_def)

lemma coherent_view: "view b1 = view b \<Longrightarrow> coherent c (view b) \<Longrightarrow> coherent c (view b1)"
  by (simp add: coherent_def page_bytes_def)

lemma read_page_coherent:
  assumes "good b" "coherent c (view b)" "read_page ops p c b = (r, c1, b1)"
  shows "good b1" "view b1 = view b" "coherent c1 (view b1)" "r = Ok d \<Longrightarrow> d = page_bytes (view b) p"
proof -
  have "good b1 \<and> view b1 = view b \<and> coherent c1 (view b1) \<and> (r = Ok d \<longrightarrow> d = page_bytes (view b) p)"
  proof (cases "map_of (mc_cur c) p")
    case (Some d')
    then show ?thesis using assms by (auto simp: read_page_hit coherent_def)
  next
    case None
    obtain r' b' where f: "be_read_memory ops p kPageSize b = (r', b')" by fastforce
    note keep = fetch_keeps [OF assms(1) f]
    show ?thesis
    proof (cases r')
      case (Err e)
      then show ?thesis using assms f None keep by (auto simp: read_page_def coherent_view)
    next
      case (Ok d')
      have d': "d' = page_bytes (view b) p"
        using fetch_data [OF assms(1) f [unfolded Ok]] by (simp add: page_bytes_def kPageSize_def)
      have "coherent c (view b')" using keep assms(2) coherent_view by blast
      then show ?thesis using assms(3) f None keep Ok d'
        by (auto simp: read_page_def coherent_def om.ok_put om.find_put page_bytes_def
            split: if_splits)
    qed
  qed
  then show "good b1" "view b1 = view b" "coherent c1 (view b1)" "r = Ok d \<Longrightarrow> d = page_bytes (view b) p" by blast+
qed

lemma page_slice_bytes:
  assumes "unat off + unat tk \<le> 4096"
  shows "page_slice (page_bytes (view b) p) off tk = map (\<lambda>i. view b (p + off + word_of_nat i)) [0..<unat tk]"
proof -
  have "unat (off + word_of_nat i) = unat off + i" if "i < unat tk" for i
  proof -
    have "unat (word_of_nat i :: u64) = i"
      using that unsigned_less [of tk, where ?'a = nat] by (subst unat_of_nat) (simp add: take_bit_eq_mod)
    moreover have "unat off + i < 2 ^ 64" using that assms by simp
    ultimately show ?thesis by (simp add: unat_word_ariths)
  qed
  with assms show ?thesis
    by (auto simp: page_slice_def page_bytes_def Let_def ac_simps intro!: map_cong)
qed

lemma read_loop_keeps:
  "good b \<Longrightarrow> coherent c (view b) \<Longrightarrow> read_loop ops pos remaining out c b = (r, c1, b1) \<Longrightarrow>
   good b1 \<and> view b1 = view b \<and> coherent c1 (view b)"
proof (induction pos remaining out c b rule: read_loop_rule [where ops = ops])
  case (failed pos remaining out c b e c2 b2)
  then show ?case
    using read_page_coherent(1-3) [OF failed(3,4,2)] read_loop_step_Err [OF failed(1,2), of out] by simp
next
  case (turn pos remaining out c b d c2 b2 tk)
  note p = read_page_coherent(1-3) [OF turn.prems(1,2) turn(2)]
  show ?case
    using turn.IH [OF p(1,3)] p(2) turn.prems(3) read_loop_step [OF turn(1,2), of out] turn(3)
    by (simp add: Let_def)
qed simp

lemma page_tk:
  assumes "tk = min (kPageSize - (pos - page_of pos)) remaining"
  shows "unat (pos - page_of pos) + unat tk \<le> 4096" "unat tk \<le> unat remaining"
proof -
  have "unat tk \<le> 4096 - unat pos mod 4096" "unat tk \<le> unat remaining"
    using assms by (auto simp: page_off min_def word_le_nat_alt unat_avail)
  then show "unat (pos - page_of pos) + unat tk \<le> 4096" "unat tk \<le> unat remaining"
    by (auto simp: page_off unat_page_off)
qed

lemma read_loop_correct:
  "good b \<Longrightarrow> coherent c (view b) \<Longrightarrow> read_loop ops pos remaining out c b = (Ok res, c1, b1) \<Longrightarrow>
   res = out @ map (\<lambda>i. view b (pos + word_of_nat i)) [0..<unat remaining]"
proof (induction pos remaining out c b rule: read_loop_rule [where ops = ops])
  case (failed pos remaining out c b e c2 b2)
  then show ?case using read_loop_step_Err [OF failed(1,2), of out] by simp
next
  case (turn pos remaining out c b d c2 b2 tk)
  note p = read_page_coherent [OF turn.prems(1,2) turn(2)]
  note tk = page_tk [OF turn(3)]
  have d: "d = page_bytes (view b) (page_of pos)" using p(4) by simp
  have slice: "page_slice d (pos - page_of pos) tk = map (\<lambda>i. view b (pos + word_of_nat i)) [0..<unat tk]"
    unfolding d using page_slice_bytes [OF tk(1)] by simp
  have "unat (remaining - tk) = unat remaining - unat tk"
    using tk(2) by (simp add: unat_sub word_le_nat_alt)
  then have "[0..<unat remaining] = [0..<unat tk] @ map (\<lambda>i. unat tk + i) [0..<unat (remaining - tk)]"
    using upt_split [OF tk(2)] by simp
  moreover have "res = (out @ page_slice d (pos - page_of pos) tk) @
      map (\<lambda>i. view b2 (pos + tk + word_of_nat i)) [0..<unat (remaining - tk)]"
    using turn.IH [OF p(1,3)] turn.prems(3) read_loop_step [OF turn(1,2), of out] turn(3)
    by (simp add: Let_def)
  ultimately show ?case
    by (simp add: slice p(2) o_def ac_simps)
qed simp

text \<open>Where every page can be read, the loop reports exactly whether some page it visits differs.\<close>

lemma changed_loop_exact:
  assumes readable: "\<And>a b. good b \<Longrightarrow> \<exists>d b1. be_read_memory ops a kPageSize b = (Ok d, b1)"
    and no_wrap: "unat last_page + 4096 < 2 ^ 64"
  shows "good b \<Longrightarrow> coherent c (view b) \<Longrightarrow> pages_left last_page p < fuel \<Longrightarrow>
    \<exists>c1 b1. changed_loop ops last_page fuel p c b =
      Some (\<exists>k. unat p + 4096 * k \<le> unat last_page \<and> page_differs c (view b) (p + word_of_nat (4096 * k)), c1, b1)"
proof (induction fuel arbitrary: p c b)
  case (Suc fuel)
  show ?case
  proof (cases "p \<le> last_page")
    case False
    then show ?thesis by (auto simp: word_le_nat_alt)
  next
    case True
    note np = next_page [OF no_wrap True]
    let ?E = "\<lambda>q c b. \<exists>k. unat q + 4096 * k \<le> unat last_page \<and> page_differs c (view b) (q + word_of_nat (4096 * k))"
    obtain r c2 b2 where p: "read_page ops p c b = (r, c2, b2)" by (metis prod_cases3)
    note coh = read_page_coherent [OF Suc.prems(1,2) p]
    have om: "om_ok (mc_cur c)" using Suc.prems(2) by (simp add: coherent_def)
    note g = read_page_grows(3) [OF om p]
    obtain d where Ok: "r = Ok d"
      using p readable [OF Suc.prems(1), of p]
      by (cases "map_of (mc_cur c) p") (auto simp: read_page_def)
    have d: "d = page_bytes (view b) p" using coh(4) [OF Ok] .
    have IH: "\<exists>c1 b1. changed_loop ops last_page fuel (p + kPageSize) c2 b2 =
        Some (?E (p + kPageSize) c2 b2, c1, b1)"
      using Suc.IH [OF coh(1,3), of "p + kPageSize"] Suc.prems(3) np(2) by simp
    have same: "page_differs c2 (view b2) = page_differs c (view b)"
      using g coh(2) by (simp add: page_differs_def page_bytes_def fun_eq_iff)
    have split: "?E p c b \<longleftrightarrow> page_differs c (view b) p \<or> ?E (p + kPageSize) c b"
    proof -
      have "unat p \<le> unat last_page" using True by (simp add: word_le_nat_alt)
      then show ?thesis
        unfolding np(1) by (subst ex_nat_split) (simp add: kPageSize_def algebra_simps)
    qed
    show ?thesis
      using p Ok True IH g d unfolding split same
      by (auto simp: page_differs_def split: option.split)
  qed
qed simp

end

section \<open>Properties\<close>

text \<open>C2: Memory read once in a stop epoch stays what it was for the epoch: a repeated read answers
  from the cache with the same bytes, without touching the backend, whatever the backend's
  memory has become, and leaves the cache as it is.\<close>

theorem epoch_reads_are_stable:
  assumes "om_ok (mc_cur c)" "mc_read ops addr len c b = (Ok res, c1, b1)"
  shows "mc_read ops' addr len c1 b' = (Ok res, c1, b')"
  using read_loop_again [OF assms(1), of ops addr len "[]" b res c1 b1 c1] assms(2)
  by (simp add: mc_read_def)

theorem epoch_reads_are_stable_witness:
  "\<forall>ops :: byte backend_ops. \<exists>c1.
     mc_read (ops\<lparr>be_read_memory := \<lambda>a n b. (Ok (replicate (unat n) b), b + 1)\<rparr>) 0x1000 2 mem_cache_init 7 =
       (Ok [7, 7], c1, 8) \<and>
     mc_read (ops\<lparr>be_read_memory := \<lambda>a n b. (Ok (replicate (unat n) b), b + 1)\<rparr>) 0x1000 2 c1 8 = (Ok [7, 7], c1, 8)"
proof
  fix ops :: "byte backend_ops"
  let ?ops = "ops\<lparr>be_read_memory := \<lambda>a n b. (Ok (replicate (unat n) b), b + 1)\<rparr>"
  let ?c1 = "mem_cache_init\<lparr>mc_cur := [(0x1000, replicate 4096 7)]\<rparr>"
  have p: "read_page ?ops (page_of 0x1000) mem_cache_init 7 = (Ok (replicate 4096 7), ?c1, 8)"
    by (simp add: read_page_def mem_cache_init_def page_of_def kPageSize_def)
  have u: "unat (2 :: u64) = Suc (Suc 0)" by simp
  have s: "page_slice (replicate 4096 7) 0 2 = [7, 7]"
    unfolding page_slice_def u by (simp add: Let_def)
  have r: "mc_read ?ops 0x1000 2 mem_cache_init 7 = (Ok [7, 7], ?c1, 8)"
    unfolding mc_read_def using read_loop_step [OF _ p, of 2 "[]"] s
    by (simp add: page_of_def kPageSize_def)
  show "\<exists>c1. mc_read ?ops 0x1000 2 mem_cache_init 7 = (Ok [7, 7], c1, 8) \<and>
     mc_read ?ops 0x1000 2 c1 8 = (Ok [7, 7], c1, 8)"
    using r epoch_reads_are_stable [OF _ r] by (auto simp: mem_cache_init_def)
qed

text \<open>Comparing with the previous epoch ends for every range that stops short of the last page of
  the address space, whatever the backend does: one turn per page and one more are enough.\<close>

theorem changed_terminates:
  assumes "unat (page_of (addr + len - 1)) + 4096 < 2 ^ 64"
    and "(unat (page_of (addr + len - 1)) + 4096 - unat (page_of addr)) div 4096 < fuel"
  shows "\<exists>r. changed_since_last_epoch ops fuel addr len c b = Some r"
  using changed_loop_total [OF assms(1), of "page_of addr" fuel ops c b] assms(2)
  by (auto simp: changed_since_last_epoch_def pages_left_def)

theorem changed_terminates_witness:
  "\<forall>ops :: unit backend_ops. \<exists>r. changed_since_last_epoch ops 3 0x1ff0 0x20 mem_cache_init () = Some r"
  by (intro allI, rule changed_terminates) (simp_all add: page_of_def kPageSize_def)

text \<open>C22: A range that reaches the last page of the address space can keep the comparison from ever
  ending: the page number wraps to 0, which is again below the last page, so with readable
  memory and nothing to compare against no number of turns is enough.\<close>

theorem changed_diverges_at_top:
  assumes "page_of (addr + len - 1) = 0xFFFFFFFFFFFFF000" "len \<noteq> 0" "mc_prev c = []"
    and "\<And>a b. \<exists>d. be_read_memory ops a kPageSize b = (Ok d, b)"
  shows "changed_since_last_epoch ops fuel addr len c b = None"
proof -
  have "page_of (page_of addr) = page_of addr"
    by (rule page_of_idem)
  with changed_loop_diverges [of ops, OF assms(4) assms(3)] show ?thesis
    using assms(1,2) by (simp add: changed_since_last_epoch_def)
qed

theorem changed_diverges_at_top_witness:
  "\<forall>(ops :: unit backend_ops) fuel.
     changed_since_last_epoch (ops\<lparr>be_read_memory := \<lambda>a n b. (Ok [], b)\<rparr>) fuel 0xFFFFFFFFFFFFFFF0 8 mem_cache_init () = None"
  by (intro allI, rule changed_diverges_at_top)
    (simp_all add: page_of_def kPageSize_def mem_cache_init_def)

end
