(* ===== verification/Native_Backend.thy ===== *)
theory Native_Backend
  imports Native_Debuggee Memory_Cache
begin

text \<open>
  backend/src/native_backend.cpp and native_backend_factory.cpp: the backend over the Win32
  debuggee, with its software breakpoints (the byte each replaced) and its hardware
  slots.  The world \<open>'w\<close> of the debug interface is part of the state.

  The attach loop drains events until none arrives; nothing bounds their number, so it
  counts fuel, and \<open>attach_drain_ends\<close> relates the fuel to the events that arrive.

  The lemmas show planting and removing of breakpoints against the memory of the process,
  the arithmetic of the slots, the stop at a planted breakpoint, and that the backend is a
  source of memory for the cache.
\<close>

unbundle bit_operations_syntax

record 'w native =
  nb_dbg :: "debuggee option"
  nb_sw_bp_orig :: "(u64, byte) omap"
  nb_next_hw_slot :: int
  nb_hw_bp_slot :: "(u64, int) omap"
  nb_world :: 'w

definition native_init :: "'w \<Rightarrow> 'w native" where
  "native_init w =
     \<lparr>nb_dbg = None, nb_sw_bp_orig = [], nb_next_hw_slot = 0, nb_hw_bp_slot = [], nb_world = w\<rparr>"

definition kSoftwareBpOpcode :: byte where "kSoftwareBpOpcode = 0xCC"
definition kRipOffset :: nat where "kRipOffset = 16 * 8"
definition kAttachDrainTimeoutMs :: int where "kAttachDrainTimeoutMs = 300"

definition kSlots :: "(string \<times> u16) list" where
  "kSlots =
     [(''rax'', 8), (''rbx'', 8), (''rcx'', 8), (''rdx'', 8),
      (''rsi'', 8), (''rdi'', 8), (''rbp'', 8), (''rsp'', 8),
      (''r8'', 8), (''r9'', 8), (''r10'', 8), (''r11'', 8),
      (''r12'', 8), (''r13'', 8), (''r14'', 8), (''r15'', 8),
      (''rip'', 8), (''rflags'', 8), (''cs'', 8), (''ss'', 8),
      (''ds'', 8), (''es'', 8), (''fs'', 8), (''gs'', 8),
      (''dr0'', 8), (''dr1'', 8), (''dr2'', 8), (''dr3'', 8),
      (''dr6'', 8), (''dr7'', 8), (''reserved0'', 8), (''reserved1'', 8)]"

fun slot_fields :: "(string \<times> u16) list \<Rightarrow> u32 \<Rightarrow> register_field list \<Rightarrow> register_field list \<times> u32" where
  "slot_fields [] off acc = (acc, off)"
| "slot_fields ((n, s) # rest) off acc =
     slot_fields rest (off + ucast s) (acc @ [\<lparr>rf_name = n, rf_offset = off, rf_size = s\<rparr>])"

definition make_native_x86_64_profile :: register_profile where
  "make_native_x86_64_profile =
     (let (fs, off) = slot_fields kSlots 0 [] in \<lparr>rp_fields = fs, rp_block_size = off\<rparr>)"

definition write_rip :: "bytes \<Rightarrow> u64 \<Rightarrow> bytes" where
  "write_rip block rip =
     (if length block \<ge> kRipOffset + 8
      then take kRipOffset block @ bytes_of_u64 rip @ drop (kRipOffset + 8) block else block)"

fun translate_kind :: "dbg_event_kind \<Rightarrow> stop_kind" where
  "translate_kind EvBreakpoint = Breakpoint"
| "translate_kind EvSingleStep = SingleStep"
| "translate_kind EvException = Signal"
| "translate_kind EvExitProcess = Exited"
| "translate_kind EvLoadModule = Unknown"
| "translate_kind EvOther = Unknown"

section \<open>Operations on the debuggee\<close>

type_synonym ('w, 'a) dbg_op = "debuggee \<Rightarrow> 'w \<Rightarrow> 'a result \<times> debuggee \<times> 'w"

text \<open>One operation after the other; the first error is the result of the whole.\<close>

definition and_then :: "('w, 'a) dbg_op \<Rightarrow> ('a \<Rightarrow> ('w, 'b) dbg_op) \<Rightarrow> ('w, 'b) dbg_op" where
  "and_then f g d w =
     (case f d w of (Err e, d1, w1) \<Rightarrow> (Err e, d1, w1) | (Ok v, d1, w1) \<Rightarrow> g v d1 w1)"

definition give :: "'a \<Rightarrow> ('w, 'a) dbg_op" where
  "give v d w = (Ok v, d, w)"

text \<open>The guard every method starts with: without a debuggee it reports the method's name.\<close>

definition with_dbg :: "string \<Rightarrow> ('w, 'a) dbg_op \<Rightarrow> 'w native \<Rightarrow> 'a result \<times> 'w native" where
  "with_dbg name f s =
     (case nb_dbg s of
        None \<Rightarrow> (Err (''NativeBackend: '' @ name @ '' called without an attached target''), s)
      | Some d \<Rightarrow> (case f d (nb_world s) of (r, d1, w1) \<Rightarrow> (r, s\<lparr>nb_dbg := Some d1, nb_world := w1\<rparr>)))"

fun attach_drain :: "'w win32 \<Rightarrow> nat \<Rightarrow> debuggee \<Rightarrow> 'w \<Rightarrow> (unit result \<times> debuggee \<times> 'w) option" where
  "attach_drain W 0 d w = None"
| "attach_drain W (Suc fuel) d w =
     (case nd_wait_event W kAttachDrainTimeoutMs d w of
        (Err e, d1, w1) \<Rightarrow> Some (Ok (), d1, w1)
      | (Ok ev, d1, w1) \<Rightarrow>
          (case nd_resume W d1 w1 of
             (Err e, d2, w2) \<Rightarrow> Some (Err e, d2, w2)
           | (Ok _, d2, w2) \<Rightarrow> attach_drain W fuel d2 w2))"

definition attach_stop :: "'w win32 \<Rightarrow> ('w, unit) dbg_op" where
  "attach_stop W =
     and_then (nd_request_stop W) (\<lambda>_. and_then (nd_wait_event W (-1)) (\<lambda>_. give ()))"

definition nb_attach ::
    "'w win32 \<Rightarrow> nat \<Rightarrow> attach_spec \<Rightarrow> 'w native \<Rightarrow> (unit result \<times> 'w native) option" where
  "nb_attach W fuel spec s =
     (case nd_attach W (as_pid spec) (nb_world s) of
        (Err e, w1) \<Rightarrow> Some (Err e, s\<lparr>nb_world := w1\<rparr>)
      | (Ok dbg, w1) \<Rightarrow>
          let w2 = (case nb_dbg s of None \<Rightarrow> w1 | Some old \<Rightarrow> nd_destroy W old w1) in
          (case attach_drain W fuel dbg w2 of
             None \<Rightarrow> None
           | Some (Err e, d3, w3) \<Rightarrow> Some (Err e, s\<lparr>nb_dbg := Some d3, nb_world := w3\<rparr>)
           | Some (Ok _, d3, w3) \<Rightarrow>
               (case attach_stop W d3 w3 of
                  (r, d4, w4) \<Rightarrow> Some (r, s\<lparr>nb_dbg := Some d4, nb_world := w4\<rparr>))))"

definition nb_detach :: "'w win32 \<Rightarrow> 'w native \<Rightarrow> unit result \<times> 'w native" where
  "nb_detach W s =
     (case nb_dbg s of
        None \<Rightarrow> (Err ''NativeBackend: detach called without an attached target'', s)
      | Some d \<Rightarrow>
          (case nd_detach W d (nb_world s) of
             (r, d1, w1) \<Rightarrow> (r, s\<lparr>nb_dbg := None, nb_world := nd_destroy W d1 w1\<rparr>)))"

text \<open>The recovery at a planted breakpoint, between the event and its report.\<close>

definition rearm :: "'w win32 \<Rightarrow> dbg_event \<Rightarrow> byte \<Rightarrow> ('w, unit) dbg_op" where
  "rearm W ev original d w =
     (let tid = nd_primary_thread d in
      and_then (nd_read_registers W tid) (\<lambda>block.
      and_then (nd_write_registers W tid (write_rip block (ev_address ev))) (\<lambda>_.
      and_then (nd_write_memory W (ev_address ev) [original]) (\<lambda>_.
      and_then (nd_resume_single_step W) (\<lambda>_.
      and_then (nd_wait_event W (-1)) (\<lambda>_.
      nd_write_memory W (ev_address ev) [kSoftwareBpOpcode]))))) d w)"

definition stop_of_event :: "dbg_event \<Rightarrow> stop_reply" where
  "stop_of_event ev =
     stop_reply_init\<lparr>sr_kind := translate_kind (ev_kind ev), sr_signal := sint (ev_code ev),
       sr_pc := ev_address ev\<rparr>"

definition translate_stop_and_rearm ::
    "'w win32 \<Rightarrow> (u64, byte) omap \<Rightarrow> dbg_event \<Rightarrow> ('w, stop_reply) dbg_op" where
  "translate_stop_and_rearm W planted ev =
     (case (if ev_kind ev = EvBreakpoint then map_of planted (ev_address ev) else None) of
        Some original \<Rightarrow> and_then (rearm W ev original) (\<lambda>_. give (stop_of_event ev))
      | None \<Rightarrow> give (stop_of_event ev))"

definition nb_cont :: "'w win32 \<Rightarrow> 'w native \<Rightarrow> stop_reply result \<times> 'w native" where
  "nb_cont W s =
     with_dbg ''cont''
       (and_then (nd_resume W) (\<lambda>_.
        and_then (nd_wait_event W (-1)) (\<lambda>ev. translate_stop_and_rearm W (nb_sw_bp_orig s) ev))) s"

definition nb_step :: "'w win32 \<Rightarrow> 'w native \<Rightarrow> stop_reply result \<times> 'w native" where
  "nb_step W s =
     with_dbg ''step''
       (and_then (nd_resume_single_step W) (\<lambda>_.
        and_then (nd_wait_event W (-1)) (\<lambda>ev.
        give (stop_reply_init\<lparr>sr_kind := SingleStep, sr_pc := ev_address ev\<rparr>)))) s"

definition nb_request_stop :: "'w win32 \<Rightarrow> 'w native \<Rightarrow> unit result \<times> 'w native" where
  "nb_request_stop W s = with_dbg ''request_stop'' (nd_request_stop W) s"

definition nb_read_registers :: "'w win32 \<Rightarrow> 'w native \<Rightarrow> bytes result \<times> 'w native" where
  "nb_read_registers W s =
     with_dbg ''read_registers'' (\<lambda>d. nd_read_registers W (nd_primary_thread d) d) s"

definition nb_write_registers :: "'w win32 \<Rightarrow> bytes \<Rightarrow> 'w native \<Rightarrow> unit result \<times> 'w native" where
  "nb_write_registers W block s =
     with_dbg ''write_registers'' (\<lambda>d. nd_write_registers W (nd_primary_thread d) block d) s"

definition nb_read_memory :: "'w win32 \<Rightarrow> u64 \<Rightarrow> u64 \<Rightarrow> 'w native \<Rightarrow> bytes result \<times> 'w native" where
  "nb_read_memory W addr len s = with_dbg ''read_memory'' (nd_read_memory W addr len) s"

definition nb_write_memory :: "'w win32 \<Rightarrow> u64 \<Rightarrow> bytes \<Rightarrow> 'w native \<Rightarrow> unit result \<times> 'w native" where
  "nb_write_memory W addr data s = with_dbg ''write_memory'' (nd_write_memory W addr data) s"

definition nb_maps :: "'w win32 \<Rightarrow> 'w native \<Rightarrow> mem_map list result \<times> 'w native" where
  "nb_maps W s =
     with_dbg ''maps'' (and_then (nd_maps W) (\<lambda>ms. give
       (map (\<lambda>m. \<lparr>mm_start = hm_start m, mm_end = hm_end m, mm_perms = hm_perms m, mm_name = hm_name m\<rparr>) ms))) s"

definition nb_modules :: "'w win32 \<Rightarrow> 'w native \<Rightarrow> module_info list result \<times> 'w native" where
  "nb_modules W s =
     with_dbg ''modules'' (and_then (nd_modules W) (\<lambda>ms. give
       (map (\<lambda>m. \<lparr>mod_base = ho_base m, mod_size = ho_size m, mod_name = ho_name m\<rparr>) ms))) s"

fun threads_loop ::
    "'w win32 \<Rightarrow> u32 \<Rightarrow> u32 list \<Rightarrow> thread_info list \<Rightarrow> debuggee \<Rightarrow> 'w \<Rightarrow>
     thread_info list result \<times> debuggee \<times> 'w" where
  "threads_loop W primary [] out d w = (Ok out, d, w)"
| "threads_loop W primary (t # ts) out d w =
     (if t = primary then
        (case nd_read_registers W t d w of
           (Err e, d1, w1) \<Rightarrow>
             threads_loop W primary ts (out @ [\<lparr>ti_tid = t, ti_pc = 0, ti_current = True\<rparr>]) d1 w1
         | (Ok block, d1, w1) \<Rightarrow>
             threads_loop W primary ts
               (out @ [\<lparr>ti_tid = t, ti_pc = u64_of_bytes (take 8 (drop kRipOffset block)),
                        ti_current = True\<rparr>]) d1 w1)
      else threads_loop W primary ts (out @ [\<lparr>ti_tid = t, ti_pc = 0, ti_current = False\<rparr>]) d w)"

definition nb_threads :: "'w win32 \<Rightarrow> 'w native \<Rightarrow> thread_info list result \<times> 'w native" where
  "nb_threads W s =
     with_dbg ''threads''
       (and_then (nd_threads W) (\<lambda>ts d. threads_loop W (nd_primary_thread d) ts [] d)) s"

section \<open>Breakpoints\<close>

definition set_software_bp :: "'w win32 \<Rightarrow> u64 \<Rightarrow> 'w native \<Rightarrow> unit result \<times> 'w native" where
  "set_software_bp W addr s =
     (case with_dbg ''set_breakpoint'' (nd_read_memory W addr 1) s of
        (Err e, s1) \<Rightarrow> (Err e, s1)
      | (Ok original, s1) \<Rightarrow>
          let s2 = s1\<lparr>nb_sw_bp_orig := om_put addr (original ! 0) (nb_sw_bp_orig s1)\<rparr> in
          with_dbg ''set_breakpoint'' (nd_write_memory W addr [kSoftwareBpOpcode]) s2)"

definition set_hardware_bp :: "'w win32 \<Rightarrow> u64 \<Rightarrow> 'w native \<Rightarrow> unit result \<times> 'w native" where
  "set_hardware_bp W addr s =
     (if nb_next_hw_slot s > 3 then (Err ''NativeBackend: no free hardware breakpoint slot'', s)
      else
        let slot = nb_next_hw_slot s; s1 = s\<lparr>nb_next_hw_slot := slot + 1\<rparr> in
        case with_dbg ''set_breakpoint'' (nd_set_hw_exec_bp W slot addr) s1 of
          (Err e, s2) \<Rightarrow> (Err e, s2)
        | (Ok _, s2) \<Rightarrow> (Ok (), s2\<lparr>nb_hw_bp_slot := om_put addr slot (nb_hw_bp_slot s2)\<rparr>))"

definition nb_set_breakpoint ::
    "'w win32 \<Rightarrow> bp_kind \<Rightarrow> u64 \<Rightarrow> int \<Rightarrow> 'w native \<Rightarrow> unit result \<times> 'w native" where
  "nb_set_breakpoint W kind addr sz s =
     (if nb_dbg s = None then (Err ''NativeBackend: set_breakpoint called without an attached target'', s)
      else
        case kind of
          SoftwareExec \<Rightarrow> set_software_bp W addr s
        | HardwareExec \<Rightarrow> set_hardware_bp W addr s
        | WriteWatch \<Rightarrow> (Err ''watchpoint not implemented'', s)
        | ReadWatch \<Rightarrow> (Err ''watchpoint not implemented'', s)
        | AccessWatch \<Rightarrow> (Err ''watchpoint not implemented'', s))"

definition remove_software_bp :: "'w win32 \<Rightarrow> u64 \<Rightarrow> 'w native \<Rightarrow> unit result \<times> 'w native" where
  "remove_software_bp W addr s =
     (case map_of (nb_sw_bp_orig s) addr of
        None \<Rightarrow> (Err ''NativeBackend: no software breakpoint planted at address'', s)
      | Some original \<Rightarrow>
          (case with_dbg ''remove_breakpoint'' (nd_write_memory W addr [original]) s of
             (Err e, s1) \<Rightarrow> (Err e, s1)
           | (Ok _, s1) \<Rightarrow> (Ok (), s1\<lparr>nb_sw_bp_orig := om_erase addr (nb_sw_bp_orig s1)\<rparr>)))"

definition remove_hardware_bp :: "'w win32 \<Rightarrow> u64 \<Rightarrow> 'w native \<Rightarrow> unit result \<times> 'w native" where
  "remove_hardware_bp W addr s =
     (case map_of (nb_hw_bp_slot s) addr of
        None \<Rightarrow> (Err ''NativeBackend: no hardware breakpoint at address'', s)
      | Some slot \<Rightarrow>
          (case with_dbg ''remove_breakpoint'' (nd_clear_hw_bp W slot) s of
             (Err e, s1) \<Rightarrow> (Err e, s1)
           | (Ok _, s1) \<Rightarrow> (Ok (), s1\<lparr>nb_hw_bp_slot := om_erase addr (nb_hw_bp_slot s1)\<rparr>)))"

definition nb_remove_breakpoint ::
    "'w win32 \<Rightarrow> bp_kind \<Rightarrow> u64 \<Rightarrow> int \<Rightarrow> 'w native \<Rightarrow> unit result \<times> 'w native" where
  "nb_remove_breakpoint W kind addr sz s =
     (if nb_dbg s = None then (Err ''NativeBackend: remove_breakpoint called without an attached target'', s)
      else
        case kind of
          SoftwareExec \<Rightarrow> remove_software_bp W addr s
        | HardwareExec \<Rightarrow> remove_hardware_bp W addr s
        | WriteWatch \<Rightarrow> (Err ''watchpoint not implemented'', s)
        | ReadWatch \<Rightarrow> (Err ''watchpoint not implemented'', s)
        | AccessWatch \<Rightarrow> (Err ''watchpoint not implemented'', s))"

definition nb_caps :: backend_caps where
  "nb_caps = \<lparr>can_step = True, has_hw_bp = True, clean_dr = False, thread_aware = True,
               modules_native = True\<rparr>"

text \<open>
  The class as a value of the interface.  Where the drain loop of \<open>attach\<close> needs more
  than the fuel, the result of \<open>be_attach\<close> is unspecified.
\<close>

definition native_backend_ops :: "'w win32 \<Rightarrow> nat \<Rightarrow> 'w native backend_ops" where
  "native_backend_ops W fuel =
     \<lparr>be_attach = (\<lambda>spec s. the (nb_attach W fuel spec s)),
      be_detach = nb_detach W,
      be_cont = nb_cont W,
      be_step = nb_step W,
      be_request_stop = nb_request_stop W,
      be_read_registers = nb_read_registers W,
      be_write_registers = nb_write_registers W,
      be_register_profile = (\<lambda>s. make_native_x86_64_profile),
      be_read_memory = nb_read_memory W,
      be_write_memory = nb_write_memory W,
      be_maps = nb_maps W,
      be_modules = nb_modules W,
      be_threads = nb_threads W,
      be_set_breakpoint = nb_set_breakpoint W,
      be_remove_breakpoint = nb_remove_breakpoint W,
      be_caps = (\<lambda>s. nb_caps)\<rparr>"

text \<open>The factory's stand-in on other platforms: every call reports the same error.\<close>

definition unsupported :: "'b \<Rightarrow> 'a result \<times> 'b" where
  "unsupported s = (Err ''native backend: unsupported platform'', s)"

definition unsupported_backend_ops :: "'b backend_ops" where
  "unsupported_backend_ops =
     \<lparr>be_attach = (\<lambda>_. unsupported),
      be_detach = unsupported,
      be_cont = unsupported,
      be_step = unsupported,
      be_request_stop = unsupported,
      be_read_registers = unsupported,
      be_write_registers = (\<lambda>_. unsupported),
      be_register_profile = (\<lambda>_. \<lparr>rp_fields = [], rp_block_size = 0\<rparr>),
      be_read_memory = (\<lambda>_ _. unsupported),
      be_write_memory = (\<lambda>_ _. unsupported),
      be_maps = unsupported,
      be_modules = unsupported,
      be_threads = unsupported,
      be_set_breakpoint = (\<lambda>_ _ _. unsupported),
      be_remove_breakpoint = (\<lambda>_ _ _. unsupported),
      be_caps = (\<lambda>_. \<lparr>can_step = False, has_hw_bp = False, clean_dr = False, thread_aware = False,
                       modules_native = False\<rparr>)\<rparr>"

section \<open>Running the operations\<close>

lemma and_then_Err: "f d w = (Err e, d1, w1) \<Longrightarrow> and_then f g d w = (Err e, d1, w1)"
  by (simp add: and_then_def)

lemma and_then_Ok: "f d w = (Ok v, d1, w1) \<Longrightarrow> and_then f g d w = g v d1 w1"
  by (simp add: and_then_def)

lemma and_then_OkE:
  assumes "and_then f g d w = (Ok r, d2, w2)"
  obtains v d1 w1 where "f d w = (Ok v, d1, w1)" "g v d1 w1 = (Ok r, d2, w2)"
  using assms by (auto simp: and_then_def split: prod.splits result.splits)

lemma with_dbg_Some:
  "nb_dbg s = Some d \<Longrightarrow> f d (nb_world s) = (r, d1, w1) \<Longrightarrow>
   with_dbg name f s = (r, s\<lparr>nb_dbg := Some d1, nb_world := w1\<rparr>)"
  by (simp add: with_dbg_def)

lemma with_dbg_OkE:
  assumes "with_dbg name f s = (Ok r, s1)"
  obtains d d1 w1 where "nb_dbg s = Some d" "f d (nb_world s) = (Ok r, d1, w1)"
    "s1 = s\<lparr>nb_dbg := Some d1, nb_world := w1\<rparr>"
  using assms by (auto simp: with_dbg_def split: option.splits prod.splits)

text \<open>The debuggee operations that touch memory leave the debuggee as it is.\<close>

lemma nd_memory_debuggee:
  "nd_read_memory W a n d w = (r, d1, w1) \<Longrightarrow> d1 = d"
  "nd_write_memory W a bs d w = (r', d1, w1) \<Longrightarrow> d1 = d"
  by (auto simp: nd_read_memory_def nd_write_memory_def Let_def split: if_splits prod.splits option.splits)

section \<open>The process memory\<close>

text \<open>
  What the backend relies on from Win32 for the memory of a process: reading changes no
  memory and a complete read returns the bytes asked for, a complete write stores its data
  and nothing else, and flushing the instruction cache changes no memory.  Here \<open>vw w\<close> is
  the memory of the process with handle \<open>h\<close>.
\<close>

definition store_bytes :: "u64 \<Rightarrow> bytes \<Rightarrow> (u64 \<Rightarrow> byte) \<Rightarrow> (u64 \<Rightarrow> byte)" where
  "store_bytes a bs m =
     (\<lambda>x. if unat (x - a) < length bs then bs ! unat (x - a) else m x)"

definition memory_law :: "'w win32 \<Rightarrow> u64 \<Rightarrow> ('w \<Rightarrow> u64 \<Rightarrow> byte) \<Rightarrow> bool" where
  "memory_law W h vw \<longleftrightarrow>
     (\<forall>a n w r w1. w_ReadProcessMemory W h a n w = (r, w1) \<longrightarrow>
        vw w1 = vw w \<and>
        (\<forall>buf. r = Some (buf, n) \<longrightarrow> buf = map (\<lambda>i. vw w (a + word_of_nat i)) [0..<unat n])) \<and>
     (\<forall>a bs w w1. w_WriteProcessMemory W h a bs w = (Some (word_of_nat (length bs)), w1) \<longrightarrow>
        vw w1 = store_bytes a bs (vw w)) \<and>
     (\<forall>a n w ok w1. w_FlushInstructionCache W h a n w = (ok, w1) \<longrightarrow> vw w1 = vw w)"

lemma read_law:
  assumes "memory_law W (nd_process d) vw" "nd_read_memory W a n d w = (r, d1, w1)"
  shows "vw w1 = vw w" "r = Ok buf \<Longrightarrow> buf = map (\<lambda>i. vw w (a + word_of_nat i)) [0..<unat n]"
proof -
  obtain q v where q: "w_ReadProcessMemory W (nd_process d) a n w = (q, v)" by fastforce
  have law: "vw v = vw w" "q = Some (bf, n) \<Longrightarrow> bf = map (\<lambda>i. vw w (a + word_of_nat i)) [0..<unat n]" for bf
    using assms(1) q unfolding memory_law_def by blast+
  show "vw w1 = vw w"
    using assms(2) q law(1) by (auto simp: nd_read_memory_def split: if_splits option.splits)
  show "buf = map (\<lambda>i. vw w (a + word_of_nat i)) [0..<unat n]" if "r = Ok buf"
    using assms(2) q that by (intro law(2)) (auto simp: nd_read_memory_def split: if_splits option.splits)
qed

lemma write_law:
  assumes "memory_law W (nd_process d) vw" "nd_write_memory W a bs d w = (Ok (), d1, w1)"
  shows "vw w1 = store_bytes a bs (vw w)"
proof -
  obtain v ok where q: "w_WriteProcessMemory W (nd_process d) a bs w = (Some (word_of_nat (length bs)), v)"
      "w_FlushInstructionCache W (nd_process d) a (word_of_nat (length bs)) v = (ok, w1)"
    using assms(2) by (auto simp: nd_write_memory_def Let_def split: if_splits prod.splits option.splits)
  have "vw v = store_bytes a bs (vw w)" "vw w1 = vw v"
    using assms(1) q unfolding memory_law_def by blast+
  then show ?thesis by simp
qed

lemma store_bytes_1: "store_bytes a [b] m = m(a := b)"
  by (auto simp: store_bytes_def fun_eq_iff unat_eq_0)

section \<open>The backend as a source of memory\<close>

text \<open>The memory the backend shows, and the condition under which it shows it.\<close>

definition native_view :: "('w \<Rightarrow> u64 \<Rightarrow> byte) \<Rightarrow> 'w native \<Rightarrow> u64 \<Rightarrow> byte" where
  "native_view vw s = vw (nb_world s)"

lemma native_view_eq: "native_view vw s = vw (nb_world s)"
  by (simp add: native_view_def fun_eq_iff)

definition native_good :: "'w win32 \<Rightarrow> ('w \<Rightarrow> u64 \<Rightarrow> byte) \<Rightarrow> 'w native \<Rightarrow> bool" where
  "native_good W vw s \<longleftrightarrow>
     (\<exists>d. nb_dbg s = Some d \<and> nd_attached d \<and> memory_law W (nd_process d) vw)"

lemma nb_read_memory_cases:
  obtains (unattached) "nb_dbg s = None" "nb_read_memory W a n s =
      (Err ''NativeBackend: read_memory called without an attached target'', s)"
  | (attached) d r w1 where "nb_dbg s = Some d" "nd_read_memory W a n d (nb_world s) = (r, d, w1)"
      "nb_read_memory W a n s = (r, s\<lparr>nb_world := w1\<rparr>)"
proof (cases "nb_dbg s")
  case None
  then show thesis using unattached by (simp add: nb_read_memory_def with_dbg_def)
next
  case (Some d)
  obtain r d1 w1 where r: "nd_read_memory W a n d (nb_world s) = (r, d1, w1)" by (metis prod_cases3)
  then have "d1 = d" by (rule nd_memory_debuggee)
  then show thesis using attached [OF Some] r Some
    by (simp add: nb_read_memory_def with_dbg_Some)
qed

interpretation native: memory_source "native_backend_ops W fuel" "native_view vw" "native_good W vw"
  for W :: "'w win32" and fuel and vw :: "'w \<Rightarrow> u64 \<Rightarrow> byte"
proof
  fix b b1 :: "'w native" and a n r
  assume good: "native_good W vw b"
    and f: "be_read_memory (native_backend_ops W fuel) a n b = (r, b1)"
  then have f: "nb_read_memory W a n b = (r, b1)" by (simp add: native_backend_ops_def)
  show "native_good W vw b1 \<and> native_view vw b1 = native_view vw b"
    by (cases rule: nb_read_memory_cases [of b W a n])
      (use good f in \<open>auto simp: native_good_def native_view_def dest: read_law(1)\<close>)
next
  fix b b1 :: "'w native" and a n d
  assume good: "native_good W vw b"
    and f: "be_read_memory (native_backend_ops W fuel) a n b = (Ok d, b1)"
  then have f: "nb_read_memory W a n b = (Ok d, b1)" by (simp add: native_backend_ops_def)
  show "d = map (\<lambda>i. native_view vw b (a + word_of_nat i)) [0..<unat n]"
    by (cases rule: nb_read_memory_cases [of b W a n])
      (use good f in \<open>auto simp: native_good_def native_view_def dest: read_law(2)\<close>)
qed

section \<open>Software breakpoints and the memory\<close>

lemma set_software_bp_OkE:
  assumes "set_software_bp W addr s = (Ok (), s1)" "nb_dbg s = Some d" "memory_law W (nd_process d) vw"
  shows "nb_dbg s1 = Some d" "native_view vw s1 = (native_view vw s)(addr := kSoftwareBpOpcode)"
    "nb_sw_bp_orig s1 = om_put addr (native_view vw s addr) (nb_sw_bp_orig s)"
    "nb_next_hw_slot s1 = nb_next_hw_slot s" "nb_hw_bp_slot s1 = nb_hw_bp_slot s"
proof -
  obtain buf d1 w1 where "nd_read_memory W addr 1 d (nb_world s) = (Ok buf, d1, w1)"
    using assms(1,2) by (auto simp: set_software_bp_def with_dbg_def split: prod.splits result.splits)
  then have rd: "nd_read_memory W addr 1 d (nb_world s) = (Ok buf, d, w1)"
    using nd_memory_debuggee(1) by metis
  note law = read_law [OF assms(3) rd]
  have buf: "buf ! 0 = vw (nb_world s) addr" using law(2) [OF refl] by simp
  obtain d2 w2 where wr: "nd_write_memory W addr [kSoftwareBpOpcode] d w1 = (Ok (), d2, w2)"
      "s1 = s\<lparr>nb_sw_bp_orig := om_put addr (buf ! 0) (nb_sw_bp_orig s), nb_dbg := Some d2, nb_world := w2\<rparr>"
    using assms(1,2) rd by (auto simp: set_software_bp_def with_dbg_def split: prod.splits)
  have d2: "d2 = d" by (rule nd_memory_debuggee(2) [OF wr(1)])
  have "vw w2 = (vw (nb_world s))(addr := kSoftwareBpOpcode)"
    unfolding write_law [OF assms(3) wr(1)] law(1) store_bytes_1 ..
  with wr(2) buf d2 show "nb_dbg s1 = Some d" "native_view vw s1 = (native_view vw s)(addr := kSoftwareBpOpcode)"
    "nb_sw_bp_orig s1 = om_put addr (native_view vw s addr) (nb_sw_bp_orig s)"
    "nb_next_hw_slot s1 = nb_next_hw_slot s" "nb_hw_bp_slot s1 = nb_hw_bp_slot s"
    unfolding native_view_eq by simp_all
qed

lemma remove_software_bp_OkE:
  assumes "remove_software_bp W addr s = (Ok (), s1)" "nb_dbg s = Some d" "memory_law W (nd_process d) vw"
  shows "\<exists>b. map_of (nb_sw_bp_orig s) addr = Some b \<and> nb_dbg s1 = Some d \<and>
    native_view vw s1 = (native_view vw s)(addr := b) \<and>
    nb_sw_bp_orig s1 = om_erase addr (nb_sw_bp_orig s)"
proof -
  obtain b d1 w1 where b: "map_of (nb_sw_bp_orig s) addr = Some b"
      "nd_write_memory W addr [b] d (nb_world s) = (Ok (), d1, w1)"
      "s1 = s\<lparr>nb_dbg := Some d1, nb_world := w1, nb_sw_bp_orig := om_erase addr (nb_sw_bp_orig s)\<rparr>"
    using assms(1,2)
    by (auto simp: remove_software_bp_def with_dbg_def split: option.splits prod.splits result.splits)
  have "d1 = d" by (rule nd_memory_debuggee(2) [OF b(2)])
  have "vw w1 = (vw (nb_world s))(addr := b)"
    using write_law [OF assms(3) b(2)] by (simp add: store_bytes_1)
  with b \<open>d1 = d\<close> show ?thesis unfolding native_view_eq by simp
qed

section \<open>The process handle never changes\<close>

lemma nd_same_process:
  "nd_wait_event W ms d w = (r1, d1, w1) \<Longrightarrow> nd_process d1 = nd_process d"
  "nd_resume W d w = (r2, d1, w1) \<Longrightarrow> nd_process d1 = nd_process d"
  "nd_resume_single_step W d w = (r2, d1, w1) \<Longrightarrow> nd_process d1 = nd_process d"
  "nd_read_registers W tid d w = (r3, d1, w1) \<Longrightarrow> nd_process d1 = nd_process d"
  "nd_write_registers W tid blk d w = (r2, d1, w1) \<Longrightarrow> nd_process d1 = nd_process d"
  by (auto simp: nd_wait_event_def nd_resume_def nd_resume_single_step_def nd_read_registers_def
      nd_write_registers_def Let_def split: if_splits prod.splits option.splits result.splits)

text \<open>Writing the program counter into the block of a context gives the block of the context with that
  program counter.\<close>

lemma write_rip_context: "write_rip (context_to_block ctx) a = context_to_block (ctx\<lparr>c_rip := a\<rparr>)"
  by (simp add: write_rip_def register_block_length kRipOffset_def)
    (simp add: context_to_block_eq context_slots_def)

lemma nd_read_registers_OkE:
  assumes "nd_read_registers W tid d w = (Ok blk, d1, w1)"
  obtains ctx where "blk = context_to_block ctx"
  using assms by (auto simp: nd_read_registers_def Let_def split: if_splits prod.splits option.splits)

text \<open>
  The steps of a completed recovery: the program counter goes back to the breakpoint, the byte it
  replaced is in memory when the process makes its step, and the breakpoint instruction after it.
\<close>

lemma rearm_OkE:
  assumes "rearm W ev original d w = (Ok (), d1, w1)" "memory_law W (nd_process d) vw"
  obtains ctx da wa db wb dc wc dd wd where
    "nd_read_registers W (nd_primary_thread d) d w = (Ok (context_to_block ctx), da, wa)"
    "nd_write_registers W (nd_primary_thread d) (context_to_block (ctx\<lparr>c_rip := ev_address ev\<rparr>)) da wa = (Ok (), db, wb)"
    "nd_write_memory W (ev_address ev) [original] db wb = (Ok (), dc, wc)"
    "vw wc (ev_address ev) = original"
    "nd_resume_single_step W dc wc = (Ok (), dd, wd)"
    "vw w1 (ev_address ev) = kSoftwareBpOpcode"
proof -
  let ?tid = "nd_primary_thread d"
  from assms(1) obtain blk da wa u db wb dc wc dd wd ev2 de we where
    a: "nd_read_registers W ?tid d w = (Ok blk, da, wa)" and
    b: "nd_write_registers W ?tid (write_rip blk (ev_address ev)) da wa = (Ok u, db, wb)" and
    c: "nd_write_memory W (ev_address ev) [original] db wb = (Ok (), dc, wc)" and
    d: "nd_resume_single_step W dc wc = (Ok (), dd, wd)" and
    e: "nd_wait_event W (-1) dd wd = (Ok ev2, de, we)" and
    f: "nd_write_memory W (ev_address ev) [kSoftwareBpOpcode] de we = (Ok (), d1, w1)"
    unfolding rearm_def Let_def by (elim and_then_OkE) simp
  obtain ctx where blk: "blk = context_to_block ctx" using a by (rule nd_read_registers_OkE)
  have db: "nd_process db = nd_process d"
    using nd_same_process(4) [OF a] nd_same_process(5) [OF b] by simp
  then have de: "nd_process de = nd_process d"
    using nd_memory_debuggee(2) [OF c] nd_same_process(3) [OF d] nd_same_process(1) [OF e] by simp
  have "vw wc (ev_address ev) = original"
    using write_law [OF _ c] assms(2) db by (simp add: store_bytes_1)
  moreover have "vw w1 (ev_address ev) = kSoftwareBpOpcode"
    using write_law [OF _ f] assms(2) de by (simp add: store_bytes_1)
  ultimately show thesis
    using that a b c d unfolding blk write_rip_context by simp
qed

lemma nb_cont_OkE:
  assumes "nb_cont W s = (Ok r, s1)"
  obtains d ev da wa db wb dc wc where "nb_dbg s = Some d"
    "nd_resume W d (nb_world s) = (Ok (), da, wa)" "nd_wait_event W (-1) da wa = (Ok ev, db, wb)"
    "r = stop_of_event ev" "s1 = s\<lparr>nb_dbg := Some dc, nb_world := wc\<rparr>"
    "(if ev_kind ev = EvBreakpoint then map_of (nb_sw_bp_orig s) (ev_address ev) else None) = None \<and>
       dc = db \<and> wc = wb \<or>
     (\<exists>original. map_of (nb_sw_bp_orig s) (ev_address ev) = Some original \<and> ev_kind ev = EvBreakpoint \<and>
        rearm W ev original db wb = (Ok (), dc, wc))"
proof -
  from assms obtain d dc wc where d: "nb_dbg s = Some d"
      "and_then (nd_resume W) (\<lambda>_. and_then (nd_wait_event W (-1))
         (\<lambda>ev. translate_stop_and_rearm W (nb_sw_bp_orig s) ev)) d (nb_world s) = (Ok r, dc, wc)"
      "s1 = s\<lparr>nb_dbg := Some dc, nb_world := wc\<rparr>"
    unfolding nb_cont_def by (elim with_dbg_OkE) simp
  from d(2) obtain u da wa ev db wb where ops: "nd_resume W d (nb_world s) = (Ok u, da, wa)"
      "nd_wait_event W (-1) da wa = (Ok ev, db, wb)"
      "translate_stop_and_rearm W (nb_sw_bp_orig s) ev db wb = (Ok r, dc, wc)"
    by (elim and_then_OkE) simp
  show thesis
  proof (cases "if ev_kind ev = EvBreakpoint then map_of (nb_sw_bp_orig s) (ev_address ev) else None")
    case None
    with ops(3) have "r = stop_of_event ev" "dc = db" "wc = wb"
      by (simp_all add: translate_stop_and_rearm_def give_def)
    with that [OF d(1) _ _ _ d(3)] ops None show thesis by simp
  next
    case (Some original)
    then have bp: "ev_kind ev = EvBreakpoint" "map_of (nb_sw_bp_orig s) (ev_address ev) = Some original"
      by (simp_all split: if_splits)
    from ops(3) Some have "and_then (rearm W ev original) (\<lambda>_. give (stop_of_event ev)) db wb = (Ok r, dc, wc)"
      by (simp add: translate_stop_and_rearm_def)
    then have "r = stop_of_event ev" "rearm W ev original db wb = (Ok (), dc, wc)"
      by (auto elim!: and_then_OkE simp: give_def)
    with that [OF d(1) _ _ _ d(3)] ops bp show thesis by simp
  qed
qed

section \<open>Hardware slots\<close>

text \<open>Requests for hardware breakpoints, as a client makes them one after the other.\<close>

datatype hw_request = PlantHw u64 | LiftHw u64

fun run_hw :: "'w win32 \<Rightarrow> hw_request list \<Rightarrow> 'w native \<Rightarrow> 'w native" where
  "run_hw W [] s = s"
| "run_hw W (PlantHw a # rs) s = run_hw W rs (snd (nb_set_breakpoint W HardwareExec a 1 s))"
| "run_hw W (LiftHw a # rs) s = run_hw W rs (snd (nb_remove_breakpoint W HardwareExec a 1 s))"

fun plants :: "hw_request list \<Rightarrow> nat" where
  "plants [] = 0"
| "plants (PlantHw a # rs) = Suc (plants rs)"
| "plants (LiftHw a # rs) = plants rs"

lemma with_dbg_keeps:
  "with_dbg name f s = (r, s1) \<Longrightarrow> nb_next_hw_slot s1 = nb_next_hw_slot s \<and> nb_hw_bp_slot s1 = nb_hw_bp_slot s \<and>
     nb_sw_bp_orig s1 = nb_sw_bp_orig s \<and> (nb_dbg s1 = None \<longleftrightarrow> nb_dbg s = None)"
  by (auto simp: with_dbg_def split: option.splits prod.splits)

lemma plant_slot:
  "nb_dbg s \<noteq> None \<Longrightarrow> nb_next_hw_slot s \<le> 3 \<Longrightarrow> nb_set_breakpoint W HardwareExec a n s = (r, s1) \<Longrightarrow>
   nb_next_hw_slot s1 = nb_next_hw_slot s + 1 \<and> nb_dbg s1 \<noteq> None"
  by (auto simp: nb_set_breakpoint_def set_hardware_bp_def Let_def split: prod.splits result.splits
      dest!: with_dbg_keeps)

lemma plant_full:
  "nb_dbg s \<noteq> None \<Longrightarrow> 3 < nb_next_hw_slot s \<Longrightarrow>
   nb_set_breakpoint W HardwareExec a n s = (Err ''NativeBackend: no free hardware breakpoint slot'', s)"
  by (simp add: nb_set_breakpoint_def set_hardware_bp_def)

lemma lift_slot:
  "nb_remove_breakpoint W HardwareExec a n s = (r, s1) \<Longrightarrow>
   nb_next_hw_slot s1 = nb_next_hw_slot s \<and> (nb_dbg s1 = None \<longleftrightarrow> nb_dbg s = None)"
  by (auto simp: nb_remove_breakpoint_def remove_hardware_bp_def
      split: prod.splits result.splits option.splits if_splits dest!: with_dbg_keeps)

lemma run_hw_slots:
  "nb_dbg s \<noteq> None \<Longrightarrow> nb_next_hw_slot s \<le> 4 \<Longrightarrow>
   nb_dbg (run_hw W rs s) \<noteq> None \<and>
   nb_next_hw_slot (run_hw W rs s) = min 4 (nb_next_hw_slot s + int (plants rs))"
proof (induction rs arbitrary: s)
  case (Cons q rs)
  show ?case
  proof (cases q)
    case (PlantHw a)
    obtain r s1 where q: "nb_set_breakpoint W HardwareExec a 1 s = (r, s1)" by fastforce
    show ?thesis
    proof (cases "nb_next_hw_slot s \<le> 3")
      case True
      with plant_slot [OF Cons.prems(1) True q] Cons.IH [of s1] PlantHw q show ?thesis by simp
    next
      case False
      with plant_full [OF Cons.prems(1), of W a 1] Cons q PlantHw show ?thesis by simp
    qed
  next
    case (LiftHw a)
    obtain r s1 where q: "nb_remove_breakpoint W HardwareExec a 1 s = (r, s1)" by fastforce
    with lift_slot [OF q] Cons.IH [of s1] Cons.prems LiftHw show ?thesis by simp
  qed
qed simp

section \<open>The end of the drain\<close>

text \<open>\<open>quiet_after W n d w\<close>: at most \<open>n\<close> events arrive before none does, each resumed without error or not.\<close>

fun quiet_after :: "'w win32 \<Rightarrow> nat \<Rightarrow> debuggee \<Rightarrow> 'w \<Rightarrow> bool" where
  "quiet_after W n d w =
     (case nd_wait_event W kAttachDrainTimeoutMs d w of
        (Err e, d1, w1) \<Rightarrow> True
      | (Ok ev, d1, w1) \<Rightarrow>
          (case n of 0 \<Rightarrow> False
           | Suc m \<Rightarrow> (case nd_resume W d1 w1 of (Err e, d2, w2) \<Rightarrow> True | (Ok _, d2, w2) \<Rightarrow> quiet_after W m d2 w2)))"

declare quiet_after.simps [simp del]

lemma attach_drain_ends: "quiet_after W n d w \<Longrightarrow> n < fuel \<Longrightarrow> \<exists>r. attach_drain W fuel d w = Some r"
proof (induction n arbitrary: fuel d w)
  case 0
  then obtain f where "fuel = Suc f" by (cases fuel) auto
  with 0 show ?case by (subst (asm) quiet_after.simps) (auto split: prod.splits result.splits)
next
  case (Suc n)
  then obtain f where f: "fuel = Suc f" "n < f" by (cases fuel) auto
  from Suc.prems(1) show ?case
    using Suc.IH f by (subst (asm) quiet_after.simps) (auto split: prod.splits result.splits)
qed

section \<open>A process to test with\<close>

text \<open>
  A small machine for the concrete instances below: one thread, flat memory and a queue of
  events to report.
\<close>

record sim =
  sim_mem :: "u64 \<Rightarrow> byte"
  sim_events :: "debug_event list"
  sim_ctx :: thread_context

definition sim_win32 :: "sim win32" where
  "sim_win32 =
     \<lparr>w_GetLastError = (\<lambda>w. 5),
      w_DebugActiveProcess = (\<lambda>p w. (True, w)),
      w_DebugSetProcessKillOnExit = (\<lambda>b w. w),
      w_OpenProcess = (\<lambda>a p w. (4, w)),
      w_DebugActiveProcessStop = (\<lambda>p w. (True, w)),
      w_WaitForDebugEvent = (\<lambda>t w. case sim_events w of [] \<Rightarrow> (None, w)
        | e # es \<Rightarrow> (Some e, w\<lparr>sim_events := es\<rparr>)),
      w_ContinueDebugEvent = (\<lambda>p t s w. (True, w)),
      w_OpenThread = (\<lambda>a t w. (8, w)),
      w_CloseHandle = (\<lambda>h w. w),
      w_GetThreadContext = (\<lambda>h c w. (Some (sim_ctx w), w)),
      w_SetThreadContext = (\<lambda>h c w. (True, w\<lparr>sim_ctx := c\<rparr>)),
      w_DebugBreakProcess = (\<lambda>h w. (True, w)),
      w_ReadProcessMemory = (\<lambda>h a n w.
        (Some (map (\<lambda>i. sim_mem w (a + word_of_nat i)) [0..<unat n], n), w)),
      w_WriteProcessMemory = (\<lambda>h a bs w.
        (Some (word_of_nat (length bs)), w\<lparr>sim_mem := store_bytes a bs (sim_mem w)\<rparr>)),
      w_FlushInstructionCache = (\<lambda>h a n w. (True, w)),
      w_VirtualQueryEx = (\<lambda>h a w. (None, w)),
      w_EnumProcessModulesEx = (\<lambda>h n w. (Some ([], 0), w)),
      w_GetModuleInformation = (\<lambda>h m w. (None, w)),
      w_GetModuleFileNameExA = (\<lambda>h m w. ([], w)),
      w_CreateToolhelp32Snapshot = (\<lambda>w. (None, w)),
      w_SnapshotThreads = (\<lambda>h w. ([], w))\<rparr>"

definition sim_native :: "debug_event list \<Rightarrow> sim native" where
  "sim_native es =
     (native_init \<lparr>sim_mem = (\<lambda>a. 0x90), sim_events = es, sim_ctx = context_zero\<rparr>)
     \<lparr>nb_dbg := Some \<lparr>nd_pid = 1, nd_process = 4, nd_attached = True, nd_has_pending = True,
        nd_pending = debug_event_zero, nd_primary_tid = 1\<rparr>\<rparr>"

lemma sim_law: "memory_law sim_win32 h sim_mem"
  by (simp add: memory_law_def sim_win32_def)

lemma sim_read: "nd_attached d \<Longrightarrow>
   nd_read_memory sim_win32 a n d w = (Ok (map (\<lambda>i. sim_mem w (a + word_of_nat i)) [0..<unat n]), d, w)"
  by (simp add: nd_read_memory_def sim_win32_def)

lemma sim_write: "nd_attached d \<Longrightarrow>
   nd_write_memory sim_win32 a bs d w = (Ok (), d, w\<lparr>sim_mem := store_bytes a bs (sim_mem w)\<rparr>)"
  by (simp add: nd_write_memory_def sim_win32_def)

lemma sim_set:
  assumes "nb_dbg s = Some d" "nd_attached d"
  obtains s1 where "nb_set_breakpoint sim_win32 SoftwareExec a n s = (Ok (), s1)" "nb_dbg s1 = Some d"
    "nb_sw_bp_orig s1 = om_put a (sim_mem (nb_world s) a) (nb_sw_bp_orig s)"
  using assms by (simp add: nb_set_breakpoint_def set_software_bp_def with_dbg_def sim_read sim_write)

lemma sim_remove:
  assumes "nb_dbg s = Some d" "nd_attached d" "map_of (nb_sw_bp_orig s) a = Some b"
  obtains s1 where "nb_remove_breakpoint sim_win32 SoftwareExec a n s = (Ok (), s1)"
  using assms by (simp add: nb_remove_breakpoint_def remove_software_bp_def with_dbg_def sim_write)

lemma sim_readable:
  "native_good sim_win32 sim_mem b \<Longrightarrow>
   \<exists>d b1. be_read_memory (native_backend_ops sim_win32 fuel) a n b = (Ok d, b1) \<and> native_good sim_win32 sim_mem b1"
  by (auto simp: native_good_def native_backend_ops_def nb_read_memory_def with_dbg_def sim_read)

section \<open>Properties\<close>

text \<open>C11: Planting a software breakpoint replaces one byte of the process by the breakpoint opcode and
  nothing else; removing it restores the memory and the bookkeeping exactly.\<close>

theorem software_breakpoint_round_trip:
  assumes "nb_dbg s = Some d" "memory_law W (nd_process d) vw" "om_ok (nb_sw_bp_orig s)"
    and "map_of (nb_sw_bp_orig s) addr = None"
    and "nb_set_breakpoint W SoftwareExec addr n s = (Ok (), s1)"
    and "nb_remove_breakpoint W SoftwareExec addr n s1 = (Ok (), s2)"
  shows "native_view vw s1 = (native_view vw s)(addr := kSoftwareBpOpcode) \<and>
    native_view vw s2 = native_view vw s \<and>
    map_of (nb_sw_bp_orig s2) = map_of (nb_sw_bp_orig s)"
proof -
  have set: "set_software_bp W addr s = (Ok (), s1)"
    using assms(1,5) by (simp add: nb_set_breakpoint_def)
  note p = set_software_bp_OkE [OF set assms(1,2)]
  have rem: "remove_software_bp W addr s1 = (Ok (), s2)"
    using p(1) assms(6) by (simp add: nb_remove_breakpoint_def)
  obtain b where b: "map_of (nb_sw_bp_orig s1) addr = Some b"
    "native_view vw s2 = (native_view vw s1)(addr := b)"
    "nb_sw_bp_orig s2 = om_erase addr (nb_sw_bp_orig s1)"
    using remove_software_bp_OkE [OF rem p(1) assms(2)] by blast
  have "b = native_view vw s addr"
    using b(1) p(3) assms(3) by (simp add: om.find_put_same)
  moreover have "map_of (nb_sw_bp_orig s2) = map_of (nb_sw_bp_orig s)"
    unfolding b(3) p(3) using om.erase_put [OF assms(3)] assms(4) by (simp add: fun_upd_idem)
  ultimately show ?thesis using p(2) b(2) by simp
qed

theorem software_breakpoint_round_trip_witness:
  "\<exists>s1 s2. nb_set_breakpoint sim_win32 SoftwareExec 0x1000 1 (sim_native []) = (Ok (), s1) \<and>
     nb_remove_breakpoint sim_win32 SoftwareExec 0x1000 1 s1 = (Ok (), s2) \<and>
     native_view sim_mem s1 0x1000 = kSoftwareBpOpcode \<and> native_view sim_mem s2 = native_view sim_mem (sim_native [])"
proof -
  obtain d where d: "nb_dbg (sim_native []) = Some d" "nd_attached d"
    by (simp add: sim_native_def)
  obtain s1 where s1: "nb_set_breakpoint sim_win32 SoftwareExec 0x1000 1 (sim_native []) = (Ok (), s1)"
    "nb_dbg s1 = Some d"
    "nb_sw_bp_orig s1 = om_put 0x1000 (sim_mem (nb_world (sim_native [])) 0x1000) (nb_sw_bp_orig (sim_native []))"
    by (rule sim_set [OF d])
  have planted: "map_of (nb_sw_bp_orig s1) 0x1000 = Some 0x90"
    unfolding s1(3) by (simp add: sim_native_def native_init_def)
  obtain s2 where s2: "nb_remove_breakpoint sim_win32 SoftwareExec 0x1000 1 s1 = (Ok (), s2)"
    by (rule sim_remove [OF s1(2) d(2) planted])
  show ?thesis
    using software_breakpoint_round_trip [OF d(1) sim_law _ _ s1(1) s2] s1(1) s2
    by (simp add: sim_native_def native_init_def)
qed

text \<open>Planting a software breakpoint twice at one address loses the original byte: the second call
  saves the opcode of the first, so the one removal that is then possible leaves the opcode in
  the process with nothing planted on record.\<close>

theorem double_plant_loses_byte:
  assumes "nb_dbg s = Some d" "memory_law W (nd_process d) vw" "om_ok (nb_sw_bp_orig s)"
    and "nb_set_breakpoint W SoftwareExec addr n s = (Ok (), s1)"
    and "nb_set_breakpoint W SoftwareExec addr n s1 = (Ok (), s2)"
    and "nb_remove_breakpoint W SoftwareExec addr n s2 = (Ok (), s3)"
  shows "native_view vw s3 addr = kSoftwareBpOpcode \<and>
    nb_remove_breakpoint W SoftwareExec addr n s3 =
      (Err ''NativeBackend: no software breakpoint planted at address'', s3)"
proof -
  have set: "set_software_bp W addr s = (Ok (), s1)"
    using assms(1,4) by (simp add: nb_set_breakpoint_def)
  note p = set_software_bp_OkE [OF set assms(1,2)]
  have set2: "set_software_bp W addr s1 = (Ok (), s2)"
    using p(1) assms(5) by (simp add: nb_set_breakpoint_def)
  note q = set_software_bp_OkE [OF set2 p(1) assms(2)]
  have rem: "remove_software_bp W addr s2 = (Ok (), s3)"
    using q(1) assms(6) by (simp add: nb_remove_breakpoint_def)
  obtain b where b: "map_of (nb_sw_bp_orig s2) addr = Some b" "nb_dbg s3 = Some d"
    "native_view vw s3 = (native_view vw s2)(addr := b)"
    "nb_sw_bp_orig s3 = om_erase addr (nb_sw_bp_orig s2)"
    using remove_software_bp_OkE [OF rem q(1) assms(2)] by blast
  have ok: "om_ok (nb_sw_bp_orig s1)" unfolding p(3) using assms(3) by (rule om.ok_put)
  have "b = kSoftwareBpOpcode"
    using b(1) q(3) p(2) ok by (simp add: om.find_put_same)
  moreover have "map_of (nb_sw_bp_orig s3) addr = None"
    unfolding b(4) q(3) using om.erase_put [OF ok] by simp
  ultimately show ?thesis
    using b(2,3) by (simp add: nb_remove_breakpoint_def remove_software_bp_def)
qed

theorem double_plant_loses_byte_witness:
  "\<exists>s1 s2 s3. nb_set_breakpoint sim_win32 SoftwareExec 0x1000 1 (sim_native []) = (Ok (), s1) \<and>
     nb_set_breakpoint sim_win32 SoftwareExec 0x1000 1 s1 = (Ok (), s2) \<and>
     nb_remove_breakpoint sim_win32 SoftwareExec 0x1000 1 s2 = (Ok (), s3) \<and>
     native_view sim_mem (sim_native []) 0x1000 = 0x90 \<and> native_view sim_mem s3 0x1000 = kSoftwareBpOpcode"
proof -
  obtain d where d: "nb_dbg (sim_native []) = Some d" "nd_attached d"
    by (simp add: sim_native_def)
  obtain s1 where s1: "nb_set_breakpoint sim_win32 SoftwareExec 0x1000 1 (sim_native []) = (Ok (), s1)"
    "nb_dbg s1 = Some d"
    "nb_sw_bp_orig s1 = om_put 0x1000 (sim_mem (nb_world (sim_native [])) 0x1000) (nb_sw_bp_orig (sim_native []))"
    by (rule sim_set [OF d])
  obtain s2 where s2: "nb_set_breakpoint sim_win32 SoftwareExec 0x1000 1 s1 = (Ok (), s2)" "nb_dbg s2 = Some d"
    "nb_sw_bp_orig s2 = om_put 0x1000 (sim_mem (nb_world s1) 0x1000) (nb_sw_bp_orig s1)"
    by (rule sim_set [OF s1(2) d(2)])
  obtain b where planted: "map_of (nb_sw_bp_orig s2) 0x1000 = Some b"
    unfolding s2(3) s1(3) by (simp add: sim_native_def native_init_def)
  obtain s3 where s3: "nb_remove_breakpoint sim_win32 SoftwareExec 0x1000 1 s2 = (Ok (), s3)"
    by (rule sim_remove [OF s2(2) d(2) planted])
  have "om_ok (nb_sw_bp_orig (sim_native []))" "native_view sim_mem (sim_native []) 0x1000 = 0x90"
    by (simp_all add: sim_native_def native_init_def native_view_def)
  with double_plant_loses_byte [OF d(1) sim_law _ s1(1) s2(1) s3] s1(1) s2(1) s3
  show ?thesis by blast
qed

text \<open>C12: When the process, continued, hits a planted breakpoint, the stop that is reported is a breakpoint
  at its address; to get there the program counter of the thread was set back to that address and
  the instruction was stepped over with the original byte in place, and when the call returns the breakpoint
  opcode is back in the process and the breakpoint still on record.\<close>

theorem stop_at_breakpoint_rearms:
  assumes "nb_dbg s = Some d" "nd_resume W d (nb_world s) = (Ok (), d1, w1)"
    and "w_WaitForDebugEvent W (word_of_int (-1)) w1 = (Some de, w2)"
    and "de_info de = ExceptionInfo EXCEPTION_BREAKPOINT a" "map_of (nb_sw_bp_orig s) a = Some original"
    and "memory_law W (nd_process d) vw" "nb_cont W s = (Ok r, s1)"
  shows "sr_kind r = Breakpoint \<and> sr_pc r = a \<and>
    native_view vw s1 a = kSoftwareBpOpcode \<and> nb_sw_bp_orig s1 = nb_sw_bp_orig s \<and>
    (\<exists>d2 ctx da wa db wb dc wc dd wd.
       nd_read_registers W (de_tid de) d2 w2 = (Ok (context_to_block ctx), da, wa) \<and>
       nd_write_registers W (de_tid de) (context_to_block (ctx\<lparr>c_rip := a\<rparr>)) da wa = (Ok (), db, wb) \<and>
       nd_write_memory W a [original] db wb = (Ok (), dc, wc) \<and> vw wc a = original \<and>
       nd_resume_single_step W dc wc = (Ok (), dd, wd))"
proof -
  from assms(7) obtain d' ev da wa db wb dc wc where c: "nb_dbg s = Some d'"
    "nd_resume W d' (nb_world s) = (Ok (), da, wa)" "nd_wait_event W (-1) da wa = (Ok ev, db, wb)"
    "r = stop_of_event ev" "s1 = s\<lparr>nb_dbg := Some dc, nb_world := wc\<rparr>"
    "(if ev_kind ev = EvBreakpoint then map_of (nb_sw_bp_orig s) (ev_address ev) else None) = None \<and>
       dc = db \<and> wc = wb \<or>
     (\<exists>original. map_of (nb_sw_bp_orig s) (ev_address ev) = Some original \<and> ev_kind ev = EvBreakpoint \<and>
        rearm W ev original db wb = (Ok (), dc, wc))"
    by (rule nb_cont_OkE)
  have "d' = d" "da = d1" "wa = w1" using c(1,2) assms(1,2) by simp_all
  with c(3) obtain de' where "w_WaitForDebugEvent W (word_of_int (-1)) w1 = (Some de', wb)" "ev = event_of de'"
    "db = d1\<lparr>nd_has_pending := True, nd_pending := de', nd_primary_tid := de_tid de'\<rparr>"
    by (metis nd_wait_event_Ok)
  with assms(3) have ev: "ev = event_of de" "wb = w2" "nd_primary_thread db = de_tid de"
    by (simp_all add: nd_primary_thread_def)
  then have bp: "ev_kind ev = EvBreakpoint" "ev_address ev = a"
    using assms(4) by (simp_all add: event_of_def)
  with c(6) assms(5) have rearmed: "rearm W ev original db wb = (Ok (), dc, wc)" by auto
  have "nd_process db = nd_process d"
    using nd_same_process(1) [OF c(3)] nd_same_process(2) [OF c(2)] \<open>d' = d\<close> by simp
  then have "memory_law W (nd_process db) vw" using assms(6) by simp
  from rearm_OkE [OF rearmed this] obtain ctx dA wA dB wB dC wC dD wD where steps:
    "nd_read_registers W (nd_primary_thread db) db wb = (Ok (context_to_block ctx), dA, wA)"
    "nd_write_registers W (nd_primary_thread db) (context_to_block (ctx\<lparr>c_rip := ev_address ev\<rparr>)) dA wA = (Ok (), dB, wB)"
    "nd_write_memory W (ev_address ev) [original] dB wB = (Ok (), dC, wC)" "vw wC (ev_address ev) = original"
    "nd_resume_single_step W dC wC = (Ok (), dD, wD)" and armed: "vw wc (ev_address ev) = kSoftwareBpOpcode" .
  have r: "sr_kind r = Breakpoint" "sr_pc r = a" using bp by (simp_all add: c(4) stop_of_event_def)
  have s1: "native_view vw s1 a = kSoftwareBpOpcode" "nb_sw_bp_orig s1 = nb_sw_bp_orig s"
    using armed bp(2) by (simp_all add: c(5) native_view_def)
  show ?thesis by (intro conjI exI) (fact r s1 steps [unfolded ev(2,3) bp(2)])+
qed

theorem stop_at_breakpoint_rearms_witness:
  "let s = (sim_native [\<lparr>de_pid = 1, de_tid = 1, de_info = ExceptionInfo 0x80000003 0x1000\<rparr>,
        \<lparr>de_pid = 1, de_tid = 1, de_info = ExceptionInfo 0x80000004 0x1001\<rparr>])\<lparr>nb_sw_bp_orig := [(0x1000, 0x55)]\<rparr>
   in \<exists>r s1. nb_cont sim_win32 s = (Ok r, s1) \<and> sr_kind r = Breakpoint \<and> sr_pc r = 0x1000 \<and>
     native_view sim_mem s1 0x1000 = kSoftwareBpOpcode"
proof -
  let ?es = "[\<lparr>de_pid = 1, de_tid = 1, de_info = ExceptionInfo 0x80000003 0x1000\<rparr>,
        \<lparr>de_pid = 1, de_tid = 1, de_info = ExceptionInfo 0x80000004 0x1001\<rparr>]"
  let ?s = "(sim_native ?es)\<lparr>nb_sw_bp_orig := [(0x1000, 0x55)]\<rparr>"
  obtain r s1 where c: "nb_cont sim_win32 ?s = (Ok r, s1)"
    by (simp add: nb_cont_def with_dbg_def sim_native_def native_init_def and_then_def nd_resume_def
        nd_wait_event_def sim_win32_def event_of_def win32_consts translate_stop_and_rearm_def rearm_def
        nd_read_registers_def nd_write_registers_def nd_resume_single_step_def edit_thread_context_def
        nd_write_memory_def give_def stop_of_event_def Let_def write_rip_def
        register_block_length kRipOffset_def kRegBlockSize_def kNumSlots_def)
  obtain d where d: "nb_dbg ?s = Some d" "nd_has_pending d" by (simp add: sim_native_def)
  then have go: "nd_resume sim_win32 d (nb_world ?s) = (Ok (), d\<lparr>nd_has_pending := False\<rparr>, nb_world ?s)"
    by (simp add: nd_resume_def sim_win32_def)
  have wait: "w_WaitForDebugEvent sim_win32 (word_of_int (-1)) (nb_world ?s) =
      (Some (hd ?es), (nb_world ?s)\<lparr>sim_events := tl ?es\<rparr>)"
    by (simp add: sim_win32_def sim_native_def native_init_def)
  have bp: "de_info (hd ?es) = ExceptionInfo EXCEPTION_BREAKPOINT 0x1000" "map_of (nb_sw_bp_orig ?s) 0x1000 = Some 0x55"
    by (simp_all add: win32_consts)
  note stop = stop_at_breakpoint_rearms [OF d(1) go wait bp sim_law c]
  have "sr_kind r = Breakpoint \<and> sr_pc r = 0x1000 \<and> native_view sim_mem s1 0x1000 = kSoftwareBpOpcode"
    by (intro conjI) (rule stop [THEN conjunct1], rule stop [THEN conjunct2, THEN conjunct1],
        rule stop [THEN conjunct2, THEN conjunct2, THEN conjunct1])
  with c show ?thesis unfolding Let_def by blast
qed

text \<open>Hardware slots are used up: after four hardware breakpoints were asked for, successfully or
  not, every further one is refused for good, however many have been removed in between.\<close>

theorem hardware_slots_used_up:
  assumes "nb_dbg s \<noteq> None" "nb_next_hw_slot s = 0" "4 \<le> plants rs"
  shows "fst (nb_set_breakpoint W HardwareExec addr n (run_hw W rs s)) =
    Err ''NativeBackend: no free hardware breakpoint slot''"
  using run_hw_slots [of s W rs] plant_full [of "run_hw W rs s" W addr n] assms by simp

theorem hardware_slots_used_up_witness:
  "\<forall>W :: unit win32.
     fst (nb_set_breakpoint W HardwareExec 0x2000 1
       (run_hw W [PlantHw 1, LiftHw 1, PlantHw 1, LiftHw 1, PlantHw 1, LiftHw 1, PlantHw 1, LiftHw 1]
         ((native_init ())\<lparr>nb_dbg := Some \<lparr>nd_pid = 1, nd_process = 4, nd_attached = True,
            nd_has_pending = False, nd_pending = debug_event_zero, nd_primary_tid = 1\<rparr>\<rparr>))) =
     Err ''NativeBackend: no free hardware breakpoint slot''"
  by (intro allI hardware_slots_used_up) (simp_all add: native_init_def)

text \<open>The drain loop of attaching ends once the queue of events does: when at most \<open>n\<close> events
  arrive before a wait times out or a resume fails, \<open>n + 1\<close> turns are enough.\<close>

theorem attach_drain_terminates:
  assumes "quiet_after W n d w" "n < fuel"
  shows "\<exists>r. attach_drain W fuel d w = Some r"
  using attach_drain_ends [OF assms] .

theorem attach_drain_terminates_witness:
  "\<exists>r. attach_drain sim_win32 2
     \<lparr>nd_pid = 1, nd_process = 4, nd_attached = True, nd_has_pending = False,
      nd_pending = debug_event_zero, nd_primary_tid = 1\<rparr>
     (nb_world (sim_native [\<lparr>de_pid = 1, de_tid = 1, de_info = LoadDllInfo 0x7000\<rparr>])) = Some r"
proof (rule attach_drain_terminates [where n = 1])
  show "quiet_after sim_win32 1
     \<lparr>nd_pid = 1, nd_process = 4, nd_attached = True, nd_has_pending = False,
      nd_pending = debug_event_zero, nd_primary_tid = 1\<rparr>
     (nb_world (sim_native [\<lparr>de_pid = 1, de_tid = 1, de_info = LoadDllInfo 0x7000\<rparr>]))"
    by (subst quiet_after.simps, simp add: nd_wait_event_def sim_win32_def sim_native_def native_init_def
        nd_resume_def event_of_def)
      (subst quiet_after.simps, simp add: nd_wait_event_def)
qed simp

text \<open>C15: Reading through the cache of a native session returns the bytes of the process, page
  boundaries and the end of the address space included, and leaves the cache consistent with
  the process for the next read.\<close>

theorem native_cache_reads_memory:
  assumes "native_good W vw s" "coherent c (native_view vw s)"
    and "mc_read (native_backend_ops W fuel) addr len c s = (Ok out, c1, s1)"
  shows "out = map (\<lambda>i. native_view vw s (addr + word_of_nat i)) [0..<unat len] \<and>
    coherent c1 (native_view vw s1) \<and> native_good W vw s1 \<and> native_view vw s1 = native_view vw s"
  using native.read_loop_correct [OF assms(1,2), of fuel addr len "[]" out c1 s1]
    native.read_loop_keeps [OF assms(1,2), of fuel addr len "[]" "Ok out" c1 s1] assms(3)
  by (simp add: mc_read_def)

theorem native_cache_reads_memory_witness:
  "\<exists>out c1 s1. mc_read (native_backend_ops sim_win32 0) 0x1fff 2 mem_cache_init (sim_native []) = (Ok out, c1, s1) \<and>
     out = [0x90, 0x90]"
proof -
  have good: "native_good sim_win32 sim_mem (sim_native [])"
    by (simp add: native_good_def sim_native_def sim_law)
  have coh: "coherent mem_cache_init m" for m
    by (simp add: coherent_def mem_cache_init_def)
  obtain out c1 s1 where r: "mc_read (native_backend_ops sim_win32 0) 0x1fff 2 mem_cache_init (sim_native []) = (Ok out, c1, s1)"
    using mc_read_total [of "native_good sim_win32 sim_mem" "native_backend_ops sim_win32 0", OF sim_readable good]
    by blast
  have u: "unat (2 :: u64) = Suc (Suc 0)" by simp
  from native_cache_reads_memory [OF good coh r] have "out = [0x90, 0x90]"
    unfolding u by (simp add: native_view_def sim_native_def native_init_def)
  with r show ?thesis by blast
qed



text \<open>Within one page the answer does not depend on the range: it is the comparison of that page with its
  copy, and False without one.  The instances show where this parts from the comment in memory_cache.hpp: the
  eight bytes asked for are as they were but another byte of their page changed, and the answer is True;
  the page was not read in the previous epoch, and the answer is False, whatever the bytes were then.\<close>

theorem changed_compares_whole_pages:
  assumes "native_good W vw s" "coherent c (native_view vw s)" "len \<noteq> 0"
    and "page_of addr = p" "page_of (addr + len - 1) = p" "unat p + 4096 < 2 ^ 64"
    and "\<And>a b. native_good W vw b \<Longrightarrow> \<exists>d b1. nb_read_memory W a kPageSize b = (Ok d, b1)"
  shows "\<exists>c1 s1. changed_since_last_epoch (native_backend_ops W fuel) 2 addr len c s =
    Some (case map_of (mc_prev c) p of None \<Rightarrow> False | Some old \<Rightarrow> old \<noteq> page_bytes (native_view vw s) p, c1, s1)"
proof -
  have "\<exists>d b1. be_read_memory (native_backend_ops W fuel) a kPageSize b = (Ok d, b1)"
    if "native_good W vw b" for a b
    using assms(7) [OF that] by (simp add: native_backend_ops_def)
  moreover have "pages_left p p < 2" by (simp add: pages_left_def)
  ultimately obtain c1 s1 where "changed_loop (native_backend_ops W fuel) p 2 p c s =
      Some (\<exists>k. unat p + 4096 * k \<le> unat p \<and> page_differs c (native_view vw s) (p + word_of_nat (4096 * k)), c1, s1)"
    using native.changed_loop_exact [OF _ assms(6,1,2), of fuel p 2] by blast
  moreover have "(\<exists>k. unat p + 4096 * k \<le> unat p \<and> page_differs c (native_view vw s) (p + word_of_nat (4096 * k))) \<longleftrightarrow>
      page_differs c (native_view vw s) p"
    by auto
  ultimately show ?thesis
    using assms(3-5) by (auto simp: changed_since_last_epoch_def page_differs_def split: option.split)
qed

theorem changed_compares_whole_pages_witness:
  "\<exists>old c1 s1 c2 s2. (\<forall>i < 8. old ! i = native_view sim_mem (sim_native []) (0x1000 + word_of_nat i)) \<and>
     changed_since_last_epoch (native_backend_ops sim_win32 0) 2 0x1000 8 (mem_cache_init\<lparr>mc_prev := [(0x1000, old)]\<rparr>)
       (sim_native []) = Some (True, c1, s1) \<and>
     changed_since_last_epoch (native_backend_ops sim_win32 0) 2 0x1000 8 mem_cache_init (sim_native []) = Some (False, c2, s2)"
proof -
  define old :: bytes where "old = (replicate 4096 0x90)[9 := 0x55]"
  have good: "native_good sim_win32 sim_mem (sim_native [])"
    by (simp add: native_good_def sim_native_def sim_law)
  have coh: "coherent (mem_cache_init\<lparr>mc_prev := q\<rparr>) m" "coherent mem_cache_init m" for q m
    by (simp_all add: coherent_def mem_cache_init_def)
  have rd: "\<exists>d b1. nb_read_memory sim_win32 a kPageSize b = (Ok d, b1)" if "native_good sim_win32 sim_mem b" for a b
    using sim_readable [OF that, of 0 a kPageSize] by (auto simp: native_backend_ops_def)
  have p: "page_of 0x1000 = 0x1000" "page_of (0x1000 + 8 - 1) = 0x1000" "unat (0x1000 :: u64) + 4096 < 2 ^ 64"
    by (simp_all add: page_of_def kPageSize_def)
  have view: "native_view sim_mem (sim_native []) = (\<lambda>_. 0x90)"
    by (simp add: native_view_def sim_native_def native_init_def fun_eq_iff)
  have "page_bytes (\<lambda>_. 0x90) 0x1000 ! 9 = 0x90" by (simp add: page_bytes_def)
  then have "old \<noteq> page_bytes (native_view sim_mem (sim_native [])) 0x1000"
    unfolding view by (auto simp: old_def dest!: arg_cong [of _ _ "\<lambda>bs. bs ! 9"])
  moreover have "\<forall>i < 8. old ! i = native_view sim_mem (sim_native []) (0x1000 + word_of_nat i)"
    unfolding view by (simp add: old_def)
  moreover note changed_compares_whole_pages [OF good coh(1) [of "[(0x1000, old)]"] _ p rd, of 0]
    changed_compares_whole_pages [OF good coh(2) _ p rd, of 0]
  ultimately show ?thesis by (auto simp: mem_cache_init_def)
qed

text \<open>Detaching does not take the breakpoints back: a planted opcode stays in the process, and no debugger
  is left to catch it.  \<open>stop_law\<close> and \<open>close_law\<close> say that giving up a process and closing a handle
  leave the memory of the process alone.\<close>

theorem detach_leaves_opcodes:
  assumes "nb_dbg s = Some d" "memory_law W (nd_process d) vw"
    and "nb_set_breakpoint W SoftwareExec addr n s = (Ok (), s1)"
    and stop_law: "\<And>pid w. vw (snd (w_DebugActiveProcessStop W pid w)) = vw w"
    and close_law: "\<And>h w. vw (w_CloseHandle W h w) = vw w"
    and "nb_detach W s1 = (r, s2)"
  shows "nb_dbg s2 = None \<and> native_view vw s2 addr = kSoftwareBpOpcode"
proof -
  have set: "set_software_bp W addr s = (Ok (), s1)"
    using assms(1,3) by (simp add: nb_set_breakpoint_def)
  note p = set_software_bp_OkE [OF set assms(1,2)]
  have stop: "vw (snd (snd (nd_detach W d w))) = vw w" for w
    using stop_law [of "nd_pid d" w] by (auto simp: nd_detach_def Let_def split: prod.split)
  obtain r1 d1 w1 where d: "nd_detach W d (nb_world s1) = (r1, d1, w1)" by (metis prod.exhaust)
  have "vw (snd (snd (nd_detach W d1 w))) = vw w" for w
    using stop_law [of "nd_pid d1" w] by (auto simp: nd_detach_def Let_def split: prod.split)
  then have "vw (nd_destroy W d1 w1) = vw w1"
    using close_law by (simp add: nd_destroy_def Let_def)
  with stop [of "nb_world s1"] d p(1,2) assms(6) show ?thesis
    by (auto simp: nb_detach_def native_view_def)
qed

theorem detach_leaves_opcodes_witness:
  "\<exists>s1 s2. nb_set_breakpoint sim_win32 SoftwareExec 0x1000 1 (sim_native []) = (Ok (), s1) \<and>
     nb_detach sim_win32 s1 = (Ok (), s2) \<and> nb_dbg s2 = None \<and>
     native_view sim_mem (sim_native []) 0x1000 = 0x90 \<and> native_view sim_mem s2 0x1000 = kSoftwareBpOpcode"
proof -
  obtain d where d: "nb_dbg (sim_native []) = Some d" "nd_attached d"
    by (simp add: sim_native_def)
  obtain s1 where s1: "nb_set_breakpoint sim_win32 SoftwareExec 0x1000 1 (sim_native []) = (Ok (), s1)"
    "nb_dbg s1 = Some d"
    by (rule sim_set [OF d])
  obtain s2 where s2: "nb_detach sim_win32 s1 = (Ok (), s2)"
    using s1(2) d(2) by (simp add: nb_detach_def nd_detach_def sim_win32_def Let_def)
  have "native_view sim_mem (sim_native []) 0x1000 = 0x90"
    by (simp add: sim_native_def native_init_def native_view_def)
  with detach_leaves_opcodes [OF d(1) sim_law s1(1) _ _ s2] s1(1) s2 show ?thesis
    by (auto simp: sim_win32_def)
qed

end
