(* ===== verification/Sockets.thy ===== *)
theory Sockets
  imports Transport
begin

text \<open>
  host/src/tcp.cpp: the life of \<open>TcpClient\<close> objects.  A client owns at most one socket; moving a
  client hands its socket on, and destroying or closing one closes it.  The objects of a program
  are a map from names to their \<open>sock_\<close>, with -1 for a client without a socket.

  What the lemmas need of Winsock is \<open>winsock_ok\<close>: \<open>socket\<close> gives a handle that is not in use,
  and only \<open>closesocket\<close> gives it back.
\<close>

record 'w tcp_objects =
  to_sock :: "nat \<rightharpoonup> int"
  to_net :: 'w

definition object :: "nat \<Rightarrow> int \<Rightarrow> 'w tcp_objects \<Rightarrow> 'w tcp_client" where
  "object i s st = \<lparr>tcp_sock = s, tcp_net = to_net st\<rparr>"

definition store :: "nat \<Rightarrow> 'w tcp_client \<Rightarrow> 'w tcp_objects \<Rightarrow> 'w tcp_objects" where
  "store i t st = st\<lparr>to_sock := (to_sock st)(i \<mapsto> tcp_sock t), to_net := tcp_net t\<rparr>"

text \<open>Move construction of \<open>j\<close> from \<open>i\<close>, move assignment of \<open>i\<close> to \<open>j\<close>, and the destructor.\<close>

definition tcp_move_construct :: "nat \<Rightarrow> nat \<Rightarrow> 'w tcp_objects \<Rightarrow> 'w tcp_objects" where
  "tcp_move_construct j i st =
     (case to_sock st i of
        None \<Rightarrow> st
      | Some s \<Rightarrow> st\<lparr>to_sock := (to_sock st)(j \<mapsto> s, i \<mapsto> -1)\<rparr>)"

definition tcp_move_assign :: "'w winsock \<Rightarrow> nat \<Rightarrow> nat \<Rightarrow> 'w tcp_objects \<Rightarrow> 'w tcp_objects" where
  "tcp_move_assign ws j i st =
     (case (to_sock st j, to_sock st i) of
        (Some old, Some s) \<Rightarrow>
          if j = i then st
          else
            let st1 = store j (tcp_close ws (object j old st)) st
            in st1\<lparr>to_sock := (to_sock st1)(j \<mapsto> s, i \<mapsto> -1)\<rparr>
      | _ \<Rightarrow> st)"

definition tcp_destroy :: "'w winsock \<Rightarrow> nat \<Rightarrow> 'w tcp_objects \<Rightarrow> 'w tcp_objects" where
  "tcp_destroy ws i st =
     (case to_sock st i of
        None \<Rightarrow> st
      | Some s \<Rightarrow>
          let st1 = store i (tcp_close ws (object i s st)) st
          in st1\<lparr>to_sock := (to_sock st1)(i := None)\<rparr>)"

section \<open>Programs\<close>

datatype tcp_op =
    NewClient nat | Connect nat string u16 | MoveConstruct nat nat | MoveAssign nat nat
  | Close nat | Destroy nat

fun do_tcp :: "'w winsock \<Rightarrow> tcp_op \<Rightarrow> 'w tcp_objects \<Rightarrow> 'w tcp_objects" where
  "do_tcp ws (NewClient i) st = (if to_sock st i = None then st\<lparr>to_sock := (to_sock st)(i \<mapsto> -1)\<rparr> else st)"
| "do_tcp ws (Connect i host port) st =
     (case to_sock st i of None \<Rightarrow> st | Some s \<Rightarrow> store i (snd (tcp_connect ws host port (object i s st))) st)"
| "do_tcp ws (MoveConstruct j i) st = (if to_sock st j = None then tcp_move_construct j i st else st)"
| "do_tcp ws (MoveAssign j i) st = tcp_move_assign ws j i st"
| "do_tcp ws (Close i) st =
     (case to_sock st i of None \<Rightarrow> st | Some s \<Rightarrow> store i (tcp_close ws (object i s st)) st)"
| "do_tcp ws (Destroy i) st = tcp_destroy ws i st"

definition winsock_ok :: "'w winsock \<Rightarrow> ('w \<Rightarrow> int set) \<Rightarrow> bool" where
  "winsock_ok ws open_of \<longleftrightarrow>
     (\<forall>w s w1. wsk_socket ws w = (s, w1) \<longrightarrow>
        s = -1 \<and> open_of w1 = open_of w \<or> 0 \<le> s \<and> s \<notin> open_of w \<and> open_of w1 = insert s (open_of w)) \<and>
     (\<forall>s a p w. open_of (snd (wsk_connect ws s a p w)) = open_of w) \<and>
     (\<forall>s w. open_of (wsk_closesocket ws s w) = open_of w - {s})"

text \<open>The sockets objects hold.\<close>

definition owned :: "(nat \<rightharpoonup> int) \<Rightarrow> int set" where
  "owned m = {s. 0 \<le> s \<and> (\<exists>i. m i = Some s)}"

text \<open>No client is connected while it has a socket.\<close>

fun no_reconnect :: "'w winsock \<Rightarrow> tcp_op list \<Rightarrow> 'w tcp_objects \<Rightarrow> bool" where
  "no_reconnect ws [] st \<longleftrightarrow> True"
| "no_reconnect ws (x # xs) st \<longleftrightarrow>
     (case x of Connect i host port \<Rightarrow> to_sock st i \<in> {None, Some (-1)} | _ \<Rightarrow> True) \<and>
     no_reconnect ws xs (do_tcp ws x st)"

section \<open>Ownership\<close>

text \<open>A held socket is open and held by one object.\<close>

definition own_inv :: "int set \<Rightarrow> (nat \<rightharpoonup> int) \<Rightarrow> bool" where
  "own_inv opened m \<longleftrightarrow>
     (\<forall>i s. m i = Some s \<longrightarrow> s = -1 \<or> 0 \<le> s \<and> s \<in> opened) \<and>
     (\<forall>i j s. 0 \<le> s \<longrightarrow> m i = Some s \<longrightarrow> m j = Some s \<longrightarrow> i = j)"

lemma own_invD:
  assumes "own_inv opened m" "m i = Some s"
  shows "s = -1 \<or> 0 \<le> s \<and> s \<in> opened" "0 \<le> s \<Longrightarrow> m j = Some s \<Longrightarrow> j = i"
  using assms by (auto simp: own_inv_def)

lemma own_invI:
  assumes "\<And>i s. m i = Some s \<Longrightarrow> s = -1 \<or> 0 \<le> s \<and> s \<in> opened"
    "\<And>i j s. 0 \<le> s \<Longrightarrow> m i = Some s \<Longrightarrow> m j = Some s \<Longrightarrow> i = j"
  shows "own_inv opened m"
  using assms by (auto simp: own_inv_def)

text \<open>What one object holds, apart from the others.\<close>

definition held_by_others :: "(nat \<rightharpoonup> int) \<Rightarrow> nat \<Rightarrow> int set" where
  "held_by_others m i = {s. 0 \<le> s \<and> (\<exists>k. k \<noteq> i \<and> m k = Some s)}"

lemma owned_split:
  "owned m = held_by_others m i \<union> (case m i of None \<Rightarrow> {} | Some s \<Rightarrow> if 0 \<le> s then {s} else {})"
  "held_by_others (m(i := v)) i = held_by_others m i"
  by (auto simp: owned_def held_by_others_def split: option.splits) (metis option.inject option.distinct(1))+

text \<open>Giving a socket up, getting a new one, handing one on, removing an object without one.\<close>

lemma own_drop:
  assumes "own_inv opened m" "m i = Some s"
  shows "own_inv (opened - {s}) (m(i \<mapsto> -1))" "owned (m(i \<mapsto> -1)) = owned m - {s}"
proof -
  note d = own_invD [OF assms(1)]
  show "own_inv (opened - {s}) (m(i \<mapsto> -1))"
  proof (rule own_invI)
    show "t = -1 \<or> 0 \<le> t \<and> t \<in> opened - {s}" if "(m(i \<mapsto> -1)) k = Some t" for k t
      using that d(1) [of k t] d(2) [OF assms(2), of k] by (auto split: if_splits)
    show "k = l" if "0 \<le> t" "(m(i \<mapsto> -1)) k = Some t" "(m(i \<mapsto> -1)) l = Some t" for k l t
      using that d(2) [of k t l] by (auto split: if_splits)
  qed
  show "owned (m(i \<mapsto> -1)) = owned m - {s}"
  proof -
    have "s \<notin> held_by_others m i" using d(2) [OF assms(2)] by (auto simp: held_by_others_def)
    then show ?thesis
      unfolding owned_split(1) [of "m(i \<mapsto> -1)" i] owned_split(1) [of m i] owned_split(2)
      by (auto simp: assms(2))
  qed
qed

lemma own_new:
  assumes "own_inv opened m" "0 \<le> s" "s \<notin> opened"
  shows "own_inv (insert s opened) (m(i \<mapsto> s))" "m i \<in> {None, Some (-1)} \<Longrightarrow> owned (m(i \<mapsto> s)) = insert s (owned m)"
proof -
  note d = own_invD [OF assms(1)]
  show "own_inv (insert s opened) (m(i \<mapsto> s))"
  proof (rule own_invI)
    show "t = -1 \<or> 0 \<le> t \<and> t \<in> insert s opened" if "(m(i \<mapsto> s)) k = Some t" for k t
      using that d(1) [of k t] assms(2) by (auto split: if_splits)
    show "k = l" if "0 \<le> t" "(m(i \<mapsto> s)) k = Some t" "(m(i \<mapsto> s)) l = Some t" for k l t
      using that d(1) [of k t] d(1) [of l t] d(2) [of k t l] assms(2,3) by (auto split: if_splits)
  qed
  show "m i \<in> {None, Some (-1)} \<Longrightarrow> owned (m(i \<mapsto> s)) = insert s (owned m)"
    using assms(2)
    unfolding owned_split(1) [of "m(i \<mapsto> s)" i] owned_split(1) [of m i] owned_split(2) by auto
qed

lemma own_move:
  assumes "own_inv opened m" "m i = Some s" "m j \<in> {None, Some (-1)}" "i \<noteq> j"
  shows "own_inv opened (m(j \<mapsto> s, i \<mapsto> -1))" "owned (m(j \<mapsto> s, i \<mapsto> -1)) = owned m"
proof -
  note d = own_invD [OF assms(1)]
  show "own_inv opened (m(j \<mapsto> s, i \<mapsto> -1))"
  proof (rule own_invI)
    show "t = -1 \<or> 0 \<le> t \<and> t \<in> opened" if "(m(j \<mapsto> s, i \<mapsto> -1)) k = Some t" for k t
      using that d(1) [of k t] d(1) [OF assms(2)] by (auto split: if_splits)
    show "k = l" if "0 \<le> t" "(m(j \<mapsto> s, i \<mapsto> -1)) k = Some t" "(m(j \<mapsto> s, i \<mapsto> -1)) l = Some t" for k l t
      using that d(2) [of k t l] d(2) [OF assms(2), of k] d(2) [OF assms(2), of l] by (auto split: if_splits)
  qed
  show "owned (m(j \<mapsto> s, i \<mapsto> -1)) = owned m"
  proof -
    have "owned (m(j \<mapsto> s)) = owned m"
      unfolding owned_split(1) [of "m(j \<mapsto> s)" j] owned_split(1) [of m j] owned_split(2)
      using assms(2-4) by (auto simp: held_by_others_def)
    moreover have "owned (m(j \<mapsto> s, i \<mapsto> -1)) = owned (m(j \<mapsto> s))"
      unfolding owned_split(1) [of "m(j \<mapsto> s, i \<mapsto> -1)" i] owned_split(1) [of "m(j \<mapsto> s)" i] owned_split(2)
      using assms(2,4) by (auto simp: held_by_others_def)
    ultimately show ?thesis by simp
  qed
qed

lemma own_remove:
  assumes "own_inv opened m" "m i = Some (-1)"
  shows "own_inv opened (m(i := None))" "owned (m(i := None)) = owned m"
proof -
  show "own_inv opened (m(i := None))" using assms by (auto simp: own_inv_def)
  show "owned (m(i := None)) = owned m"
    unfolding owned_split(1) [of "m(i := None)" i] owned_split(1) [of m i] owned_split(2) using assms(2) by simp
qed

lemma tcp_connect_open:
  assumes "winsock_ok ws open_of" "tcp_connect ws host port t = (r, t1)"
  shows "tcp_sock t1 = tcp_sock t \<and> open_of (tcp_net t1) = open_of (tcp_net t) \<or>
    0 \<le> tcp_sock t1 \<and> tcp_sock t1 \<notin> open_of (tcp_net t) \<and> open_of (tcp_net t1) = insert (tcp_sock t1) (open_of (tcp_net t))"
proof -
  obtain s w1 where s: "wsk_socket ws (tcp_net t) = (s, w1)" by fastforce
  then have o1: "s = -1 \<and> open_of w1 = open_of (tcp_net t) \<or>
      0 \<le> s \<and> s \<notin> open_of (tcp_net t) \<and> open_of w1 = insert s (open_of (tcp_net t))"
    using assms(1) unfolding winsock_ok_def by blast
  have c: "open_of (wsk_closesocket ws x w) = open_of w - {x}" "open_of (snd (wsk_connect ws x a p w)) = open_of w"
    for x a p w
    using assms(1) by (simp_all add: winsock_ok_def)
  show ?thesis
    using assms(2) o1 c(2) [of s _ port w1]
    by (auto simp: tcp_connect_def s c(1) Let_def case_prod_beta split: if_splits option.splits)
qed

lemma tcp_close_open:
  assumes "winsock_ok ws open_of"
  shows "tcp_sock (tcp_close ws t) = (if 0 \<le> tcp_sock t then -1 else tcp_sock t)"
    "open_of (tcp_net (tcp_close ws t)) = (if 0 \<le> tcp_sock t then open_of (tcp_net t) - {tcp_sock t} else open_of (tcp_net t))"
  using assms by (simp_all add: tcp_close_def winsock_ok_def)

section \<open>Every operation\<close>

definition sound :: "('w \<Rightarrow> int set) \<Rightarrow> 'w tcp_objects \<Rightarrow> bool" where
  "sound open_of st \<longleftrightarrow> own_inv (open_of (to_net st)) (to_sock st)"

definition no_leak :: "('w \<Rightarrow> int set) \<Rightarrow> 'w tcp_objects \<Rightarrow> bool" where
  "no_leak open_of st \<longleftrightarrow> open_of (to_net st) = owned (to_sock st)"

lemma close_step:
  assumes "winsock_ok ws open_of" "sound open_of st" "to_sock st i = Some s"
  defines "st1 \<equiv> store i (tcp_close ws (object i s st)) st"
  shows "to_sock st1 = (to_sock st)(i \<mapsto> -1)" "sound open_of st1" "no_leak open_of st \<Longrightarrow> no_leak open_of st1"
proof -
  note c = tcp_close_open [OF assms(1), of "object i s st"]
  have inv: "own_inv (open_of (to_net st)) (to_sock st)" using assms(2) by (simp add: sound_def)
  note s = own_invD(1) [OF inv assms(3)]
  show m: "to_sock st1 = (to_sock st)(i \<mapsto> -1)"
    using c(1) s by (auto simp: st1_def store_def object_def)
  have "own_inv (open_of (to_net st1)) ((to_sock st)(i \<mapsto> -1)) \<and>
      (open_of (to_net st) = owned (to_sock st) \<longrightarrow> open_of (to_net st1) = owned ((to_sock st)(i \<mapsto> -1)))"
    using s
  proof
    assume s: "s = -1"
    have o1: "open_of (to_net st1) = open_of (to_net st)" using c(2) s by (simp add: st1_def store_def object_def)
    have "(to_sock st)(i \<mapsto> -1) = to_sock st" using assms(3) s by auto
    then show ?thesis unfolding o1 using inv by simp
  next
    assume "0 \<le> s \<and> s \<in> open_of (to_net st)"
    then have o1: "open_of (to_net st1) = open_of (to_net st) - {s}" using c(2) by (simp add: st1_def store_def object_def)
    show ?thesis unfolding o1 using own_drop [OF inv assms(3)] by simp
  qed
  then show "sound open_of st1" "no_leak open_of st \<Longrightarrow> no_leak open_of st1"
    unfolding sound_def no_leak_def m by blast+
qed

lemma connect_step:
  fixes host :: string and port :: u16
  assumes "winsock_ok ws open_of" "sound open_of st" "to_sock st i = Some s"
  defines "st1 \<equiv> store i (snd (tcp_connect ws host port (object i s st))) st"
  shows "sound open_of st1" "s = -1 \<Longrightarrow> no_leak open_of st \<Longrightarrow> no_leak open_of st1"
proof -
  obtain r t1 where t1: "tcp_connect ws host port (object i s st) = (r, t1)" by fastforce
  have inv: "own_inv (open_of (to_net st)) (to_sock st)" using assms(2) by (simp add: sound_def)
  have st1: "to_sock st1 = (to_sock st)(i \<mapsto> tcp_sock t1)" "to_net st1 = tcp_net t1"
    by (simp_all add: st1_def store_def t1)
  have "own_inv (open_of (tcp_net t1)) ((to_sock st)(i \<mapsto> tcp_sock t1)) \<and>
      (s = -1 \<longrightarrow> open_of (to_net st) = owned (to_sock st) \<longrightarrow>
        open_of (tcp_net t1) = owned ((to_sock st)(i \<mapsto> tcp_sock t1)))"
    using tcp_connect_open [OF assms(1) t1]
  proof
    assume t: "tcp_sock t1 = tcp_sock (object i s st) \<and> open_of (tcp_net t1) = open_of (tcp_net (object i s st))"
    have m: "(to_sock st)(i \<mapsto> tcp_sock t1) = to_sock st" using assms(3) t by (auto simp: object_def)
    show ?thesis unfolding m using inv t by (simp add: object_def)
  next
    assume "0 \<le> tcp_sock t1 \<and> tcp_sock t1 \<notin> open_of (tcp_net (object i s st)) \<and>
      open_of (tcp_net t1) = insert (tcp_sock t1) (open_of (tcp_net (object i s st)))"
    then have t: "0 \<le> tcp_sock t1" "tcp_sock t1 \<notin> open_of (to_net st)"
      "open_of (tcp_net t1) = insert (tcp_sock t1) (open_of (to_net st))"
      by (simp_all add: object_def)
    show ?thesis unfolding t(3) using own_new [OF inv t(1,2), of i] assms(3) by simp
  qed
  then show "sound open_of st1" "s = -1 \<Longrightarrow> no_leak open_of st \<Longrightarrow> no_leak open_of st1"
    unfolding sound_def no_leak_def st1 by blast+
qed

lemma step:
  assumes "winsock_ok ws open_of" "sound open_of st"
  shows "sound open_of (do_tcp ws x st)"
    "no_reconnect ws [x] st \<Longrightarrow> no_leak open_of st \<Longrightarrow> no_leak open_of (do_tcp ws x st)"
proof -
  have inv: "own_inv (open_of (to_net st)) (to_sock st)" using assms(2) by (simp add: sound_def)
  note close = close_step [OF assms]
  note drop = own_drop [OF inv]
  have "sound open_of (do_tcp ws x st) \<and>
      (no_reconnect ws [x] st \<longrightarrow> no_leak open_of st \<longrightarrow> no_leak open_of (do_tcp ws x st))"
  proof (cases x)
    case (NewClient i)
    have "own_inv (open_of (to_net st)) ((to_sock st)(i \<mapsto> -1))" if "to_sock st i = None"
      using inv that by (auto simp: own_inv_def)
    moreover have "owned ((to_sock st)(i \<mapsto> -1)) = owned (to_sock st)" if "to_sock st i = None"
      unfolding owned_split(1) [of "(to_sock st)(i \<mapsto> -1)" i] owned_split(1) [of "to_sock st" i] owned_split(2)
      using that by simp
    ultimately show ?thesis using assms(2) NewClient by (simp add: sound_def no_leak_def)
  next
    case (Connect i host port)
    then show ?thesis
      using connect_step [OF assms, of i] assms(2) by (cases "to_sock st i") (auto simp: sound_def)
  next
    case (MoveConstruct j i)
    show ?thesis
    proof (cases "to_sock st j = None \<and> to_sock st i \<noteq> None")
      case True
      then obtain s where s: "to_sock st i = Some s" "i \<noteq> j" by (cases "i = j") auto
      with own_move [OF inv s(1), of j] True MoveConstruct show ?thesis
        by (simp add: tcp_move_construct_def sound_def no_leak_def)
    qed (use assms(2) MoveConstruct in \<open>auto simp: tcp_move_construct_def split: option.split\<close>)
  next
    case (MoveAssign j i)
    show ?thesis
    proof (cases "to_sock st j \<noteq> None \<and> to_sock st i \<noteq> None \<and> j \<noteq> i")
      case True
      then obtain old s where s: "to_sock st j = Some old" "to_sock st i = Some s" "i \<noteq> j" by auto
      let ?st1 = "store j (tcp_close ws (object j old st)) st"
      have inv1: "own_inv (open_of (to_net ?st1)) (to_sock ?st1)" using close(2) [OF s(1)] by (simp add: sound_def)
      have "to_sock ?st1 i = Some s" "to_sock ?st1 j = Some (-1)" using close(1) [OF s(1)] s by auto
      with own_move [OF inv1, of i s j] s close(3) [OF s(1)] MoveAssign show ?thesis
        by (auto simp: tcp_move_assign_def sound_def no_leak_def Let_def)
    qed (use assms(2) MoveAssign in \<open>auto simp: tcp_move_assign_def split: option.split\<close>)
  next
    case (Close i)
    then show ?thesis using close assms(2) by (cases "to_sock st i") auto
  next
    case (Destroy i)
    show ?thesis
    proof (cases "to_sock st i")
      case (Some s)
      let ?st1 = "store i (tcp_close ws (object i s st)) st"
      have inv1: "own_inv (open_of (to_net ?st1)) (to_sock ?st1)" using close(2) [OF Some] by (simp add: sound_def)
      have "to_sock ?st1 i = Some (-1)" using close(1) [OF Some] by simp
      from own_remove [OF inv1 this] close(3) [OF Some] Some Destroy show ?thesis
        by (simp add: tcp_destroy_def sound_def no_leak_def Let_def)
    qed (use assms(2) Destroy in \<open>simp add: tcp_destroy_def\<close>)
  qed
  then show "sound open_of (do_tcp ws x st)"
    "no_reconnect ws [x] st \<Longrightarrow> no_leak open_of st \<Longrightarrow> no_leak open_of (do_tcp ws x st)" by auto
qed

lemma run_sound:
  assumes "winsock_ok ws open_of" "sound open_of st"
  shows "sound open_of (fold (do_tcp ws) xs st)"
    "no_reconnect ws xs st \<Longrightarrow> no_leak open_of st \<Longrightarrow> no_leak open_of (fold (do_tcp ws) xs st)"
  using assms(2) step [OF assms(1)] by (induction xs arbitrary: st) auto

section \<open>Properties\<close>

definition no_objects :: "'w \<Rightarrow> 'w tcp_objects" where
  "no_objects w = \<lparr>to_sock = Map.empty, to_net = w\<rparr>"

text \<open>C39: However a program creates, connects, moves, closes and destroys clients, every socket a client holds is
  open and held by that client alone, so none is closed twice or used after it was closed; and as
  long as no client is connected that is connected already, the open sockets are exactly the held
  ones, so none is lost.\<close>

theorem sockets_owned_once:
  assumes "winsock_ok ws open_of" "open_of w = {}"
  shows "let st = fold (do_tcp ws) ops (no_objects w) in
    (\<forall>i s. to_sock st i = Some s \<longrightarrow> s \<noteq> -1 \<longrightarrow> s \<in> open_of (to_net st) \<and>
       (\<forall>j. to_sock st j = Some s \<longrightarrow> j = i)) \<and>
    (no_reconnect ws ops (no_objects w) \<longrightarrow> open_of (to_net st) = owned (to_sock st))"
proof -
  have init: "sound open_of (no_objects w)" "no_leak open_of (no_objects w)"
    using assms(2) by (simp_all add: sound_def own_inv_def no_leak_def owned_def no_objects_def)
  let ?st = "fold (do_tcp ws) ops (no_objects w)"
  have "own_inv (open_of (to_net ?st)) (to_sock ?st)" using run_sound(1) [OF assms(1) init(1)] by (simp add: sound_def)
  note d = own_invD [OF this]
  have "no_reconnect ws ops (no_objects w) \<longrightarrow> open_of (to_net ?st) = owned (to_sock ?st)"
    using run_sound(2) [OF assms(1) init(1) _ init(2)] by (simp add: no_leak_def)
  with d show ?thesis unfolding Let_def by blast
qed

text \<open>A net that hands out the handles 0, 1, ... and keeps those in use.\<close>

definition counting_net :: "(int list \<times> nat) winsock" where
  "counting_net =
     \<lparr>wsk_socket = \<lambda>(opened, n). (int n, int n # opened, Suc n), wsk_inet_pton = \<lambda>_. Some 0,
      wsk_connect = \<lambda>s a p w. (0, w), wsk_set_rcvtimeo = \<lambda>s t w. w, wsk_send = \<lambda>s d w. (0, w),
      wsk_recv = \<lambda>s n w. ((0, []), w), wsk_closesocket = \<lambda>s (opened, n). (removeAll s opened, n)\<rparr>"

definition counting_open :: "int list \<times> nat \<Rightarrow> int set" where
  "counting_open w = {s \<in> set (fst w). 0 \<le> s \<and> s < int (snd w)}"

lemma counting_ok: "winsock_ok counting_net counting_open"
  by (auto simp: winsock_ok_def counting_net_def counting_open_def)

theorem sockets_owned_once_witness:
  "let st = fold (do_tcp counting_net)
       [NewClient 0, Connect 0 ''127.0.0.1'' 1234, MoveConstruct 1 0, NewClient 2, Connect 2 ''127.0.0.1'' 1, MoveAssign 2 1]
       (no_objects ([], 0))
   in owned (to_sock st) = counting_open (to_net st) \<and> to_sock st 2 = Some 0 \<and> 0 \<in> counting_open (to_net st)"
proof -
  let ?ops = "[NewClient 0, Connect 0 ''127.0.0.1'' 1234, MoveConstruct 1 0, NewClient 2, Connect 2 ''127.0.0.1'' 1, MoveAssign 2 1]"
  have n: "no_reconnect counting_net ?ops (no_objects ([], 0))"
    "to_sock (fold (do_tcp counting_net) ?ops (no_objects ([], 0))) 2 = Some 0"
    by (simp_all add: no_objects_def counting_net_def tcp_connect_def object_def store_def tcp_move_construct_def
        tcp_move_assign_def tcp_close_def)
  have "counting_open ([], 0) = {}" by (simp add: counting_open_def)
  note once = sockets_owned_once [OF counting_ok this, of ?ops]
  define st where "st = fold (do_tcp counting_net) ?ops (no_objects ([], 0))"
  have "to_sock st 2 = Some 0" using n(2) by (simp only: st_def)
  moreover have "counting_open (to_net st) = owned (to_sock st)"
    using once n(1) unfolding Let_def st_def [symmetric] by blast
  moreover have "0 \<in> counting_open (to_net st)"
    using once \<open>to_sock st 2 = Some 0\<close> unfolding Let_def st_def [symmetric] by force
  ultimately show ?thesis unfolding Let_def st_def [symmetric] by simp
qed

text \<open>Connecting a connected client loses the socket it had: nothing holds it, and it stays open.\<close>

lemma reconnect_leaks:
  "let st = fold (do_tcp counting_net)
       [NewClient 0, Connect 0 ''127.0.0.1'' 1234, Connect 0 ''127.0.0.1'' 1234, Destroy 0] (no_objects ([], 0))
   in to_sock st = Map.empty \<and> counting_open (to_net st) = {0}"
  by (auto simp: no_objects_def counting_net_def tcp_connect_def object_def store_def tcp_destroy_def tcp_close_def
      counting_open_def Let_def)

end
