(* ===== verification/Api.thy ===== *)
theory Api
  imports Prelude
begin

text \<open>
  irida-api/include/irida/irida.h and irida-api/src/capi.cpp: the C interface between the
  sessions and the front ends.

  The rows are the structs of the header, with strings by value instead of borrowed
  pointers.  A backend is a record of its entry points; \<open>None\<close> is a null function pointer.
  A call that fills a row array answers the list of rows, \<open>[]\<close> standing for the null
  pointer with count 0; the flag of such a call says whether the caller passed a place for
  the rows.  A null session is \<open>None\<close>.

  The locale \<open>epoch_frontend\<close> is what the front ends rely on: a command either moves the
  epoch by one or changes nothing they show, and a query changes nothing they show.
\<close>

section \<open>Rows\<close>

definition IRIDA_PERM_EXEC :: u8 where "IRIDA_PERM_EXEC = 0x1"
definition IRIDA_PERM_WRITE :: u8 where "IRIDA_PERM_WRITE = 0x2"
definition IRIDA_PERM_READ :: u8 where "IRIDA_PERM_READ = 0x4"

record api_register =
  ar_name :: string
  ar_value :: u64
  ar_hint :: "string option"

record api_module =
  am_name :: string
  am_base :: u64
  am_size :: u64

record api_map =
  amm_start :: u64
  amm_end :: u64
  amm_perms :: u8
  amm_name :: string

record api_thread =
  at_tid :: u32
  at_pc :: u64
  at_current :: int

record insn_row =
  ir_address :: u64
  ir_text :: string
  ir_annotation :: "string option"
  ir_bytes :: string

record api_frame =
  af_pc :: u64
  af_frame_ptr :: u64

record api_section =
  asec_name :: string
  asec_vaddr :: u64
  asec_vsize :: u64
  asec_perms :: u8

record api_import =
  ai_name :: string
  ai_library :: string
  ai_addr :: u64

record api_export =
  ae_name :: string
  ae_addr :: u64
  ae_ordinal :: u32

record api_symbol =
  ay_name :: string
  ay_addr :: u64
  ay_kind :: string

record api_string =
  ag_addr :: u64
  ag_text :: string

record api_function =
  afn_addr :: u64
  afn_size :: u64
  afn_name :: string
  afn_block_count :: nat

record api_block =
  ab_addr :: u64
  ab_size :: u64
  ab_jump :: u64
  ab_fail :: u64

record api_xref =
  ax_from :: u64
  ax_to :: u64
  ax_kind :: int

datatype run_state = STOPPED | RUNNING

datatype bp_type = BP_SOFTWARE | BP_HARDWARE

record api_breakpoint =
  abp_address :: u64
  abp_enabled :: bool
  abp_type :: bp_type

section \<open>The table of entry points\<close>

type_synonym ('c, 'r) entry = "('c \<Rightarrow> 'r \<times> 'c) option"
type_synonym 'c command = "('c \<Rightarrow> 'c) option"

record 'c vtable =
  vt_registers :: "('c, api_register list) entry"
  vt_modules :: "('c, api_module list) entry"
  vt_maps :: "('c, api_map list) entry"
  vt_threads :: "('c, api_thread list) entry"
  vt_disasm :: "(u64 \<Rightarrow> u64 \<Rightarrow> 'c \<Rightarrow> insn_row list \<times> 'c) option"
  vt_run_state :: "('c, run_state) entry"
  vt_pc :: "('c, u64) entry"
  vt_state_epoch :: "('c, u64) entry"
  vt_step_into :: "'c command"
  vt_step_over :: "'c command"
  vt_step_out :: "'c command"
  vt_cont :: "'c command"
  vt_brk :: "'c command"
  vt_restart :: "'c command"
  vt_stop :: "'c command"
  vt_read_memory :: "(u64 \<Rightarrow> u64 \<Rightarrow> 'c \<Rightarrow> bytes \<times> 'c) option"
  vt_breakpoints :: "('c, api_breakpoint list) entry"
  vt_bp_toggle :: "(u64 \<Rightarrow> 'c \<Rightarrow> 'c) option"
  vt_bp_set_enabled :: "(u64 \<Rightarrow> bool \<Rightarrow> 'c \<Rightarrow> 'c) option"
  vt_backtrace :: "('c, api_frame list) entry"
  vt_sections :: "('c, api_section list) entry"
  vt_imports :: "('c, api_import list) entry"
  vt_get_exports :: "('c, api_export list) entry"
  vt_symbols :: "('c, api_symbol list) entry"
  vt_strings :: "('c, api_string list) entry"
  vt_analyze :: "'c command"
  vt_functions :: "('c, api_function list) entry"
  vt_function_blocks :: "(u64 \<Rightarrow> 'c \<Rightarrow> api_block list \<times> 'c) option"
  vt_xrefs_to :: "(u64 \<Rightarrow> 'c \<Rightarrow> api_xref list \<times> 'c) option"

section \<open>Sessions and calls\<close>

record 'c session =
  ss_vt :: "'c vtable"
  ss_ctx :: 'c

type_synonym 'c handle = "'c session option"

definition irida_session_create :: "'c vtable option \<Rightarrow> 'c \<Rightarrow> 'c handle" where
  "irida_session_create vt ctx =
     (case vt of None \<Rightarrow> None | Some v \<Rightarrow> Some \<lparr>ss_vt = v, ss_ctx = ctx\<rparr>)"

definition irida_session_destroy :: "'c handle \<Rightarrow> 'c handle" where
  "irida_session_destroy s = None"

text \<open>
  The shapes the calls have: through the entry point when there is a session with one,
  else the answer \<open>d\<close>; and commands, which do nothing without an entry point.
\<close>

definition call_or :: "'r \<Rightarrow> ('c vtable \<Rightarrow> ('c, 'r) entry) \<Rightarrow> 'c handle \<Rightarrow> 'r \<times> 'c handle" where
  "call_or d sel s =
     (case s of
        None \<Rightarrow> (d, s)
      | Some se \<Rightarrow>
          (case sel (ss_vt se) of
             None \<Rightarrow> (d, s)
           | Some f \<Rightarrow> (case f (ss_ctx se) of (r, c1) \<Rightarrow> (r, Some (se\<lparr>ss_ctx := c1\<rparr>)))))"

definition rows_call ::
    "bool \<Rightarrow> ('c vtable \<Rightarrow> ('c, 'r list) entry) \<Rightarrow> 'c handle \<Rightarrow> 'r list \<times> 'c handle" where
  "rows_call out sel s = (if \<not> out then ([], s) else call_or [] sel s)"

definition command_call :: "('c vtable \<Rightarrow> 'c command) \<Rightarrow> 'c handle \<Rightarrow> 'c handle" where
  "command_call sel s =
     (case s of
        None \<Rightarrow> s
      | Some se \<Rightarrow>
          (case sel (ss_vt se) of None \<Rightarrow> s | Some f \<Rightarrow> Some (se\<lparr>ss_ctx := f (ss_ctx se)\<rparr>)))"

definition irida_registers :: "bool \<Rightarrow> 'c handle \<Rightarrow> api_register list \<times> 'c handle" where
  "irida_registers out s = rows_call out vt_registers s"

definition irida_modules :: "bool \<Rightarrow> 'c handle \<Rightarrow> api_module list \<times> 'c handle" where
  "irida_modules out s = rows_call out vt_modules s"

definition irida_maps :: "bool \<Rightarrow> 'c handle \<Rightarrow> api_map list \<times> 'c handle" where
  "irida_maps out s = rows_call out vt_maps s"

definition irida_threads :: "bool \<Rightarrow> 'c handle \<Rightarrow> api_thread list \<times> 'c handle" where
  "irida_threads out s = rows_call out vt_threads s"

definition irida_breakpoints :: "bool \<Rightarrow> 'c handle \<Rightarrow> api_breakpoint list \<times> 'c handle" where
  "irida_breakpoints out s = rows_call out vt_breakpoints s"

definition irida_backtrace :: "bool \<Rightarrow> 'c handle \<Rightarrow> api_frame list \<times> 'c handle" where
  "irida_backtrace out s = rows_call out vt_backtrace s"

definition irida_sections :: "bool \<Rightarrow> 'c handle \<Rightarrow> api_section list \<times> 'c handle" where
  "irida_sections out s = rows_call out vt_sections s"

definition irida_imports :: "bool \<Rightarrow> 'c handle \<Rightarrow> api_import list \<times> 'c handle" where
  "irida_imports out s = rows_call out vt_imports s"

definition irida_exports :: "bool \<Rightarrow> 'c handle \<Rightarrow> api_export list \<times> 'c handle" where
  "irida_exports out s = rows_call out vt_get_exports s"

definition irida_symbols :: "bool \<Rightarrow> 'c handle \<Rightarrow> api_symbol list \<times> 'c handle" where
  "irida_symbols out s = rows_call out vt_symbols s"

definition irida_strings :: "bool \<Rightarrow> 'c handle \<Rightarrow> api_string list \<times> 'c handle" where
  "irida_strings out s = rows_call out vt_strings s"

definition irida_functions :: "bool \<Rightarrow> 'c handle \<Rightarrow> api_function list \<times> 'c handle" where
  "irida_functions out s = rows_call out vt_functions s"

definition irida_disasm :: "u64 \<Rightarrow> u64 \<Rightarrow> bool \<Rightarrow> 'c handle \<Rightarrow> insn_row list \<times> 'c handle" where
  "irida_disasm addr n out s = rows_call out (\<lambda>vt. map_option (\<lambda>f. f addr n) (vt_disasm vt)) s"

definition irida_function_blocks :: "u64 \<Rightarrow> bool \<Rightarrow> 'c handle \<Rightarrow> api_block list \<times> 'c handle" where
  "irida_function_blocks fn_addr out s =
     rows_call out (\<lambda>vt. map_option (\<lambda>f. f fn_addr) (vt_function_blocks vt)) s"

definition irida_xrefs_to :: "u64 \<Rightarrow> bool \<Rightarrow> 'c handle \<Rightarrow> api_xref list \<times> 'c handle" where
  "irida_xrefs_to addr out s = rows_call out (\<lambda>vt. map_option (\<lambda>f. f addr) (vt_xrefs_to vt)) s"

definition irida_run_state :: "'c handle \<Rightarrow> run_state \<times> 'c handle" where
  "irida_run_state s = call_or STOPPED vt_run_state s"

definition irida_pc :: "'c handle \<Rightarrow> u64 \<times> 'c handle" where
  "irida_pc s = call_or 0 vt_pc s"

definition irida_state_epoch :: "'c handle \<Rightarrow> u64 \<times> 'c handle" where
  "irida_state_epoch s = call_or 0 vt_state_epoch s"

text \<open>The flag says whether the caller passed a buffer; the answer is what was put into it.\<close>

definition irida_read_memory :: "u64 \<Rightarrow> u64 \<Rightarrow> bool \<Rightarrow> 'c handle \<Rightarrow> bytes \<times> 'c handle" where
  "irida_read_memory addr len buf s =
     rows_call buf (\<lambda>vt. map_option (\<lambda>f. f addr len) (vt_read_memory vt)) s"

definition irida_step_into :: "'c handle \<Rightarrow> 'c handle" where
  "irida_step_into s = command_call vt_step_into s"

definition irida_step_over :: "'c handle \<Rightarrow> 'c handle" where
  "irida_step_over s = command_call vt_step_over s"

definition irida_step_out :: "'c handle \<Rightarrow> 'c handle" where
  "irida_step_out s = command_call vt_step_out s"

definition irida_continue :: "'c handle \<Rightarrow> 'c handle" where
  "irida_continue s = command_call vt_cont s"

definition irida_break :: "'c handle \<Rightarrow> 'c handle" where
  "irida_break s = command_call vt_brk s"

definition irida_restart :: "'c handle \<Rightarrow> 'c handle" where
  "irida_restart s = command_call vt_restart s"

definition irida_stop :: "'c handle \<Rightarrow> 'c handle" where
  "irida_stop s = command_call vt_stop s"

definition irida_analyze :: "'c handle \<Rightarrow> 'c handle" where
  "irida_analyze s = command_call vt_analyze s"

definition irida_bp_toggle :: "u64 \<Rightarrow> 'c handle \<Rightarrow> 'c handle" where
  "irida_bp_toggle addr s = command_call (\<lambda>vt. map_option (\<lambda>f. f addr) (vt_bp_toggle vt)) s"

definition irida_bp_set_enabled :: "u64 \<Rightarrow> bool \<Rightarrow> 'c handle \<Rightarrow> 'c handle" where
  "irida_bp_set_enabled addr enabled s =
     command_call (\<lambda>vt. map_option (\<lambda>f. f addr enabled) (vt_bp_set_enabled vt)) s"

section \<open>The epoch protocol\<close>

datatype api_command =
    CStepInto | CStepOver | CStepOut | CContinue | CBreak | CRestart | CStop
  | CBpToggle u64 | CBpSetEnabled u64 bool | CAnalyze

fun do_command :: "api_command \<Rightarrow> 'c handle \<Rightarrow> 'c handle" where
  "do_command CStepInto s = irida_step_into s"
| "do_command CStepOver s = irida_step_over s"
| "do_command CStepOut s = irida_step_out s"
| "do_command CContinue s = irida_continue s"
| "do_command CBreak s = irida_break s"
| "do_command CRestart s = irida_restart s"
| "do_command CStop s = irida_stop s"
| "do_command (CBpToggle a) s = irida_bp_toggle a s"
| "do_command (CBpSetEnabled a on) s = irida_bp_set_enabled a on s"
| "do_command CAnalyze s = irida_analyze s"

datatype api_query =
    QRegisters | QModules | QMaps | QThreads | QDisasm u64 u64 | QRunState | QPc | QEpoch
  | QReadMemory u64 u64 | QBreakpoints | QBacktrace | QSections | QImports | QExports | QSymbols
  | QStrings | QFunctions | QFunctionBlocks u64 | QXrefsTo u64

fun do_query :: "api_query \<Rightarrow> 'c handle \<Rightarrow> 'c handle" where
  "do_query QRegisters s = snd (irida_registers True s)"
| "do_query QModules s = snd (irida_modules True s)"
| "do_query QMaps s = snd (irida_maps True s)"
| "do_query QThreads s = snd (irida_threads True s)"
| "do_query (QDisasm a n) s = snd (irida_disasm a n True s)"
| "do_query QRunState s = snd (irida_run_state s)"
| "do_query QPc s = snd (irida_pc s)"
| "do_query QEpoch s = snd (irida_state_epoch s)"
| "do_query (QReadMemory a n) s = snd (irida_read_memory a n True s)"
| "do_query QBreakpoints s = snd (irida_breakpoints True s)"
| "do_query QBacktrace s = snd (irida_backtrace True s)"
| "do_query QSections s = snd (irida_sections True s)"
| "do_query QImports s = snd (irida_imports True s)"
| "do_query QExports s = snd (irida_exports True s)"
| "do_query QSymbols s = snd (irida_symbols True s)"
| "do_query QStrings s = snd (irida_strings True s)"
| "do_query QFunctions s = snd (irida_functions True s)"
| "do_query (QFunctionBlocks a) s = snd (irida_function_blocks a True s)"
| "do_query (QXrefsTo a) s = snd (irida_xrefs_to a True s)"

definition do_call :: "api_command + api_query \<Rightarrow> 'c handle \<Rightarrow> 'c handle" where
  "do_call x s = (case x of Inl c \<Rightarrow> do_command c s | Inr q \<Rightarrow> do_query q s)"

text \<open>What a front end shows of a stop, and the number it compares.\<close>

definition shown :: "'c handle \<Rightarrow> api_register list \<times> u64" where
  "shown s = (fst (irida_registers True s), fst (irida_pc s))"

definition epoch_of :: "'c handle \<Rightarrow> u64" where
  "epoch_of s = fst (irida_state_epoch s)"

definition session_on :: "'c vtable \<Rightarrow> 'c \<Rightarrow> 'c handle" where
  "session_on vt c = Some \<lparr>ss_vt = vt, ss_ctx = c\<rparr>"

lemmas api_defs =
  irida_registers_def irida_modules_def irida_maps_def irida_threads_def irida_disasm_def
  irida_run_state_def irida_pc_def irida_state_epoch_def irida_step_into_def irida_step_over_def
  irida_step_out_def irida_continue_def irida_break_def irida_restart_def irida_stop_def
  irida_read_memory_def irida_breakpoints_def irida_bp_toggle_def irida_bp_set_enabled_def
  irida_backtrace_def irida_sections_def irida_imports_def irida_exports_def irida_symbols_def
  irida_strings_def irida_analyze_def irida_functions_def irida_function_blocks_def
  irida_xrefs_to_def call_or_def rows_call_def command_call_def session_on_def shown_def epoch_of_def

text \<open>One call keeps to the protocol when it leads from \<open>s\<close> to \<open>t\<close> in one of the two ways.\<close>

definition moves_or_keeps :: "'c handle \<Rightarrow> 'c handle \<Rightarrow> bool" where
  "moves_or_keeps s t \<longleftrightarrow> epoch_of t = epoch_of s + 1 \<or> epoch_of t = epoch_of s \<and> shown t = shown s"

locale epoch_frontend =
  fixes vt :: "'c vtable" and ok :: "'c \<Rightarrow> bool"
  assumes command_law: "ok c \<Longrightarrow> \<exists>c1. do_command a (session_on vt c) = session_on vt c1 \<and> ok c1 \<and>
      moves_or_keeps (session_on vt c) (session_on vt c1)"
    and query_law: "ok c \<Longrightarrow> \<exists>c1. do_query q (session_on vt c) = session_on vt c1 \<and> ok c1 \<and>
      epoch_of (session_on vt c1) = epoch_of (session_on vt c) \<and>
      shown (session_on vt c1) = shown (session_on vt c)"
begin

lemma call_law:
  "ok c \<Longrightarrow> \<exists>c1. do_call x (session_on vt c) = session_on vt c1 \<and> ok c1 \<and>
     moves_or_keeps (session_on vt c) (session_on vt c1)"
  using command_law [of c] query_law [of c]
  by (cases x) (fastforce simp: do_call_def moves_or_keeps_def)+

text \<open>Any run of calls moves the epoch by the number of its moves, and without one shows the same.\<close>

lemma run_law:
  "ok c \<Longrightarrow> \<exists>c1 k. fold do_call xs (session_on vt c) = session_on vt c1 \<and> ok c1 \<and> k \<le> length xs \<and>
     epoch_of (session_on vt c1) = epoch_of (session_on vt c) + word_of_nat k \<and>
     (k = 0 \<longrightarrow> shown (session_on vt c1) = shown (session_on vt c))"
proof (induction xs arbitrary: c)
  case Nil
  then show ?case by (intro exI [of _ c] exI [of _ 0]) simp
next
  case (Cons x xs)
  obtain c1 where c1: "do_call x (session_on vt c) = session_on vt c1" "ok c1"
    "moves_or_keeps (session_on vt c) (session_on vt c1)"
    using call_law [OF Cons.prems] by blast
  obtain c2 k where c2: "fold do_call xs (session_on vt c1) = session_on vt c2" "ok c2" "k \<le> length xs"
    "epoch_of (session_on vt c2) = epoch_of (session_on vt c1) + word_of_nat k"
    "k = 0 \<longrightarrow> shown (session_on vt c2) = shown (session_on vt c1)"
    using Cons.IH [OF c1(2)] by blast
  have run: "fold do_call (x # xs) (session_on vt c) = session_on vt c2" using c1(1) c2(1) by simp
  show ?case
  proof (cases "epoch_of (session_on vt c1) = epoch_of (session_on vt c) + 1")
    case True
    with c2 run show ?thesis by (intro exI [of _ c2] exI [of _ "Suc k"]) (simp add: add.assoc)
  next
    case False
    with c1(3) have "epoch_of (session_on vt c1) = epoch_of (session_on vt c)"
      "shown (session_on vt c1) = shown (session_on vt c)"
      by (auto simp: moves_or_keeps_def)
    with c2 run show ?thesis by (intro exI [of _ c2] exI [of _ k]) simp
  qed
qed

text \<open>So comparing epochs tells whether a front end is up to date, for fewer than \<open>2^64\<close> calls.\<close>

lemma same_epoch_same_shown:
  assumes "ok c" "length xs < 2 ^ 64"
    "epoch_of (fold do_call xs (session_on vt c)) = epoch_of (session_on vt c)"
  shows "shown (fold do_call xs (session_on vt c)) = shown (session_on vt c)"
proof -
  obtain c1 k where c1: "fold do_call xs (session_on vt c) = session_on vt c1" "k \<le> length xs"
    "epoch_of (session_on vt c1) = epoch_of (session_on vt c) + word_of_nat k"
    "k = 0 \<longrightarrow> shown (session_on vt c1) = shown (session_on vt c)"
    using run_law [OF assms(1), of xs] by blast
  have "(word_of_nat k :: u64) = word_of_nat 0" using assms(3) c1(1,3) by simp
  moreover have "k < 2 ^ 64" using c1(2) assms(2) by linarith
  ultimately have "k = 0" unfolding word_of_nat_eq_iff by (simp add: take_bit_eq_mod)
  with c1 show ?thesis by simp
qed

end

end
