(* ===== verification/Byte_Overview.thy ===== *)
theory Byte_Overview
  imports Api "HOL-Library.Signed_Division"
begin

text \<open>
  irida-ui/gui/src/panels/overview: the grid of glyphs (byte_overview_panel.cpp) and the strip of
  coloured cells (byte_map_strip.cpp, byte_map_view.cpp) that show the whole image, and which
  address a click on them means.

  A C++ \<open>int\<close> is an integer; casts from 64 bits cut it to 32, and division truncates (\<open>sdiv\<close>).
  Sizes of the font and the viewport and the value of the scroll bar are Qt's: they are arguments.
  What is asked of the scroll bar is kept.  A colour is what it was chosen from: the
  interpolation between palette colours is not modelled.
\<close>

definition to_int :: "u64 \<Rightarrow> int" where
  "to_int x = sint (ucast x :: u32)"

definition to_u64 :: "int \<Rightarrow> u64" where
  "to_u64 i = word_of_int i"

definition clamp :: "int \<Rightarrow> int \<Rightarrow> int \<Rightarrow> int" where
  "clamp v lo hi = (if v < lo then lo else if hi < v then hi else v)"

section \<open>The range of the image\<close>

fun range_loop :: "api_section list \<Rightarrow> bool \<times> u64 \<times> u64 \<Rightarrow> bool \<times> u64 \<times> u64" where
  "range_loop [] st = st"
| "range_loop (sec # secs) (first, start, finish) =
     (if asec_vsize sec = 0 then range_loop secs (first, start, finish)
      else
        let lo = asec_vaddr sec; hi = asec_vaddr sec + asec_vsize sec in
        range_loop secs (if first then (False, lo, hi) else (False, min start lo, max finish hi)))"

definition image_range :: "api_section list \<Rightarrow> u64 \<times> u64" where
  "image_range secs =
     (case range_loop secs (True, 0, 0) of (first, start, finish) \<Rightarrow> if first then (0, 0) else (start, finish))"

section \<open>The grid of glyphs\<close>

definition kMargin :: int where "kMargin = 4"

record viewport =
  vp_width :: int
  vp_height :: int

record byte_overview =
  bo_start :: u64
  bo_end :: u64
  bo_top :: u64
  bo_cellW :: int
  bo_cellH :: int
  bo_gutterW :: int
  bo_range :: "int \<times> int"
  bo_page :: int
  bo_set_value :: "int option"

definition columns :: "viewport \<Rightarrow> byte_overview \<Rightarrow> int" where
  "columns vp p = (let usable = vp_width vp - bo_gutterW p - kMargin in max 1 (usable sdiv bo_cellW p))"

definition visibleRows :: "viewport \<Rightarrow> byte_overview \<Rightarrow> int" where
  "visibleRows vp p = max 1 ((vp_height vp - kMargin) sdiv bo_cellH p)"

definition updateScrollRange :: "viewport \<Rightarrow> byte_overview \<Rightarrow> byte_overview" where
  "updateScrollRange vp p =
     (if bo_end p \<le> bo_start p then p\<lparr>bo_range := (0, 0)\<rparr>
      else
        let cols = columns vp p;
            bytes = bo_end p - bo_start p;
            totalRows = to_int ((bytes + to_u64 cols - 1) div to_u64 cols)
        in p\<lparr>bo_range := (0, max 0 (totalRows - visibleRows vp p)), bo_page := visibleRows vp p\<rparr>)"

definition overview_refresh :: "viewport \<Rightarrow> 'c handle \<Rightarrow> byte_overview \<Rightarrow> byte_overview \<times> 'c handle" where
  "overview_refresh vp s p =
     (case irida_sections True s of (secs, s1) \<Rightarrow>
      case image_range secs of (start, finish) \<Rightarrow>
        (updateScrollRange vp (p\<lparr>bo_start := start, bo_end := finish, bo_top := start\<rparr>), s1))"

definition overview_setBase :: "viewport \<Rightarrow> u64 \<Rightarrow> byte_overview \<Rightarrow> byte_overview" where
  "overview_setBase vp addr p =
     (if bo_end p = 0 \<or> addr < bo_start p \<or> bo_end p \<le> addr then p
      else
        let cols = columns vp p;
            p1 = updateScrollRange vp
              (p\<lparr>bo_top := bo_start p + ((addr - bo_start p) div to_u64 cols) * to_u64 cols\<rparr>);
            row = to_int ((bo_top p1 - bo_start p1) div to_u64 cols)
        in p1\<lparr>bo_set_value := Some row\<rparr>)"

text \<open>\<open>scroll\<close> is the value of the scroll bar.\<close>

definition overview_addressAt :: "viewport \<Rightarrow> int \<Rightarrow> int \<times> int \<Rightarrow> byte_overview \<Rightarrow> u64" where
  "overview_addressAt vp scroll pos p =
     (if bo_end p \<le> bo_start p then 0
      else
        let cols = columns vp p;
            row = scroll + (snd pos - kMargin) sdiv bo_cellH p;
            col = clamp ((fst pos - bo_gutterW p) sdiv bo_cellW p) 0 (cols - 1)
        in if row < 0 then 0
           else let addr = bo_start p + to_u64 row * to_u64 cols + to_u64 col in
             if addr < bo_end p then addr else 0)"

text \<open>The address a press navigates to.\<close>

definition overview_press :: "viewport \<Rightarrow> int \<Rightarrow> int \<times> int \<Rightarrow> byte_overview \<Rightarrow> u64 option" where
  "overview_press vp scroll pos p =
     (let addr = overview_addressAt vp scroll pos p in if addr \<noteq> 0 then Some addr else None)"

datatype glyph = Printable char | MiddleDot | DarkShade | LightShade | Unread

datatype ink = BytesText | DefaultText | AddressText

definition glyphFor :: "u8 \<Rightarrow> glyph" where
  "glyphFor v =
     (if 0x20 \<le> v \<and> v < 0x7f then Printable (char_of_byte v)
      else if v = 0 then MiddleDot
      else if v = 0xff then DarkShade
      else LightShade)"

definition colorFor :: "u8 \<Rightarrow> ink" where
  "colorFor v = (if v = 0 then BytesText else if 0x20 \<le> v \<and> v < 0x7f then DefaultText else AddressText)"

definition overview_resize :: "viewport \<Rightarrow> byte_overview \<Rightarrow> byte_overview" where
  "overview_resize vp p = updateScrollRange vp p"

text \<open>What a row draws: the address in the gutter, then left side, base line, ink and glyph of every byte.\<close>

record painted_row =
  pr_address :: u64
  pr_y :: int
  pr_cells :: "(int \<times> int \<times> ink \<times> glyph) list"

definition paint_cell :: "byte_overview \<Rightarrow> int \<Rightarrow> bytes \<Rightarrow> nat \<Rightarrow> int \<times> int \<times> ink \<times> glyph" where
  "paint_cell p y buf c =
     (let x = bo_gutterW p + int c * bo_cellW p; base = y + bo_cellH p - 3 in
      if c < length buf then (x, base, colorFor (buf ! c), glyphFor (buf ! c))
      else (x, base, BytesText, Unread))"

fun paint_rows :: "viewport \<Rightarrow> int \<Rightarrow> byte_overview \<Rightarrow> int list \<Rightarrow> 'c handle \<Rightarrow> painted_row list \<times> 'c handle" where
  "paint_rows vp topRow p [] s = ([], s)"
| "paint_rows vp topRow p (r # rs) s =
     (let cols = columns vp p;
          rowAddr = bo_start p + to_u64 (topRow + r) * to_u64 cols
      in if bo_end p \<le> rowAddr then ([], s)
         else
           let y = kMargin + r * bo_cellH p;
               want = min (to_u64 cols) (bo_end p - rowAddr)
           in case irida_read_memory rowAddr want True s of (buf, s1) \<Rightarrow>
                let row = \<lparr>pr_address = rowAddr, pr_y = y, pr_cells = map (paint_cell p y buf) [0..<unat want]\<rparr>
                in case paint_rows vp topRow p rs s1 of (rows, s2) \<Rightarrow> (row # rows, s2))"

definition overview_paint :: "viewport \<Rightarrow> int \<Rightarrow> byte_overview \<Rightarrow> 'c handle \<Rightarrow> painted_row list \<times> 'c handle" where
  "overview_paint vp scroll p s =
     (if bo_end p \<le> bo_start p then ([], s) else paint_rows vp scroll p [0..visibleRows vp p] s)"

section \<open>The strip of cells\<close>

datatype mode = SectionTexture | Content | Entropy

datatype cell_colour =
    Background
  | SectionShade "nat option" nat nat \<comment> \<open>section, zero bytes, length of the run\<close>
  | PaddingGray | TextGreen | DenseOrange | CodeBlue
  | EntropyHeat "nat list" nat \<comment> \<open>how often each byte occurs, length of the run\<close>

record byte_map_strip =
  bm_mode :: mode
  bm_start :: u64
  bm_end :: u64
  bm_width :: int
  bm_height :: int
  bm_cols :: int
  bm_cache :: "cell_colour list list option"
  bm_pinned :: "int \<times> int"
  bm_dragging :: bool

definition strip_init :: "mode \<Rightarrow> int \<Rightarrow> int \<Rightarrow> byte_map_strip" where
  "strip_init m w h =
     \<lparr>bm_mode = m, bm_start = 0, bm_end = 0, bm_width = w, bm_height = h, bm_cols = 24, bm_cache = None,
      bm_pinned = (-1, -1), bm_dragging = False\<rparr>"

definition in_section :: "u64 \<Rightarrow> api_section \<Rightarrow> bool" where
  "in_section addr sec \<longleftrightarrow> asec_vaddr sec \<le> addr \<and> addr < asec_vaddr sec + asec_vsize sec"

definition sectionIndexFor :: "u64 \<Rightarrow> 'c handle \<Rightarrow> nat option \<times> 'c handle" where
  "sectionIndexFor addr s =
     (case irida_sections True s of (secs, s1) \<Rightarrow>
        (map_option fst (List.find (\<lambda>(i, sec). in_section addr sec) (enumerate 0 secs)), s1))"

definition bytesPerRow :: "byte_map_strip \<Rightarrow> int" where
  "bytesPerRow m =
     (if bm_end m \<le> bm_start m \<or> bm_height m \<le> 0 then bm_cols m
      else
        let total = bm_end m - bm_start m;
            rows = max 1 (bm_height m);
            perRow = (total + to_u64 rows - 1) div to_u64 rows;
            perRow = ((perRow + to_u64 (bm_cols m) - 1) div to_u64 (bm_cols m)) * to_u64 (bm_cols m)
        in to_int (max perRow (to_u64 (bm_cols m))))"

definition content_colour :: "bytes \<Rightarrow> cell_colour" where
  "content_colour bs =
     (let zeros = length (filter (\<lambda>v. v = 0) bs);
          ascii = length (filter (\<lambda>v. v \<noteq> 0 \<and> 0x20 \<le> v \<and> v < 0x7f) bs);
          high = length (filter (\<lambda>v. v \<noteq> 0 \<and> \<not> (0x20 \<le> v \<and> v < 0x7f)) bs)
      in if 0 < length bs \<and> 3 * length bs \<le> 4 * zeros then PaddingGray
         else if high \<le> ascii \<and> 0 < ascii then TextGreen
         else if ascii * 2 < high then DenseOrange
         else CodeBlue)"

definition colorForRun :: "mode \<Rightarrow> bytes \<Rightarrow> u64 \<Rightarrow> 'c handle \<Rightarrow> cell_colour \<times> 'c handle" where
  "colorForRun m bs addr s =
     (case m of
        SectionTexture \<Rightarrow>
          (case sectionIndexFor addr s of (idx, s1) \<Rightarrow>
             (SectionShade idx (length (filter (\<lambda>v. v = 0) bs)) (length bs), s1))
      | Content \<Rightarrow> (content_colour bs, s)
      | Entropy \<Rightarrow>
          (EntropyHeat (map (\<lambda>v. length (filter (\<lambda>b. b = word_of_nat v) bs)) [0..<256]) (length bs), s))"

text \<open>One row of cells: cells beyond the bytes wanted or read are background.\<close>

fun paint_cells ::
    "mode \<Rightarrow> int \<Rightarrow> int \<Rightarrow> bytes \<Rightarrow> u64 \<Rightarrow> int list \<Rightarrow> 'c handle \<Rightarrow> cell_colour list \<times> 'c handle" where
  "paint_cells m colBytes want buf rowAddr [] s = ([], s)"
| "paint_cells m colBytes want buf rowAddr (c # cs) s =
     (let off = c * colBytes;
          len = min colBytes (want - off);
          have_bytes = min len (max 0 (int (length buf) - off))
      in case (if off < want \<and> 0 < have_bytes
               then colorForRun m (take (nat have_bytes) (drop (nat off) buf)) (rowAddr + to_u64 off) s
               else (Background, s)) of (colour, s1) \<Rightarrow>
         case paint_cells m colBytes want buf rowAddr cs s1 of (colours, s2) \<Rightarrow> (colour # colours, s2))"

fun cache_rows :: "byte_map_strip \<Rightarrow> int list \<Rightarrow> 'c handle \<Rightarrow> cell_colour list list \<times> 'c handle" where
  "cache_rows m [] s = ([], s)"
| "cache_rows m (y # ys) s =
     (let perRow = bytesPerRow m;
          colBytes = max 1 (perRow sdiv bm_cols m);
          rowAddr = bm_start m + to_u64 y * to_u64 perRow
      in if bm_end m \<le> rowAddr
         then (replicate (length (y # ys)) (replicate (nat (bm_cols m)) Background), s)
         else
           let want = min (to_u64 perRow) (bm_end m - rowAddr) in
           case irida_read_memory rowAddr want True s of (buf, s1) \<Rightarrow>
           case paint_cells (bm_mode m) colBytes (int (unat want)) buf rowAddr [0..bm_cols m - 1] s1 of (row, s2) \<Rightarrow>
           case cache_rows m ys s2 of (rows, s3) \<Rightarrow> (row # rows, s3))"

definition rebuildCache :: "'c handle \<Rightarrow> byte_map_strip \<Rightarrow> byte_map_strip \<times> 'c handle" where
  "rebuildCache s m =
     (if bm_width m \<le> 0 \<or> bm_height m \<le> 0 \<or> bm_end m \<le> bm_start m then (m\<lparr>bm_cache := None\<rparr>, s)
      else case cache_rows m [0..bm_height m - 1] s of (rows, s1) \<Rightarrow> (m\<lparr>bm_cache := Some rows\<rparr>, s1))"

definition setRange :: "u64 \<Rightarrow> u64 \<Rightarrow> 'c handle \<Rightarrow> byte_map_strip \<Rightarrow> byte_map_strip \<times> 'c handle" where
  "setRange start finish s m = rebuildCache s (m\<lparr>bm_start := start, bm_end := finish\<rparr>)"

definition strip_resize :: "int \<Rightarrow> int \<Rightarrow> 'c handle \<Rightarrow> byte_map_strip \<Rightarrow> byte_map_strip \<times> 'c handle" where
  "strip_resize w h s m = rebuildCache s (m\<lparr>bm_width := w, bm_height := h\<rparr>)"

definition strip_addressAt :: "int \<times> int \<Rightarrow> byte_map_strip \<Rightarrow> u64" where
  "strip_addressAt pos m =
     (if bm_end m \<le> bm_start m then 0
      else
        let perRow = bytesPerRow m;
            colBytes = max 1 (perRow sdiv bm_cols m);
            cellW = max 1 (bm_width m sdiv bm_cols m);
            y = clamp (snd pos) 0 (bm_height m - 1);
            c = clamp (fst pos sdiv cellW) 0 (bm_cols m - 1);
            addr = bm_start m + to_u64 y * to_u64 perRow + to_u64 c * to_u64 colBytes
        in if addr < bm_end m then addr else bm_end m - 1)"

text \<open>Mouse buttons and moves answer the address that is picked, moves also the tool tip, if any.\<close>

definition strip_press :: "bool \<Rightarrow> int \<times> int \<Rightarrow> byte_map_strip \<Rightarrow> byte_map_strip \<times> u64 option" where
  "strip_press left_button pos m =
     (if \<not> left_button then (m, None)
      else let addr = strip_addressAt pos m in
        (m\<lparr>bm_dragging := True, bm_pinned := pos\<rparr>, if addr \<noteq> 0 then Some addr else None))"

definition tooltip :: "u64 \<Rightarrow> api_section list \<Rightarrow> string" where
  "tooltip addr secs =
     (case List.find (in_section addr) secs of
        Some sec \<Rightarrow>
          if asec_name sec = '''' then ''0x'' @ hex_digits (unat addr)
          else asec_name sec @ ''  0x'' @ hex_digits (unat addr)
      | None \<Rightarrow> ''0x'' @ hex_digits (unat addr))"

definition strip_move ::
    "int \<times> int \<Rightarrow> 'c handle \<Rightarrow> byte_map_strip \<Rightarrow> (byte_map_strip \<times> u64 option \<times> string option) \<times> 'c handle" where
  "strip_move pos s m =
     (let addr = strip_addressAt pos m;
          m1 = (if bm_dragging m then m\<lparr>bm_pinned := pos\<rparr> else m);
          picked = (if bm_dragging m \<and> addr \<noteq> 0 then Some addr else None)
      in if addr = 0 then ((m1, picked, None), s)
         else case irida_sections True s of (secs, s1) \<Rightarrow> ((m1, picked, Some (tooltip addr secs)), s1))"

definition strip_release :: "bool \<Rightarrow> byte_map_strip \<Rightarrow> byte_map_strip" where
  "strip_release left_button m = (if left_button then m\<lparr>bm_dragging := False\<rparr> else m)"

text \<open>\<open>ByteMapView::refresh\<close>\<close>

definition map_view_refresh :: "'c handle \<Rightarrow> byte_map_strip \<Rightarrow> byte_map_strip \<times> 'c handle" where
  "map_view_refresh s m =
     (case irida_sections True s of (secs, s1) \<Rightarrow>
      case image_range secs of (start, finish) \<Rightarrow> setRange start finish s1 m)"

section \<open>A click on the grid means the byte that is drawn there\<close>

lemma columns_pos: "1 \<le> columns vp p"
  by (simp add: columns_def Let_def)

lemma sdiv_cell: "0 < (w :: int) \<Longrightarrow> int c * w \<le> d \<Longrightarrow> d < int c * w + w \<Longrightarrow> d sdiv w = int c"
proof -
  assume w: "0 < w" "int c * w \<le> d" "d < int c * w + w"
  then have "0 \<le> d" by (smt (verit) mult_nonneg_nonneg of_nat_0_le_iff)
  moreover have "d div w = int c"
    using w by (intro int_div_pos_eq [of _ _ _ "d - int c * w"]) (simp_all add: mult.commute)
  ultimately show ?thesis using w(1) by (cases "d = 0") (auto simp: signed_divide_int_def)
qed

lemma unat_to_u64_le: "0 \<le> i \<Longrightarrow> unat (to_u64 i) \<le> nat i"
proof -
  assume "0 \<le> i"
  then have "to_u64 i = word_of_nat (nat i)" by (simp add: to_u64_def)
  then show ?thesis by (simp add: unat_of_nat)
qed

lemma paint_rows_nth:
  "paint_rows vp topRow p rs s = (rows, s1) \<Longrightarrow> k < length rows \<Longrightarrow>
   k < length rs \<and>
   pr_address (rows ! k) = bo_start p + to_u64 (topRow + rs ! k) * to_u64 (columns vp p) \<and>
   pr_address (rows ! k) < bo_end p \<and> pr_y (rows ! k) = kMargin + rs ! k * bo_cellH p \<and>
   (\<exists>buf. pr_cells (rows ! k) = map (paint_cell p (pr_y (rows ! k)) buf)
      [0..<unat (min (to_u64 (columns vp p)) (bo_end p - pr_address (rows ! k)))])"
proof (induction rs arbitrary: s rows s1 k)
  case (Cons r rs)
  let ?addr = "bo_start p + to_u64 (topRow + r) * to_u64 (columns vp p)"
  show ?case
  proof (cases "bo_end p \<le> ?addr")
    case True
    with Cons.prems show ?thesis by (simp add: Let_def)
  next
    case False
    obtain buf s2 where rd: "irida_read_memory ?addr (min (to_u64 (columns vp p)) (bo_end p - ?addr)) True s = (buf, s2)"
      by fastforce
    obtain rows2 s3 where rest: "paint_rows vp topRow p rs s2 = (rows2, s3)" by fastforce
    from Cons.prems(1) False rd rest have rows: "rows =
        \<lparr>pr_address = ?addr, pr_y = kMargin + r * bo_cellH p,
         pr_cells = map (paint_cell p (kMargin + r * bo_cellH p) buf)
           [0..<unat (min (to_u64 (columns vp p)) (bo_end p - ?addr))]\<rparr> # rows2"
      by (simp add: Let_def)
    show ?thesis
    proof (cases k)
      case 0
      with False show ?thesis unfolding rows by auto
    next
      case (Suc j)
      with Cons.prems(2) rows have "j < length rows2" by simp
      from Cons.IH [OF rest this] show ?thesis
        unfolding rows Suc nth_Cons_Suc length_Cons Suc_less_eq .
    qed
  qed
qed simp

lemma unat_u64_less: "unat (x :: u64) < 2 ^ 64"
  by (rule order_less_le_trans [OF unsigned_less]) simp

lemma below_end: "c < unat (min n (e - a)) \<Longrightarrow> a < e \<Longrightarrow> a + word_of_nat c < (e :: u64) \<and> c < unat n"
proof -
  assume c: "c < unat (min n (e - a))" and a: "a < e"
  have "c < unat (e - a)" "c < unat n" using c by (auto simp: min_def word_le_nat_alt split: if_splits)
  moreover have "unat (e - a) = unat e - unat a" using a by (simp add: unat_sub less_imp_le)
  moreover have "unat (word_of_nat c :: u64) = c"
    using \<open>c < unat n\<close> unat_u64_less [of n] by (simp add: unat_of_nat take_bit_nat_eq_self)
  moreover have "unat (a + word_of_nat c) = unat a + c"
    using calculation unat_u64_less [of e] by (subst unat_add_lem [THEN iffD1]) auto
  ultimately show ?thesis by (simp add: word_less_nat_alt)
qed

text \<open>C36: Wherever a byte is drawn in the overview, a press on any pixel of its cell means the address of
  that byte, however far the view is scrolled.\<close>

theorem overview_press_hits_drawn_byte:
  assumes "overview_paint vp scroll p s = (rows, s1)" "k < length rows" "c < length (pr_cells (rows ! k))"
    "pr_cells (rows ! k) ! c = (x, base, ink, glyph)" "0 < bo_cellW p" "0 < bo_cellH p" "0 \<le> scroll"
    "x \<le> px" "px < x + bo_cellW p" "pr_y (rows ! k) \<le> py" "py < pr_y (rows ! k) + bo_cellH p"
  shows "overview_addressAt vp scroll (px, py) p = pr_address (rows ! k) + word_of_nat c"
proof -
  have range: "bo_start p < bo_end p" and paint: "paint_rows vp scroll p [0..visibleRows vp p] s = (rows, s1)"
    using assms(1,2) by (auto simp: overview_paint_def split: if_splits)
  note row = paint_rows_nth [OF paint assms(2)]
  then have "k < length [0..visibleRows vp p]" by (rule conjunct1)
  then have k: "[0..visibleRows vp p] ! k = int k" by (simp add: nth_upto)
  from row obtain buf where cells: "pr_cells (rows ! k) = map (paint_cell p (pr_y (rows ! k)) buf)
      [0..<unat (min (to_u64 (columns vp p)) (bo_end p - pr_address (rows ! k)))]" by blast
  with assms(3) have c: "c < unat (min (to_u64 (columns vp p)) (bo_end p - pr_address (rows ! k)))" by simp
  from below_end [OF c] row have le: "pr_address (rows ! k) + word_of_nat c < bo_end p" "c < unat (to_u64 (columns vp p))"
    by auto
  with unat_to_u64_le [of "columns vp p"] columns_pos [of vp p] have cols: "int c \<le> columns vp p - 1" by simp
  have "x = bo_gutterW p + int c * bo_cellW p"
    using assms(4) c cells by (simp add: paint_cell_def Let_def split: if_splits)
  then have "(px - bo_gutterW p) sdiv bo_cellW p = int c" using assms(5,8,9) by (intro sdiv_cell) auto
  moreover have "(py - kMargin) sdiv bo_cellH p = int k"
    using assms(6,10,11) row k by (intro sdiv_cell) auto
  ultimately show ?thesis
    using not_le [THEN iffD2, OF range] row k le cols assms(7)
    by (simp add: overview_addressAt_def Let_def clamp_def to_u64_def)
qed

section \<open>A click on the strip stays inside the image\<close>

text \<open>Strips the arithmetic of the code is exact for: up to a gigabyte shown on up to 32768 pixel rows.\<close>

definition strip_fits :: "byte_map_strip \<Rightarrow> bool" where
  "strip_fits m \<longleftrightarrow>
     bm_start m < bm_end m \<and> bm_end m \<le> 2 ^ 63 \<and> unat (bm_end m - bm_start m) \<le> 2 ^ 30 \<and>
     0 < bm_height m \<and> bm_height m \<le> 2 ^ 15 \<and> bm_cols m = 24 \<and> 24 \<le> bm_width m"

lemma unat_add_small: "unat a + unat b < 2 ^ 64 \<Longrightarrow> unat (a + b :: u64) = unat a + unat b"
  by (subst unat_add_lem [THEN iffD1]) simp_all

lemma unat_mult_small: "unat a * unat b < 2 ^ 64 \<Longrightarrow> unat (a * b :: u64) = unat a * unat b"
  by (subst unat_mult_lem [THEN iffD1]) simp_all

lemma small_sum: "(a :: nat) < 2 ^ 63 \<Longrightarrow> b < 2 ^ 46 \<Longrightarrow> c < 2 ^ 36 \<Longrightarrow> a + b + c < 2 ^ 64"
  by simp

lemma unat_linear:
  assumes "unat a + unat b * unat c + unat d * unat e < 2 ^ 64"
  shows "unat (a + b * c + d * e :: u64) = unat a + unat b * unat c + unat d * unat e"
proof -
  have "unat (b * c) = unat b * unat c" "unat (d * e) = unat d * unat e" using assms by (simp_all add: unat_mult_small)
  with assms show ?thesis by (simp add: unat_add_small)
qed

lemma unat_to_u64: "0 \<le> i \<Longrightarrow> i < 2 ^ 64 \<Longrightarrow> unat (to_u64 i) = nat i"
proof -
  assume i: "0 \<le> i" "i < 2 ^ 64"
  then have "to_u64 i = word_of_nat (nat i)" "nat i < 2 ^ 64" by (simp_all add: to_u64_def)
  then show ?thesis by (simp add: unat_of_nat take_bit_nat_eq_self)
qed

lemma to_int_small: "unat x < 2 ^ 31 \<Longrightarrow> to_int x = int (unat x)"
proof -
  assume "unat x < 2 ^ 31"
  then have x: "uint x < 2 ^ 31" by (metis of_nat_less_numeral_power_cancel_iff uint_nat)
  have "sint (ucast x :: u32) = signed_take_bit 31 (take_bit 32 (uint x))"
    by (simp add: sint_uint unsigned_ucast_eq)
  also have "take_bit 32 (uint x) = uint x"
    by (rule take_bit_int_eq_self) (use x in simp_all)
  also have "signed_take_bit 31 (uint x) = uint x"
    by (rule signed_take_bit_int_eq_self) (use x in \<open>simp_all add: order_trans [OF _ uint_ge_0]\<close>)
  finally show ?thesis by (simp add: to_int_def)
qed

lemma round_up: "(q :: nat) \<le> 24 * ((q + 23) div 24) \<and> 24 * ((q + 23) div 24) \<le> q + 23"
  by presburger

lemma bytesPerRow_eq:
  assumes "strip_fits m"
  obtains k where "1 \<le> k" "bytesPerRow m = 24 * int k" "unat (bm_end m - bm_start m) \<le> nat (bm_height m) * (24 * k)"
    "24 * k < 2 ^ 31"
proof -
  let ?T = "unat (bm_end m - bm_start m)" and ?h = "nat (bm_height m)"
  let ?q = "(?T + ?h - 1) div ?h"
  let ?k = "(?q + 23) div 24"
  have m: "bm_start m < bm_end m" "?T \<le> 2 ^ 30" "0 < ?h" "?h \<le> 2 ^ 15" "bm_cols m = 24" "0 < bm_height m"
    using assms by (auto simp: strip_fits_def)
  have T: "0 < ?T" using m(1) by (simp add: unat_gt_0)
  have h: "unat (to_u64 (bm_height m)) = ?h" using m by (intro unat_to_u64) auto
  have c: "unat (to_u64 24) = 24" by (simp add: to_u64_def)
  have q: "?q \<le> 2 ^ 30 + 2 ^ 15" "0 < ?q" using m(2-4) T by (auto intro!: div_le_dividend [THEN order_trans] simp: div_greater_zero_iff)
  have "unat (bm_end m - bm_start m + to_u64 (bm_height m) - 1) = ?T + ?h - 1"
    using m T h by (subst unat_sub) (auto simp: unat_add_small word_le_nat_alt)
  then have p0: "unat ((bm_end m - bm_start m + to_u64 (bm_height m) - 1) div to_u64 (bm_height m)) = ?q"
    by (simp add: unat_div h)
  let ?p0 = "(bm_end m - bm_start m + to_u64 (bm_height m) - 1) div to_u64 (bm_height m)"
  have "unat (?p0 + to_u64 24 - 1) = ?q + 23"
    using p0 q c by (subst unat_sub) (auto simp: unat_add_small word_le_nat_alt)
  then have "unat ((?p0 + to_u64 24 - 1) div to_u64 24) = ?k" by (simp add: unat_div c)
  moreover have k: "24 * ?k < 2 ^ 31"
    by (rule order_le_less_trans [OF conjunct2 [OF round_up]], rule order_le_less_trans [OF add_right_mono [OF q(1)]]) simp
  moreover have k1: "1 \<le> ?k"
    using order_less_le_trans [OF q(2) conjunct1 [OF round_up]] by linarith
  ultimately have p1: "unat ((?p0 + to_u64 24 - 1) div to_u64 24 * to_u64 24) = 24 * ?k"
    by (subst unat_mult_small) (simp_all add: c)
  let ?p1 = "(?p0 + to_u64 24 - 1) div to_u64 24 * to_u64 24"
  have "max ?p1 (to_u64 24) = ?p1"
    by (rule max_absorb1) (use p1 k1 c in \<open>simp add: word_le_nat_alt\<close>)
  moreover have "max 1 (bm_height m) = bm_height m" using m(6) by simp
  moreover have "\<not> bm_end m \<le> bm_start m" "\<not> bm_height m \<le> 0" using m(1,6) by auto
  ultimately have "bytesPerRow m = to_int ?p1" by (simp only: bytesPerRow_def Let_def m(5)) simp
  also have "\<dots> = 24 * int ?k" using to_int_small [of ?p1] p1 k by simp
  finally have "bytesPerRow m = 24 * int ?k" .
  moreover have "?T \<le> ?h * ?q"
  proof -
    have "?T + ?h - 1 = ?h * ?q + (?T + ?h - 1) mod ?h" by simp
    moreover have "(?T + ?h - 1) mod ?h < ?h" using m(3) by simp
    ultimately show ?thesis by linarith
  qed
  then have "?T \<le> ?h * (24 * ?k)" using round_up [of ?q] by (meson le_trans mult_le_mono2)
  ultimately show ?thesis using k k1 that by blast
qed

text \<open>The address of cell \<open>c\<close> of pixel row \<open>y\<close>, in natural numbers.\<close>

definition cell_address :: "byte_map_strip \<Rightarrow> nat \<Rightarrow> nat \<Rightarrow> nat \<Rightarrow> nat" where
  "cell_address m k y c = unat (bm_start m) + y * (24 * k) + c * k"

lemma strip_addressAt_eq:
  assumes "strip_fits m" "bytesPerRow m = 24 * int k" "1 \<le> k" "24 * k < 2 ^ 31"
  obtains y c where "y < nat (bm_height m)" "c < 24" "int y = clamp (snd pos) 0 (bm_height m - 1)"
    "int c = clamp (fst pos sdiv (bm_width m sdiv 24)) 0 23"
    "unat (strip_addressAt pos m) =
      (if cell_address m k y c < unat (bm_end m) then cell_address m k y c else unat (bm_end m) - 1)"
proof -
  let ?y = "clamp (snd pos) 0 (bm_height m - 1)"
  let ?c = "clamp (fst pos sdiv (bm_width m sdiv 24)) 0 23"
  have m: "bm_start m < bm_end m" "bm_end m \<le> 2 ^ 63" "0 < bm_height m" "bm_height m \<le> 2 ^ 15" "bm_cols m = 24" "24 \<le> bm_width m"
    using assms(1) by (auto simp: strip_fits_def)
  have y: "0 \<le> ?y" "?y < bm_height m" and c: "0 \<le> ?c" "?c < 24" using m(3) by (auto simp: clamp_def)
  have u: "unat (to_u64 ?y) = nat ?y" "unat (to_u64 ?c) = nat ?c" using y c m(4) by (intro unat_to_u64; simp)+
  have v: "unat (to_u64 (24 * int k)) = 24 * k" "unat (to_u64 (int k)) = k"
    using assms(4) by (subst unat_to_u64; simp)+
  have A: "nat ?y * (24 * k) < 2 ^ 46"
  proof -
    have "nat ?y < 2 ^ 15" using y m(4) by simp
    from mult_strict_mono' [OF this assms(4)] show ?thesis by (simp add: mult.assoc)
  qed
  have B: "nat ?c * k < 2 ^ 36"
  proof -
    have "nat ?c * k \<le> 24 * k" using c by (intro mult_right_mono) simp_all
    from order_le_less_trans [OF this assms(4)] show ?thesis by (rule order_less_trans) simp
  qed
  have "unat (bm_start m) < 2 ^ 63" using m(1,2) by (simp add: word_le_nat_alt word_less_nat_alt)
  from small_sum [OF this A B] have addr: "unat (bm_start m + to_u64 ?y * to_u64 (24 * int k) + to_u64 ?c * to_u64 (int k)) =
      cell_address m k (nat ?y) (nat ?c)"
    using unat_linear [of "bm_start m" "to_u64 ?y" "to_u64 (24 * int k)" "to_u64 ?c" "to_u64 (int k)"]
    unfolding u v cell_address_def by blast
  have "(24 * int k) sdiv 24 = int k" by (rule sdiv_cell [of 24 k]) simp_all
  then have colBytes: "max 1 (bytesPerRow m sdiv bm_cols m) = int k" using assms(2,3) m(5) by simp
  have "bm_width m sdiv 24 = bm_width m div 24" using m(6) by (simp add: signed_divide_int_def)
  then have "1 \<le> bm_width m sdiv 24" using m(6) by (simp add: pos_imp_zdiv_pos_iff int_one_le_iff_zero_less)
  then have cellW: "max 1 (bm_width m sdiv bm_cols m) = bm_width m sdiv 24" using m(5) by simp
  have "unat (strip_addressAt pos m) = (if cell_address m k (nat ?y) (nat ?c) < unat (bm_end m)
      then cell_address m k (nat ?y) (nat ?c) else unat (bm_end m) - 1)"
  proof -
    have "strip_addressAt pos m =
        (let addr = bm_start m + to_u64 ?y * to_u64 (24 * int k) + to_u64 ?c * to_u64 (int k) in
         if addr < bm_end m then addr else bm_end m - 1)"
      unfolding strip_addressAt_def Let_def colBytes cellW using not_le [THEN iffD2, OF m(1)] m(5) assms(2) by simp
    moreover have "unat (bm_end m - 1) = unat (bm_end m) - 1" using m(1) by (intro unat_minus_one) auto
    ultimately show ?thesis using addr by (simp add: Let_def word_less_nat_alt)
  qed
  then show ?thesis using y c by (intro that [of "nat ?y" "nat ?c"]) simp_all
qed

text \<open>The pixel that shows byte \<open>a\<close>.\<close>

lemma strip_reaches:
  assumes "strip_fits m" "1 \<le> k" "bytesPerRow m = 24 * int k" "24 * k < 2 ^ 31"
    "unat (bm_end m - bm_start m) \<le> nat (bm_height m) * (24 * k)" "bm_start m \<le> a" "a < bm_end m"
  shows "\<exists>x y. 0 \<le> x \<and> x < bm_width m \<and> 0 \<le> y \<and> y < bm_height m \<and>
      strip_addressAt (x, y) m \<le> a \<and> unat a - unat (strip_addressAt (x, y) m) < nat (bytesPerRow m) div 24"
proof -
  note k = assms(2,3,4,5) and that = assms(6,7) and eq = strip_addressAt_eq [OF assms(1,3,2,4)]
  have m: "24 \<le> bm_width m" using assms(1) by (simp add: strip_fits_def)
  define d where "d = unat a - unat (bm_start m)"
  define y where "y = d div (24 * k)"
  define c where "c = d mod (24 * k) div k"
  let ?w = "bm_width m sdiv 24"
  have a: "unat a = unat (bm_start m) + d" "unat a < unat (bm_end m)"
    using that by (simp_all add: d_def word_le_nat_alt word_less_nat_alt)
  have "d < nat (bm_height m) * (24 * k)"
    using a that k(4) by (simp add: unat_sub word_le_nat_alt)
  then have y: "y < nat (bm_height m)" using k(1) by (simp add: y_def less_mult_imp_div_less)
  have "d mod (24 * k) < 24 * k" using k(1) by simp
  then have c: "c < 24" unfolding c_def using k(1) by (intro less_mult_imp_div_less) simp_all
  have split: "d = y * (24 * k) + c * k + d mod (24 * k) mod k"
    unfolding y_def c_def by (metis add.assoc div_mult_mod_eq)
  have w: "1 \<le> ?w" "24 * ?w \<le> bm_width m"
    using m by (simp_all add: signed_divide_int_def pos_imp_zdiv_pos_iff int_one_le_iff_zero_less)
  have "int c * ?w < bm_width m"
  proof -
    have "int c * ?w < 24 * ?w" using c w(1) by (intro mult_strict_right_mono) simp_all
    with w(2) show ?thesis by linarith
  qed
  moreover have "(int c * ?w) sdiv ?w = int c" using w(1) by (intro sdiv_cell) simp_all
  moreover obtain y1 c1 where "int y1 = clamp (int y) 0 (bm_height m - 1)" "int c1 = clamp ((int c * ?w) sdiv ?w) 0 23"
    "unat (strip_addressAt (int c * ?w, int y) m) =
      (if cell_address m k y1 c1 < unat (bm_end m) then cell_address m k y1 c1 else unat (bm_end m) - 1)"
    by (rule eq [of "(int c * ?w, int y)"]) simp
  ultimately have "unat (strip_addressAt (int c * ?w, int y) m) = unat (bm_start m) + y * (24 * k) + c * k"
    using y c a split by (simp add: clamp_def cell_address_def split: if_splits)
  moreover have "d mod (24 * k) mod k < k" using k(1) by simp
  ultimately have "strip_addressAt (int c * ?w, int y) m \<le> a \<and>
      unat a - unat (strip_addressAt (int c * ?w, int y) m) < nat (bytesPerRow m) div 24"
    using a split k(2) by (simp add: word_le_nat_alt nat_mult_distrib)
  with \<open>int c * ?w < bm_width m\<close> y w(1) show ?thesis
    by (intro exI [of _ "int c * ?w"] exI [of _ "int y"]) auto
qed

text \<open>Whatever pixel of the strip is pressed, the address lies in the image; and for every byte of the image
  there is a pixel of the strip whose address is that byte's or at most a cell below it.\<close>

theorem strip_picks_in_image:
  assumes "strip_fits m"
  shows "bm_start m \<le> strip_addressAt pos m \<and> strip_addressAt pos m < bm_end m \<and>
     (\<forall>a. bm_start m \<le> a \<longrightarrow> a < bm_end m \<longrightarrow>
        (\<exists>x y. 0 \<le> x \<and> x < bm_width m \<and> 0 \<le> y \<and> y < bm_height m \<and>
           strip_addressAt (x, y) m \<le> a \<and> unat a - unat (strip_addressAt (x, y) m) < nat (bytesPerRow m) div 24))"
proof -
  obtain k where k: "1 \<le> k" "bytesPerRow m = 24 * int k" "24 * k < 2 ^ 31"
    "unat (bm_end m - bm_start m) \<le> nat (bm_height m) * (24 * k)"
    using bytesPerRow_eq [OF assms] by metis
  note eq = strip_addressAt_eq [OF assms k(2,1,3)]
  have m: "unat (bm_start m) < unat (bm_end m)" "24 \<le> bm_width m" "0 < bm_height m"
    using assms by (auto simp: strip_fits_def word_less_nat_alt)
  have "bm_start m \<le> strip_addressAt pos m \<and> strip_addressAt pos m < bm_end m"
    by (rule eq [of pos]) (use m in \<open>auto simp: word_le_nat_alt word_less_nat_alt cell_address_def split: if_splits\<close>)
  moreover note strip_reaches [OF assms k]
  ultimately show ?thesis by blast
qed

section \<open>A small image\<close>

definition small_viewport :: viewport where
  "small_viewport = \<lparr>vp_width = 100, vp_height = 30\<rparr>"

definition small_overview :: byte_overview where
  "small_overview =
     \<lparr>bo_start = 0x1000, bo_end = 0x4000, bo_top = 0x1000, bo_cellW = 8, bo_cellH = 14, bo_gutterW = 40,
      bo_range = (0, 0), bo_page = 0, bo_set_value = None\<rparr>"

definition no_session :: "unit handle" where
  "no_session = None"

lemma small_overview_painted:
  "bo_cellW small_overview = 8" "bo_cellH small_overview = 14"
  "map pr_address (fst (overview_paint small_viewport 2 small_overview no_session)) = [0x100E, 0x1015]"
  "map pr_y (fst (overview_paint small_viewport 2 small_overview no_session)) = [4, 18]"
  "fst (pr_cells (fst (overview_paint small_viewport 2 small_overview no_session) ! 1) ! 3) = 64"
  "length (pr_cells (fst (overview_paint small_viewport 2 small_overview no_session) ! 1)) = 7"
  by code_simp+

theorem overview_press_hits_drawn_byte_witness:
  "overview_addressAt small_viewport 2 (70, 25) small_overview = 0x1018"
proof -
  let ?rows = "fst (overview_paint small_viewport 2 small_overview no_session)"
  obtain s1 where rows: "overview_paint small_viewport 2 small_overview no_session = (?rows, s1)"
    by (metis prod.collapse)
  obtain base ink glyph where cell: "pr_cells (?rows ! 1) ! 3 = (64, base, ink, glyph)"
    using small_overview_painted(5) by (metis prod.collapse)
  have "length ?rows = 2" using small_overview_painted(3) by (metis length_map length_Cons list.size(3) numeral_2_eq_2)
  moreover from this have "pr_address (?rows ! 1) = 0x1015" "pr_y (?rows ! 1) = 18"
    using small_overview_painted(3,4) by (metis One_nat_def lessI nth_Cons_0 nth_Cons_Suc nth_map numeral_2_eq_2)+
  ultimately show ?thesis
    using overview_press_hits_drawn_byte [OF rows, of 1 3 64 base ink glyph 70 25] cell small_overview_painted(1,2,6) by simp
qed

definition small_strip :: byte_map_strip where
  "small_strip = (strip_init SectionTexture 64 100)\<lparr>bm_start := 0x1000, bm_end := 0x4000\<rparr>"

lemma small_strip_facts:
  "strip_fits small_strip" "bm_start small_strip = 0x1000" "bm_end small_strip = 0x4000" "bytesPerRow small_strip = 144"
  by (simp_all add: strip_fits_def small_strip_def strip_init_def bytesPerRow_def to_u64_def to_int_def max_def)

theorem strip_picks_in_image_witness:
  "0x1000 \<le> strip_addressAt (-7, 500) small_strip \<and> strip_addressAt (-7, 500) small_strip < 0x4000 \<and>
   (\<exists>x y. 0 \<le> x \<and> x < bm_width small_strip \<and> 0 \<le> y \<and> y < bm_height small_strip \<and>
      strip_addressAt (x, y) small_strip \<le> 0x2345 \<and> unat (0x2345 :: u64) - unat (strip_addressAt (x, y) small_strip) < 6)"
  using strip_picks_in_image [OF small_strip_facts(1), of "(-7, 500)"]
    strip_picks_in_image [OF small_strip_facts(1), THEN conjunct2, THEN conjunct2, THEN spec [of _ "0x2345"]] small_strip_facts(2-4)
  by simp

text \<open>
  The cells are scaled to the width of the strip, 64 pixels for 24 cells, but a pixel is divided by
  the whole number 2: half way across, where cell 12 is drawn, a press picks cell 16.
\<close>

theorem strip_pick_misses_cell:
  "strip_addressAt (32, 0) small_strip = 0x1000 + 16 * 6 \<and> 32 * bm_cols small_strip div bm_width small_strip = 12"
  by (simp add: strip_addressAt_def small_strip_facts Let_def clamp_def signed_divide_int_def to_u64_def)
    (simp add: small_strip_def strip_init_def clamp_def)

end
