(* ===== verification/Asm_Tokenizer.thy ===== *)
theory Asm_Tokenizer
  imports Prelude
begin

text \<open>
  irida-ui/gui/src/theme/asm_tokenizer.hpp and asm_tokenizer.cpp: cutting the text of an
  instruction into tokens for painting.  A \<open>QString\<close> is a list of 16-bit code units; the
  character classes and the lower-casing of Qt are a parameter, of which nothing is assumed.
\<close>

type_synonym qchar = u16
type_synonym qstring = "qchar list"

definition qs :: "string \<Rightarrow> qstring" where
  "qs t = map of_char t"

text \<open>What the source uses of \<open>QChar\<close> and \<open>QString::toLower\<close>.\<close>

record qchar_classes =
  isSpace :: "qchar \<Rightarrow> bool"
  isLetterOrNumber :: "qchar \<Rightarrow> bool"
  isDigit :: "qchar \<Rightarrow> bool"
  toLower :: "qstring \<Rightarrow> qstring"

datatype token_kind = Mnemonic | Register | Number | Brace | Punctuation | Whitespace | Text

record token =
  tk_text :: qstring
  tk_kind :: token_kind

definition registerNames :: "qstring set" where
  "registerNames = set (map qs
     [''rax'', ''rbx'', ''rcx'', ''rdx'', ''rsi'', ''rdi'', ''rbp'', ''rsp'', ''rip'', ''r8'', ''r9'', ''r10'',
      ''r11'', ''r12'', ''r13'', ''r14'', ''r15'', ''eax'', ''ebx'', ''ecx'', ''edx'', ''esi'', ''edi'', ''ebp'',
      ''esp'', ''r8d'', ''r9d'', ''ax'', ''bx'', ''cx'', ''dx'', ''al'', ''bl'', ''cl'', ''dl'', ''ah'',
      ''bh'', ''ch'', ''dh'', ''sil'', ''dil'', ''bpl'', ''spl'', ''xmm0'', ''xmm1'', ''xmm2'', ''xmm3'', ''xmm4'',
      ''xmm5'', ''xmm6'', ''xmm7'', ''cs'', ''ds'', ''es'', ''fs'', ''gs'', ''ss''])"

definition isWordChar :: "qchar_classes \<Rightarrow> qchar \<Rightarrow> bool" where
  "isWordChar Q c \<longleftrightarrow> isLetterOrNumber Q c \<or> c = of_char CHR ''_''"

definition looksLikeNumber :: "qchar_classes \<Rightarrow> qstring \<Rightarrow> bool" where
  "looksLikeNumber Q w =
     (if w = [] then False
      else if take 2 w = qs ''0x'' \<or> take 2 w = qs ''0X'' then True
      else list_all (isDigit Q) w)"

definition isBrace :: "qchar \<Rightarrow> bool" where
  "isBrace c \<longleftrightarrow> c \<in> set (qs ''[]'')"

definition isPunctuation :: "qchar \<Rightarrow> bool" where
  "isPunctuation c \<longleftrightarrow> c \<in> set (qs '',+*:-'')"

text \<open>The two inner loops: where the run of characters of a class that starts at \<open>j\<close> ends.\<close>

function run_end :: "(qchar \<Rightarrow> bool) \<Rightarrow> qstring \<Rightarrow> nat \<Rightarrow> nat" where
  "run_end P s j = (if j < length s \<and> P (s ! j) then run_end P s (Suc j) else j)"
  by pat_completeness auto
termination by (relation "measure (\<lambda>(P, s, j). length s - j)") auto

declare run_end.simps [simp del]

definition mid :: "qstring \<Rightarrow> nat \<Rightarrow> nat \<Rightarrow> qstring" where
  "mid s pos n = take n (drop pos s)"

definition word_kind :: "qchar_classes \<Rightarrow> bool \<Rightarrow> qstring \<Rightarrow> token_kind" where
  "word_kind Q seenMnemonic w =
     (if \<not> seenMnemonic then Mnemonic
      else if toLower Q w \<in> registerNames then Register
      else if looksLikeNumber Q w then Number
      else Text)"

text \<open>One turn of the loop at \<open>i\<close>: the token, where it ends, and the flag.\<close>

definition next_token :: "qchar_classes \<Rightarrow> qstring \<Rightarrow> nat \<Rightarrow> bool \<Rightarrow> token \<times> nat \<times> bool" where
  "next_token Q s i seen =
     (let c = s ! i in
      if isSpace Q c then
        let j = run_end (isSpace Q) s i in (\<lparr>tk_text = mid s i (j - i), tk_kind = Whitespace\<rparr>, j, seen)
      else if isBrace c then (\<lparr>tk_text = [c], tk_kind = Brace\<rparr>, i + 1, seen)
      else if isPunctuation c then (\<lparr>tk_text = [c], tk_kind = Punctuation\<rparr>, i + 1, seen)
      else if isWordChar Q c then
        let j = run_end (isWordChar Q) s i; w = mid s i (j - i) in
          (\<lparr>tk_text = w, tk_kind = word_kind Q seen w\<rparr>, j, True)
      else (\<lparr>tk_text = [c], tk_kind = Text\<rparr>, i + 1, seen))"

lemma run_end_ge: "i \<le> run_end P s i"
proof (induction P s i rule: run_end.induct)
  case (1 P s j)
  then show ?case by (subst run_end.simps) auto
qed

lemma run_end_le: "i \<le> length s \<Longrightarrow> run_end P s i \<le> length s"
proof (induction P s i rule: run_end.induct)
  case (1 P s j)
  then show ?case by (subst run_end.simps) auto
qed

lemma run_end_gt: "i < length s \<Longrightarrow> P (s ! i) \<Longrightarrow> i < run_end P s i"
  using run_end_ge [of "Suc i" P s] by (subst run_end.simps) auto

lemma run_end_all: "i \<le> k \<Longrightarrow> k < run_end P s i \<Longrightarrow> P (s ! k)"
proof (induction P s i rule: run_end.induct)
  case (1 P s j)
  show ?case
  proof (cases "j < length s \<and> P (s ! j)")
    case True
    with 1 show ?thesis by (cases "j = k") (auto simp: run_end.simps [of P s j])
  next
    case False
    with 1(2,3) show ?thesis by (auto simp: run_end.simps [of P s j] split: if_splits)
  qed
qed

lemma run_end_stops: "run_end P s i < length s \<Longrightarrow> \<not> P (s ! run_end P s i)"
proof (induction P s i rule: run_end.induct)
  case (1 P s j)
  show ?case
  proof (cases "j < length s \<and> P (s ! j)")
    case True
    with 1 show ?thesis by (simp add: run_end.simps [of P s j])
  next
    case False
    with 1(2) show ?thesis by (auto simp: run_end.simps [of P s j] split: if_splits)
  qed
qed

lemma next_token_moves:
  "i < length s \<Longrightarrow> next_token Q s i seen = (t, j, seen1) \<Longrightarrow> i < j \<and> j \<le> length s"
  using run_end_gt [of i s "isSpace Q"] run_end_gt [of i s "isWordChar Q"]
    run_end_le [of i s "isSpace Q"] run_end_le [of i s "isWordChar Q"]
  by (auto simp: next_token_def Let_def split: if_splits)

function tokenize_loop :: "qchar_classes \<Rightarrow> qstring \<Rightarrow> nat \<Rightarrow> bool \<Rightarrow> token list \<Rightarrow> token list" where
  "tokenize_loop Q s i seen out =
     (if i < length s then
        (case next_token Q s i seen of (t, j, seen1) \<Rightarrow> tokenize_loop Q s j seen1 (out @ [t]))
      else out)"
  by pat_completeness auto
termination
  by (relation "measure (\<lambda>(Q, s, i, seen, out). length s - i)")
    (auto dest!: next_token_moves [OF _ sym])

declare tokenize_loop.simps [simp del]

definition tokenize :: "qchar_classes \<Rightarrow> qstring \<Rightarrow> token list" where
  "tokenize Q instruction = tokenize_loop Q instruction 0 False []"

section \<open>The shape of the tokens\<close>

definition starts_word :: "qchar_classes \<Rightarrow> qchar \<Rightarrow> bool" where
  "starts_word Q c \<longleftrightarrow> \<not> isSpace Q c \<and> \<not> isBrace c \<and> \<not> isPunctuation c \<and> isWordChar Q c"

definition is_word :: "qchar_classes \<Rightarrow> token \<Rightarrow> bool" where
  "is_word Q t \<longleftrightarrow> starts_word Q (hd (tk_text t))"

definition token_ok :: "qchar_classes \<Rightarrow> token \<Rightarrow> bool" where
  "token_ok Q t \<longleftrightarrow> tk_text t \<noteq> [] \<and>
     (case tk_kind t of
        Whitespace \<Rightarrow> list_all (isSpace Q) (tk_text t)
      | Brace \<Rightarrow> length (tk_text t) = 1 \<and> isBrace (hd (tk_text t))
      | Punctuation \<Rightarrow> length (tk_text t) = 1 \<and> isPunctuation (hd (tk_text t))
      | Mnemonic \<Rightarrow> is_word Q t \<and> list_all (isWordChar Q) (tk_text t)
      | Register \<Rightarrow> is_word Q t \<and> list_all (isWordChar Q) (tk_text t) \<and> toLower Q (tk_text t) \<in> registerNames
      | Number \<Rightarrow> is_word Q t \<and> list_all (isWordChar Q) (tk_text t) \<and> looksLikeNumber Q (tk_text t)
      | Text \<Rightarrow> is_word Q t \<and> list_all (isWordChar Q) (tk_text t) \<or>
          length (tk_text t) = 1 \<and> \<not> isSpace Q (hd (tk_text t)) \<and> \<not> isWordChar Q (hd (tk_text t)))"

text \<open>Two neighbours are never two pieces of one run.\<close>

definition separate :: "qchar_classes \<Rightarrow> token \<Rightarrow> token \<Rightarrow> bool" where
  "separate Q a b \<longleftrightarrow> \<not> (tk_kind a = Whitespace \<and> tk_kind b = Whitespace) \<and> \<not> (is_word Q a \<and> is_word Q b)"

text \<open>The first word is the mnemonic; the kinds of the others depend on their texts alone.\<close>

definition words_classified :: "qchar_classes \<Rightarrow> token list \<Rightarrow> bool" where
  "words_classified Q ws \<longleftrightarrow>
     map tk_kind ws =
       (case ws of [] \<Rightarrow> [] | w # rest \<Rightarrow> Mnemonic # map (\<lambda>t. word_kind Q True (tk_text t)) rest)"

definition lexer_inv :: "qchar_classes \<Rightarrow> qstring \<Rightarrow> nat \<Rightarrow> bool \<Rightarrow> token list \<Rightarrow> bool" where
  "lexer_inv Q s i seen out \<longleftrightarrow>
     i \<le> length s \<and> concat (map tk_text out) = take i s \<and> list_all (token_ok Q) out \<and>
     (seen \<longleftrightarrow> filter (is_word Q) out \<noteq> []) \<and> words_classified Q (filter (is_word Q) out) \<and>
     successively (separate Q) out \<and>
     (out \<noteq> [] \<and> i < length s \<longrightarrow>
        (tk_kind (last out) = Whitespace \<longrightarrow> \<not> isSpace Q (s ! i)) \<and>
        (is_word Q (last out) \<longrightarrow> \<not> isWordChar Q (s ! i)))"

lemma mid_run: "i \<le> j \<Longrightarrow> j \<le> length s \<Longrightarrow> mid s i (j - i) = map ((!) s) [i..<j]"
  by (intro nth_equalityI) (auto simp: mid_def)

lemma mid_one: "i < length s \<Longrightarrow> [s ! i] = mid s i (Suc 0)"
  by (simp add: mid_def take_Suc hd_drop_conv_nth)

lemma take_mid: "i \<le> j \<Longrightarrow> j \<le> length s \<Longrightarrow> take i s @ mid s i (j - i) = take j s"
  by (metis le_add_diff_inverse mid_def take_add)

lemma hd_mid: "i < j \<Longrightarrow> j \<le> length s \<Longrightarrow> hd (mid s i (j - i)) = s ! i"
  by (simp add: mid_run upt_conv_Cons)

lemma list_all_run:
  "i < length s \<Longrightarrow> list_all P (mid s i (run_end P s i - i))"
  using run_end_ge [of i P s] run_end_le [of i s P]
  by (auto simp: mid_run list_all_iff intro: run_end_all)

lemma words_classified_snoc:
  "words_classified Q ws \<Longrightarrow> tk_kind t = word_kind Q (ws \<noteq> []) (tk_text t) \<Longrightarrow> words_classified Q (ws @ [t])"
  by (cases ws) (auto simp: words_classified_def word_kind_def)

text \<open>Everything the lemma below needs of one turn.\<close>

lemma next_token_facts:
  assumes "i < length s" "next_token Q s i seen = (t, j, seen1)"
  shows "i < j" "j \<le> length s" "tk_text t = mid s i (j - i)" "token_ok Q t"
    "is_word Q t \<longleftrightarrow> starts_word Q (s ! i)" "seen1 \<longleftrightarrow> seen \<or> is_word Q t"
    "is_word Q t \<Longrightarrow> tk_kind t = word_kind Q seen (tk_text t)"
    "tk_kind t = Whitespace \<longleftrightarrow> isSpace Q (s ! i)"
    "tk_kind t = Whitespace \<Longrightarrow> j < length s \<Longrightarrow> \<not> isSpace Q (s ! j)"
    "is_word Q t \<Longrightarrow> j < length s \<Longrightarrow> \<not> isWordChar Q (s ! j)"
proof -
  show j: "i < j" "j \<le> length s" using next_token_moves [OF assms] by auto
  show str: "tk_text t = mid s i (j - i)"
    using assms by (auto simp: next_token_def Let_def mid_one [symmetric] split: if_splits)
  have hd: "hd (tk_text t) = s ! i" "tk_text t \<noteq> []"
    using j hd_mid [of i j s] by (auto simp: str mid_def)
  then show word: "is_word Q t \<longleftrightarrow> starts_word Q (s ! i)" by (simp add: is_word_def)
  show "seen1 \<longleftrightarrow> seen \<or> is_word Q t" "is_word Q t \<Longrightarrow> tk_kind t = word_kind Q seen (tk_text t)"
    "tk_kind t = Whitespace \<longleftrightarrow> isSpace Q (s ! i)"
    using assms(2) unfolding word
    by (auto simp: next_token_def Let_def starts_word_def word_kind_def split: if_splits)
  show "tk_kind t = Whitespace \<Longrightarrow> j < length s \<Longrightarrow> \<not> isSpace Q (s ! j)"
    "is_word Q t \<Longrightarrow> j < length s \<Longrightarrow> \<not> isWordChar Q (s ! j)"
    using assms(2) unfolding word
    by (auto simp: next_token_def Let_def starts_word_def word_kind_def dest: run_end_stops split: if_splits)
  show "token_ok Q t"
    using assms hd list_all_run [OF assms(1), of "isSpace Q"] list_all_run [OF assms(1), of "isWordChar Q"] word
    by (auto simp: next_token_def Let_def token_ok_def starts_word_def word_kind_def split: if_splits)
qed

lemma next_token_inv:
  assumes "lexer_inv Q s i seen out" "i < length s" "next_token Q s i seen = (t, j, seen1)"
  shows "lexer_inv Q s j seen1 (out @ [t])"
proof -
  note f = next_token_facts [OF assms(2,3)]
  have "concat (map tk_text (out @ [t])) = take j s"
    using assms(1) f(1-3) take_mid [of i j s] by (simp add: lexer_inv_def)
  moreover have "words_classified Q (filter (is_word Q) (out @ [t]))"
    using assms(1) f(7) words_classified_snoc by (auto simp: lexer_inv_def)
  moreover have "successively (separate Q) (out @ [t])"
    using assms(1,2) f(5,8) by (auto simp: lexer_inv_def successively_append_iff separate_def starts_word_def)
  ultimately show ?thesis
    using assms(1) f by (auto simp: lexer_inv_def)
qed

lemma tokenize_loop_inv:
  "lexer_inv Q s i seen out \<Longrightarrow> \<exists>seen1. lexer_inv Q s (length s) seen1 (tokenize_loop Q s i seen out)"
proof (induction Q s i seen out rule: tokenize_loop.induct)
  case (1 Q s i seen out)
  show ?case
  proof (cases "i < length s")
    case True
    obtain t j seen1 where n: "next_token Q s i seen = (t, j, seen1)" by (cases "next_token Q s i seen")
    from 1(1) [OF True n [symmetric] refl next_token_inv [OF 1(2) True n]] show ?thesis
      using True n by (simp add: tokenize_loop.simps [of Q s i])
  next
    case False
    with 1(2) have "i = length s" by (simp add: lexer_inv_def)
    with 1(2) show ?thesis by (auto simp: tokenize_loop.simps [of Q s "length s"])
  qed
qed

lemma tokenize_inv: "\<exists>seen. lexer_inv Q s (length s) seen (tokenize Q s)"
  unfolding tokenize_def by (rule tokenize_loop_inv) (simp add: lexer_inv_def words_classified_def)

lemma only_first_mnemonic:
  "words_classified Q ws \<Longrightarrow> filter (\<lambda>t. tk_kind t = Mnemonic) ws = take 1 ws"
  by (cases ws) (auto simp: words_classified_def word_kind_def map_eq_conv filter_empty_conv split: if_splits)

section \<open>Properties\<close>

text \<open>Putting the texts of the tokens together gives the instruction text back, character for
  character, whatever the text.\<close>

theorem tokens_reproduce_input: "concat (map tk_text (tokenize Q s)) = s"
  using tokenize_inv [of Q s] by (auto simp: lexer_inv_def)

text \<open>C32: The tokens put together are the text, every token is what its kind says (nonempty, all its
  characters of the class), runs are never cut in two, the first word is the mnemonic, and the kind of every other word is decided by its
  text: a register name, else a number, else plain text.\<close>

theorem tokens_are_typed:
  "concat (map tk_text (tokenize Q s)) = s \<and>
   list_all (token_ok Q) (tokenize Q s) \<and> successively (separate Q) (tokenize Q s) \<and>
   words_classified Q (filter (is_word Q) (tokenize Q s)) \<and>
   filter (\<lambda>t. tk_kind t = Mnemonic) (tokenize Q s) = take 1 (filter (is_word Q) (tokenize Q s))"
proof (intro conjI)
  let ?toks = "tokenize Q s"
  have inv: "list_all (token_ok Q) ?toks" "successively (separate Q) ?toks"
    "words_classified Q (filter (is_word Q) ?toks)"
    using tokenize_inv [of Q s] by (auto simp: lexer_inv_def)
  show "concat (map tk_text ?toks) = s" by (rule tokens_reproduce_input)
  from inv show "list_all (token_ok Q) ?toks" "successively (separate Q) ?toks"
    "words_classified Q (filter (is_word Q) ?toks)" by auto
  have "filter (\<lambda>t. tk_kind t = Mnemonic) ?toks = filter (\<lambda>t. tk_kind t = Mnemonic) (filter (is_word Q) ?toks)"
    using inv(1) by (auto simp: list_all_iff token_ok_def intro!: filter_cong)
  also have "\<dots> = take 1 (filter (is_word Q) ?toks)"
    by (rule only_first_mnemonic [OF inv(3)])
  finally show "filter (\<lambda>t. tk_kind t = Mnemonic) ?toks = take 1 (filter (is_word Q) ?toks)" .
qed

end
