(* ===== verification/Table_View.thy ===== *)
theory Table_View
  imports Prelude
begin

text \<open>
  irida-ui/gui/src/widgets/irida_table_view.cpp: the table every panel of the front end is
  built on.  The state is the text of the data columns, the background of each row, the row
  marked as current instruction and the set of rows marked as breakpoints.  Fonts, style
  sheets, scrolling and repainting have no counterpart; the first column of the widget is a
  gutter without text, and data column \<open>col\<close> is column \<open>col + gutterColumns()\<close> there.
\<close>

datatype row_background = Transparent | BreakpointBackground | CurrentIpBackground

record table_view =
  tv_columns :: nat
  tv_cells :: "string list list"
  tv_background :: "row_background list"
  tv_current_ip :: int
  tv_breakpoints :: "nat set"

definition table_view_init :: "nat \<Rightarrow> table_view" where
  "table_view_init columns =
     \<lparr>tv_columns = columns, tv_cells = [], tv_background = [], tv_current_ip = -1, tv_breakpoints = {}\<rparr>"

definition rowCount :: "table_view \<Rightarrow> nat" where
  "rowCount tv = length (tv_cells tv)"

section \<open>Texts\<close>

text \<open>\<open>QString::toUpper\<close> on the characters of a number.\<close>

definition to_upper :: "char \<Rightarrow> char" where
  "to_upper c = (if 97 \<le> (of_char c :: nat) \<and> (of_char c :: nat) \<le> 122 then char_of ((of_char c :: nat) - 32) else c)"

definition pad_left :: "nat \<Rightarrow> string \<Rightarrow> string" where
  "pad_left n t = replicate (n - length t) CHR ''0'' @ t"

definition formatAddress :: "u64 \<Rightarrow> string" where
  "formatAddress addr = map to_upper (pad_left 16 (hex_digits (unat addr)))"

definition size_text :: "u64 \<Rightarrow> string" where
  "size_text n = map to_upper (''0x'' @ hex_digits (unat n))"

section \<open>Operations\<close>

text \<open>Rows that appear are empty and unmarked; rows that go take their marks' paint with them.\<close>

definition setRows :: "nat \<Rightarrow> table_view \<Rightarrow> table_view" where
  "setRows n tv =
     tv\<lparr>tv_cells := take n (tv_cells tv) @ replicate (n - rowCount tv) (replicate (tv_columns tv) ''''),
        tv_background := take n (tv_background tv) @ replicate (n - rowCount tv) Transparent\<rparr>"

definition setCell :: "nat \<Rightarrow> nat \<Rightarrow> string \<Rightarrow> table_view \<Rightarrow> table_view" where
  "setCell row col t tv = tv\<lparr>tv_cells := (tv_cells tv)[row := (tv_cells tv ! row)[col := t]]\<rparr>"

definition applyRowBackground :: "nat \<Rightarrow> table_view \<Rightarrow> table_view" where
  "applyRowBackground row tv =
     (let bg = (if row \<in> tv_breakpoints tv then BreakpointBackground else Transparent);
          bg = (if int row = tv_current_ip tv then CurrentIpBackground else bg)
      in tv\<lparr>tv_background := (tv_background tv)[row := bg]\<rparr>)"

definition repaint_row :: "int \<Rightarrow> table_view \<Rightarrow> table_view" where
  "repaint_row row tv = (if 0 \<le> row \<and> row < int (rowCount tv) then applyRowBackground (nat row) tv else tv)"

definition setCurrentIpRow :: "int \<Rightarrow> table_view \<Rightarrow> table_view" where
  "setCurrentIpRow row tv =
     (let previous = tv_current_ip tv in
      repaint_row row (repaint_row previous (tv\<lparr>tv_current_ip := row\<rparr>)))"

definition setBreakpointRow :: "nat \<Rightarrow> bool \<Rightarrow> table_view \<Rightarrow> table_view" where
  "setBreakpointRow row on tv =
     (if rowCount tv \<le> row then tv
      else applyRowBackground row
        (tv\<lparr>tv_breakpoints := (if on then insert row (tv_breakpoints tv) else tv_breakpoints tv - {row})\<rparr>))"

definition isCurrentIpRow :: "table_view \<Rightarrow> nat \<Rightarrow> bool" where
  "isCurrentIpRow tv row \<longleftrightarrow> int row = tv_current_ip tv"

definition isBreakpointRow :: "table_view \<Rightarrow> nat \<Rightarrow> bool" where
  "isBreakpointRow tv row \<longleftrightarrow> row \<in> tv_breakpoints tv"

text \<open>The loop of a refresh that writes its cells row by row.\<close>

definition write_row :: "nat \<Rightarrow> string list \<Rightarrow> table_view \<Rightarrow> table_view" where
  "write_row r row tv = fold (\<lambda>(col, t). setCell r col t) (enumerate 0 row) tv"

definition write_rows :: "string list list \<Rightarrow> table_view \<Rightarrow> table_view" where
  "write_rows rows tv = fold (\<lambda>(r, row). write_row r row) (enumerate 0 rows) tv"

text \<open>\<open>setRows\<close> followed by writing every row.\<close>

definition show_rows :: "string list list \<Rightarrow> table_view \<Rightarrow> table_view" where
  "show_rows rows tv = write_rows rows (setRows (length rows) tv)"

definition mark_rows :: "bool list \<Rightarrow> table_view \<Rightarrow> table_view" where
  "mark_rows flags tv = fold (\<lambda>(row, on). setBreakpointRow row on) (enumerate 0 flags) tv"

section \<open>What the cells show\<close>

lemma fold_write:
  "k + length ts \<le> length xs \<Longrightarrow>
   fold (\<lambda>(i, t) xs. xs[i := t]) (enumerate k ts) xs = take k xs @ ts @ drop (k + length ts) xs"
proof (induction ts arbitrary: k xs)
  case (Cons t ts)
  then have "fold (\<lambda>(i, t) xs. xs[i := t]) (enumerate k (t # ts)) xs =
      take (Suc k) (xs[k := t]) @ ts @ drop (Suc k + length ts) (xs[k := t])" by simp
  also have "take (Suc k) (xs[k := t]) = take k xs @ [t]"
    using Cons.prems by (simp add: take_Suc_conv_app_nth)
  finally show ?case by simp
qed simp

lemma fold_write_all: "length ts = length xs \<Longrightarrow> fold (\<lambda>(i, t) xs. xs[i := t]) (enumerate 0 ts) xs = ts"
  by (simp add: fold_write)

definition table_ok :: "table_view \<Rightarrow> bool" where
  "table_ok tv \<longleftrightarrow>
     (\<forall>row \<in> set (tv_cells tv). length row = tv_columns tv) \<and> length (tv_background tv) = rowCount tv"

lemma fold_setCell:
  "r < rowCount tv \<Longrightarrow>
   fold (\<lambda>(col, t). setCell r col t) ts tv =
   tv\<lparr>tv_cells := (tv_cells tv)[r := fold (\<lambda>(i, t) xs. xs[i := t]) ts (tv_cells tv ! r)]\<rparr>"
proof (induction ts arbitrary: tv)
  case (Cons t ts)
  then have "r < rowCount (setCell r (fst t) (snd t) tv)" by (simp add: setCell_def rowCount_def)
  from Cons.IH [OF this] Cons.prems show ?case
    by (cases t) (simp add: setCell_def rowCount_def)
qed simp

lemma write_row_eq:
  "r < rowCount tv \<Longrightarrow> length row = length (tv_cells tv ! r) \<Longrightarrow>
   write_row r row tv = tv\<lparr>tv_cells := (tv_cells tv)[r := row]\<rparr>"
  by (simp add: write_row_def fold_setCell fold_write_all)

lemma write_rows_from:
  "table_ok tv \<Longrightarrow> k + length rows \<le> rowCount tv \<Longrightarrow> \<forall>row \<in> set rows. length row = tv_columns tv \<Longrightarrow>
   fold (\<lambda>(r, row). write_row r row) (enumerate k rows) tv =
   tv\<lparr>tv_cells := fold (\<lambda>(i, t) xs. xs[i := t]) (enumerate k rows) (tv_cells tv)\<rparr>"
proof (induction rows arbitrary: k tv)
  case (Cons row rows)
  have w: "write_row k row tv = tv\<lparr>tv_cells := (tv_cells tv)[k := row]\<rparr>"
    using Cons.prems by (intro write_row_eq) (auto simp: table_ok_def rowCount_def)
  have "table_ok (tv\<lparr>tv_cells := (tv_cells tv)[k := row]\<rparr>)"
    using Cons.prems by (auto simp: table_ok_def rowCount_def dest: set_update_subset_insert [THEN subsetD])
  from Cons.IH [OF this, of "Suc k"] Cons.prems w show ?case by (simp add: rowCount_def)
qed simp

lemma setRows_ok: "table_ok tv \<Longrightarrow> table_ok (setRows n tv) \<and> rowCount (setRows n tv) = n"
  by (auto simp: table_ok_def setRows_def rowCount_def dest: in_set_takeD)

lemma show_rows_eq:
  assumes "table_ok tv" "\<forall>row \<in> set rows. length row = tv_columns tv"
  shows "show_rows rows tv = (setRows (length rows) tv)\<lparr>tv_cells := rows\<rparr>"
proof -
  have ok: "table_ok (setRows (length rows) tv)" and n: "rowCount (setRows (length rows) tv) = length rows"
    using setRows_ok [OF assms(1)] by auto
  have "\<forall>row \<in> set rows. length row = tv_columns (setRows (length rows) tv)"
    using assms(2) by (simp add: setRows_def)
  from write_rows_from [OF ok _ this, of 0] n show ?thesis
    by (simp add: show_rows_def write_rows_def fold_write_all rowCount_def)
qed

lemma show_rows_simps:
  assumes "table_ok tv" "\<forall>row \<in> set rows. length row = tv_columns tv"
  shows "tv_cells (show_rows rows tv) = rows" "table_ok (show_rows rows tv)"
    "tv_columns (show_rows rows tv) = tv_columns tv" "tv_current_ip (show_rows rows tv) = tv_current_ip tv"
    "rowCount (show_rows rows tv) = length rows"
  using assms setRows_ok [OF assms(1), of "length rows"]
  by (simp_all add: show_rows_eq [OF assms] table_ok_def rowCount_def setRows_def)

section \<open>What the rows are painted like\<close>

definition row_paint :: "table_view \<Rightarrow> nat \<Rightarrow> row_background" where
  "row_paint tv row =
     (if isCurrentIpRow tv row then CurrentIpBackground
      else if isBreakpointRow tv row then BreakpointBackground else Transparent)"

definition painted :: "table_view \<Rightarrow> bool" where
  "painted tv \<longleftrightarrow> table_ok tv \<and> (\<forall>row < rowCount tv. tv_background tv ! row = row_paint tv row)"

lemma apply_simps [simp]:
  "tv_cells (applyRowBackground row tv) = tv_cells tv"
  "tv_columns (applyRowBackground row tv) = tv_columns tv"
  "tv_current_ip (applyRowBackground row tv) = tv_current_ip tv"
  "tv_breakpoints (applyRowBackground row tv) = tv_breakpoints tv"
  "rowCount (applyRowBackground row tv) = rowCount tv"
  by (simp_all add: applyRowBackground_def rowCount_def)

lemma applyRowBackground_eq: "applyRowBackground row tv = tv\<lparr>tv_background := (tv_background tv)[row := row_paint tv row]\<rparr>"
  by (simp add: applyRowBackground_def row_paint_def isCurrentIpRow_def isBreakpointRow_def Let_def)

lemma mark_rows_from:
  assumes "table_ok tv" "k + length flags = rowCount tv" "\<forall>row < k. tv_background tv ! row = row_paint tv row"
  shows "\<exists>bps bg. fold (\<lambda>(row, on). setBreakpointRow row on) (enumerate k flags) tv =
      tv\<lparr>tv_breakpoints := bps, tv_background := bg\<rparr> \<and> painted (tv\<lparr>tv_breakpoints := bps, tv_background := bg\<rparr>) \<and>
      (\<forall>row. row \<in> bps \<longleftrightarrow>
         (if k \<le> row \<and> row < rowCount tv then flags ! (row - k) else row \<in> tv_breakpoints tv))"
  using assms
proof (induction flags arbitrary: k tv)
  case Nil
  then show ?case by (intro exI [of _ "tv_breakpoints tv"] exI [of _ "tv_background tv"]) (auto simp: painted_def)
next
  case (Cons on flags)
  define bps where "bps = (if on then insert k (tv_breakpoints tv) else tv_breakpoints tv - {k})"
  define tv1 where "tv1 = tv\<lparr>tv_breakpoints := bps,
    tv_background := (tv_background tv)[k := row_paint (tv\<lparr>tv_breakpoints := bps\<rparr>) k]\<rparr>"
  have step: "setBreakpointRow k on tv = tv1"
    using Cons.prems(2) by (simp add: setBreakpointRow_def applyRowBackground_eq tv1_def bps_def)
  have paint: "row_paint tv1 row = row_paint (tv\<lparr>tv_breakpoints := bps\<rparr>) row" for row
    by (simp add: row_paint_def isCurrentIpRow_def isBreakpointRow_def tv1_def)
  have same: "row_paint tv1 row = row_paint tv row" if "row \<noteq> k" for row
    using that by (auto simp: row_paint_def isCurrentIpRow_def isBreakpointRow_def tv1_def bps_def)
  have "table_ok tv1" "Suc k + length flags = rowCount tv1"
    using Cons.prems by (auto simp: table_ok_def tv1_def rowCount_def)
  moreover have "\<forall>row < Suc k. tv_background tv1 ! row = row_paint tv1 row"
  proof (intro allI impI)
    fix row assume "row < Suc k"
    show "tv_background tv1 ! row = row_paint tv1 row"
    proof (cases "row = k")
      case True
      with Cons.prems show ?thesis unfolding paint by (auto simp: tv1_def table_ok_def)
    next
      case False
      with \<open>row < Suc k\<close> Cons.prems(3) show ?thesis unfolding same [OF False] by (auto simp: tv1_def)
    qed
  qed
  ultimately obtain bps2 bg2 where IH: "fold (\<lambda>(row, on). setBreakpointRow row on) (enumerate (Suc k) flags) tv1 =
      tv1\<lparr>tv_breakpoints := bps2, tv_background := bg2\<rparr>" "painted (tv1\<lparr>tv_breakpoints := bps2, tv_background := bg2\<rparr>)"
    "\<forall>row. row \<in> bps2 \<longleftrightarrow>
       (if Suc k \<le> row \<and> row < rowCount tv1 then flags ! (row - Suc k) else row \<in> tv_breakpoints tv1)"
    using Cons.IH [of tv1 "Suc k"] by blast
  have upd: "tv1\<lparr>tv_breakpoints := bps2, tv_background := bg2\<rparr> = tv\<lparr>tv_breakpoints := bps2, tv_background := bg2\<rparr>"
    by (simp add: tv1_def)
  have "row \<in> bps2 \<longleftrightarrow>
     (if k \<le> row \<and> row < rowCount tv then (on # flags) ! (row - k) else row \<in> tv_breakpoints tv)" for row
    using IH(3) Cons.prems(2)
    by (cases "row = k") (auto simp: tv1_def rowCount_def bps_def nth_Cons' Suc_diff_le)
  with IH(1,2) step upd show ?case by (intro exI [of _ bps2] exI [of _ bg2]) simp
qed

lemma mark_rows_facts:
  assumes "table_ok tv" "length flags = rowCount tv"
  shows "painted (mark_rows flags tv)" "tv_cells (mark_rows flags tv) = tv_cells tv"
    "tv_columns (mark_rows flags tv) = tv_columns tv" "tv_current_ip (mark_rows flags tv) = tv_current_ip tv"
    "row < rowCount tv \<Longrightarrow> isBreakpointRow (mark_rows flags tv) row \<longleftrightarrow> flags ! row"
  using mark_rows_from [OF assms(1), of 0 flags] assms(2)
  by (auto simp: mark_rows_def isBreakpointRow_def)

lemma setCurrentIpRow_painted:
  assumes "painted tv"
  shows "painted (setCurrentIpRow row tv)" "tv_cells (setCurrentIpRow row tv) = tv_cells tv"
    "tv_columns (setCurrentIpRow row tv) = tv_columns tv" "tv_current_ip (setCurrentIpRow row tv) = row"
    "isBreakpointRow (setCurrentIpRow row tv) = isBreakpointRow tv"
proof -
  show "tv_cells (setCurrentIpRow row tv) = tv_cells tv" "tv_columns (setCurrentIpRow row tv) = tv_columns tv"
    "tv_current_ip (setCurrentIpRow row tv) = row" "isBreakpointRow (setCurrentIpRow row tv) = isBreakpointRow tv"
    by (simp_all add: setCurrentIpRow_def repaint_row_def Let_def isBreakpointRow_def fun_eq_iff)
  have "tv_background (setCurrentIpRow row tv) ! r = row_paint (setCurrentIpRow row tv) r"
    if "r < rowCount tv" for r
    using assms that
    by (auto simp: setCurrentIpRow_def repaint_row_def Let_def applyRowBackground_eq painted_def table_ok_def
        row_paint_def isCurrentIpRow_def isBreakpointRow_def rowCount_def nth_list_update)
  moreover have "length (tv_background (setCurrentIpRow row tv)) = rowCount tv"
    using assms by (simp add: setCurrentIpRow_def repaint_row_def Let_def applyRowBackground_eq painted_def
        table_ok_def rowCount_def)
  moreover have "rowCount (setCurrentIpRow row tv) = rowCount tv" "tv_cells (setCurrentIpRow row tv) = tv_cells tv"
    "tv_columns (setCurrentIpRow row tv) = tv_columns tv"
    by (simp_all add: setCurrentIpRow_def repaint_row_def Let_def rowCount_def)
  ultimately show "painted (setCurrentIpRow row tv)"
    using assms by (simp add: painted_def table_ok_def)
qed

end
