(* ===== verification/Window_Layout.thy ===== *)
theory Window_Layout
  imports Prelude "HOL-Library.Signed_Division"
begin

text \<open>
  irida-ui/gui/src/app/main_window.cpp, the part that survives a restart: which docks are visible,
  the saved layout with its version, and where the window comes up on the screens there are.

  Of Qt this uses what its documentation says: \<open>restoreState\<close> does nothing for a state of another
  version and else brings back what \<open>saveState\<close> stored, here the visibility of the docks by their
  object names; a window is moved with its frame.  What \<open>restoreGeometry\<close> makes of stored bytes is a
  parameter.  Areas, tabs and sizes of docks are left out.
\<close>

section \<open>Docks\<close>

text \<open>Every dock with whether it is visible.\<close>

type_synonym docks = "(string \<times> bool) list"

definition debugDocks :: "string list" where
  "debugDocks = [''ModulesDock'', ''BreakpointsDock'', ''ThreadsDock'', ''MemoryMapDock'', ''BacktraceDock'']"

definition dock_names :: "string list" where
  "dock_names = debugDocks @ [''ConsoleDock'', ''ExplorerDock'']"

definition buildDocks :: docks where
  "buildDocks = map (\<lambda>n. (n, True)) dock_names"

text \<open>A new visibility for every dock.\<close>

definition each_dock :: "(string \<Rightarrow> bool \<Rightarrow> bool) \<Rightarrow> docks \<Rightarrow> docks" where
  "each_dock f ds = map (\<lambda>(n, v). (n, f n v)) ds"

definition showDebugDocks :: "bool \<Rightarrow> docks \<Rightarrow> docks" where
  "showDebugDocks live ds = each_dock (\<lambda>n v. if n \<in> set debugDocks then live else v) ds"

text \<open>Closing a dock, or its entry in the View menu.\<close>

definition toggleDock :: "string \<Rightarrow> docks \<Rightarrow> docks" where
  "toggleDock name ds = each_dock (\<lambda>n v. if n = name then \<not> v else v) ds"

definition kLayoutStateVersion :: nat where "kLayoutStateVersion = 12"

record layout_state =
  ls_version :: nat
  ls_docks :: docks

definition saveState :: "nat \<Rightarrow> docks \<Rightarrow> layout_state" where
  "saveState version ds = \<lparr>ls_version = version, ls_docks = ds\<rparr>"

definition restoreState :: "layout_state option \<Rightarrow> nat \<Rightarrow> docks \<Rightarrow> docks" where
  "restoreState st version ds =
     (case st of
        None \<Rightarrow> ds
      | Some l \<Rightarrow>
          if ls_version l = version
          then each_dock (\<lambda>n v. case map_of (ls_docks l) n of None \<Rightarrow> v | Some w \<Rightarrow> w) ds
          else ds)"

text \<open>The docks of a new window: built, snapshot, the stored layout, the rule of the session kind.\<close>

definition defaultState :: layout_state where
  "defaultState = saveState kLayoutStateVersion buildDocks"

definition open_docks :: "layout_state option \<Rightarrow> bool \<Rightarrow> docks" where
  "open_docks stored live = showDebugDocks live (restoreState stored kLayoutStateVersion buildDocks)"

definition resetLayout :: "bool \<Rightarrow> docks \<Rightarrow> docks" where
  "resetLayout live ds =
     showDebugDocks live
       (restoreState (Some defaultState) kLayoutStateVersion (each_dock (\<lambda>n v. True) ds))"

definition closeEvent :: "docks \<Rightarrow> layout_state option" where
  "closeEvent ds = Some (saveState kLayoutStateVersion ds)"

text \<open>What any of these keep: the docks themselves.\<close>

definition docks_ok :: "docks \<Rightarrow> bool" where
  "docks_ok ds \<longleftrightarrow> map fst ds = dock_names"

lemma dock_names_distinct: "distinct dock_names"
  by (simp add: dock_names_def debugDocks_def)

lemma each_dock_simps [simp]:
  "map fst (each_dock f ds) = map fst ds" "map_of (each_dock f ds) n = map_option (f n) (map_of ds n)"
proof -
  show "map fst (each_dock f ds) = map fst ds" by (simp add: each_dock_def case_prod_beta comp_def)
  show "map_of (each_dock f ds) n = map_option (f n) (map_of ds n)" unfolding each_dock_def by (induction ds) auto
qed

lemma docks_ok_ops:
  "docks_ok buildDocks" "docks_ok ds \<Longrightarrow> docks_ok (showDebugDocks live ds)"
  "docks_ok ds \<Longrightarrow> docks_ok (toggleDock n ds)" "docks_ok ds \<Longrightarrow> docks_ok (restoreState st version ds)"
  "docks_ok ds \<Longrightarrow> docks_ok (resetLayout live ds)" "docks_ok (open_docks st live)"
proof -
  show b: "docks_ok buildDocks" by (simp add: docks_ok_def buildDocks_def comp_def)
  show "docks_ok ds \<Longrightarrow> docks_ok (toggleDock n ds)" for ds by (simp add: docks_ok_def toggleDock_def)
  show s: "docks_ok ds \<Longrightarrow> docks_ok (showDebugDocks live ds)" for ds by (simp add: docks_ok_def showDebugDocks_def)
  show r: "docks_ok ds \<Longrightarrow> docks_ok (restoreState st version ds)" for st ds version
    by (simp add: docks_ok_def restoreState_def split: option.split)
  show "docks_ok (open_docks st live)" by (simp add: open_docks_def b s r)
  show "docks_ok (resetLayout live ds)" if "docks_ok ds"
    unfolding resetLayout_def using that by (intro s r) (simp add: docks_ok_def)
qed

lemma map_of_docks: "docks_ok ds \<Longrightarrow> n \<in> set dock_names \<Longrightarrow> \<exists>v. map_of ds n = Some v"
  by (metis docks_ok_def image_set map_of_eq_None_iff option.exhaust)

lemma map_of_buildDocks: "n \<in> set dock_names \<Longrightarrow> map_of buildDocks n = Some True"
  by (auto simp: buildDocks_def dock_names_def debugDocks_def)

lemma resetLayout_shows:
  "docks_ok ds \<Longrightarrow> n \<in> set dock_names \<Longrightarrow>
   map_of (resetLayout live ds) n = Some (if n \<in> set debugDocks then live else True)"
  using map_of_docks [of ds n]
  by (auto simp: resetLayout_def showDebugDocks_def restoreState_def defaultState_def saveState_def
      map_of_buildDocks)

text \<open>A layout survives a restart, up to the debug docks, which a new window hides.\<close>

lemma layout_survives_restart:
  "docks_ok ds \<Longrightarrow> n \<in> set dock_names \<Longrightarrow>
   map_of (open_docks (closeEvent ds) live) n = (if n \<in> set debugDocks then Some live else map_of ds n)"
  using map_of_docks [of ds n]
  by (auto simp: open_docks_def closeEvent_def showDebugDocks_def restoreState_def saveState_def
      map_of_buildDocks)

lemma stale_layout_ignored:
  "ls_version st \<noteq> kLayoutStateVersion \<Longrightarrow> open_docks (Some st) live = open_docks None live"
  by (simp add: open_docks_def restoreState_def)

section \<open>Where the window comes up\<close>

record rect =
  rc_x :: int
  rc_y :: int
  rc_w :: int
  rc_h :: int

definition rc_right :: "rect \<Rightarrow> int" where "rc_right r = rc_x r + rc_w r - 1"
definition rc_bottom :: "rect \<Rightarrow> int" where "rc_bottom r = rc_y r + rc_h r - 1"

definition center :: "rect \<Rightarrow> int \<times> int" where
  "center r = ((rc_x r + rc_right r) sdiv 2, (rc_y r + rc_bottom r) sdiv 2)"

text \<open>For rectangles that are not empty; no others come up here.\<close>

definition intersects :: "rect \<Rightarrow> rect \<Rightarrow> bool" where
  "intersects a b \<longleftrightarrow>
     rc_x a \<le> rc_right b \<and> rc_x b \<le> rc_right a \<and> rc_y a \<le> rc_bottom b \<and> rc_y b \<le> rc_bottom a"

text \<open>Position with the frame, size without; the margins of the frame are the window system's.\<close>

record window_place =
  wp_pos :: "int \<times> int"
  wp_size :: "int \<times> int"

record frame_margins =
  fm_across :: int
  fm_down :: int

definition client_rect :: "window_place \<Rightarrow> rect" where
  "client_rect w = \<lparr>rc_x = 0, rc_y = 0, rc_w = fst (wp_size w), rc_h = snd (wp_size w)\<rparr>"

definition frameGeometry :: "frame_margins \<Rightarrow> window_place \<Rightarrow> rect" where
  "frameGeometry m w =
     \<lparr>rc_x = fst (wp_pos w), rc_y = snd (wp_pos w), rc_w = fst (wp_size w) + fm_across m,
      rc_h = snd (wp_size w) + fm_down m\<rparr>"

text \<open>\<open>stored\<close> is what \<open>restoreGeometry\<close> makes of the stored geometry, if there is one.\<close>

definition restorePlace ::
    "rect list \<Rightarrow> rect option \<Rightarrow> frame_margins \<Rightarrow> window_place option \<Rightarrow> window_place \<Rightarrow> window_place" where
  "restorePlace screens primary m stored w =
     (let w1 = (case stored of None \<Rightarrow> w | Some g \<Rightarrow> g) in
      if \<exists>s \<in> set screens. intersects s (frameGeometry m w1) then w1
      else
        let w2 = w1\<lparr>wp_size := (1200, 800)\<rparr> in
        case primary of
          None \<Rightarrow> w2
        | Some p \<Rightarrow>
            let c = center p; r = center (client_rect w2)
            in w2\<lparr>wp_pos := (fst c - fst r, snd c - snd r)\<rparr>)"

lemma sdiv_two: "(a :: int) \<le> b \<Longrightarrow> a \<le> (a + b) sdiv 2 \<and> (a + b) sdiv 2 \<le> b"
  unfolding signed_divide_int_def by (cases "0 \<le> a + b") (simp_all add: sgn_if, linarith+)

lemma center_inside:
  "0 < rc_w r \<Longrightarrow> 0 < rc_h r \<Longrightarrow>
   rc_x r \<le> fst (center r) \<and> fst (center r) \<le> rc_right r \<and> rc_y r \<le> snd (center r) \<and> snd (center r) \<le> rc_bottom r"
  using sdiv_two [of "rc_x r" "rc_right r"] sdiv_two [of "rc_y r" "rc_bottom r"]
  by (simp add: center_def rc_right_def rc_bottom_def)

text \<open>Whatever was stored, the window comes up where some screen shows a part of it.\<close>

lemma window_comes_up_on_screen:
  assumes "primary = Some p" "p \<in> set screens" "0 < rc_w p" "0 < rc_h p" "0 \<le> fm_across m" "0 \<le> fm_down m"
  shows "\<exists>s \<in> set screens. intersects s (frameGeometry m (restorePlace screens primary m stored w))"
proof -
  let ?w1 = "case stored of None \<Rightarrow> w | Some g \<Rightarrow> g"
  show ?thesis
  proof (cases "\<exists>s \<in> set screens. intersects s (frameGeometry m ?w1)")
    case True
    then show ?thesis by (simp add: restorePlace_def Let_def)
  next
    case False
    have "center (client_rect (?w1\<lparr>wp_size := (1200, 800)\<rparr>)) = (599, 399)"
      by (simp add: center_def client_rect_def rc_right_def rc_bottom_def signed_divide_int_def)
    with False assms(1) have "restorePlace screens primary m stored w =
        ?w1\<lparr>wp_size := (1200, 800), wp_pos := (fst (center p) - 599, snd (center p) - 399)\<rparr>"
      unfolding restorePlace_def by (simp only: Let_def if_False option.case fst_conv snd_conv)
    then have "intersects p (frameGeometry m (restorePlace screens primary m stored w))"
      using center_inside [OF assms(3,4)] assms(5,6)
      by (simp add: intersects_def frameGeometry_def rc_right_def rc_bottom_def)
    with assms(2) show ?thesis by blast
  qed
qed

end
