(* ===== verification/Graph_View.thy ===== *)
theory Graph_View
  imports Complex_Main Api
begin

text \<open>
  irida-ui/gui/src/panels/graph/graph_view.cpp: the control-flow graph of one function as boxes
  and arrows.  The blocks and their lines come from the session; layers are assigned by a
  breadth-first search from the entry, columns by address within a layer, then positions.

  Coordinates are real numbers, so the rounding of \<open>double\<close> is not modelled.  What the font
  measures is a parameter.  A layer of -1 is \<open>None\<close>; \<open>std::sort\<close> is stable here, which makes no
  difference for blocks of different addresses.  Brushes, fonts and zooming are left out.
\<close>

section \<open>Data\<close>

definition kBlockPaddingX :: real where "kBlockPaddingX = 10"
definition kBlockPaddingY :: real where "kBlockPaddingY = 8"
definition kHorizontalSpacing :: real where "kHorizontalSpacing = 40"
definition kVerticalSpacing :: real where "kVerticalSpacing = 60"
definition kArrowSize :: real where "kArrowSize = 8"
definition kMaxBlockInsns :: u64 where "kMaxBlockInsns = 256"

record graph_block =
  gb_bb :: api_block
  gb_lines :: "string list"
  gb_layer :: nat
  gb_column :: nat
  gb_x :: real
  gb_y :: real
  gb_width :: real
  gb_height :: real

record font_metrics =
  fm_advance :: "string \<Rightarrow> real"
  fm_height :: real

definition graph_block_of :: "api_block \<Rightarrow> string list \<Rightarrow> graph_block" where
  "graph_block_of bb ls =
     \<lparr>gb_bb = bb, gb_lines = ls, gb_layer = 0, gb_column = 0, gb_x = 0, gb_y = 0, gb_width = 0, gb_height = 0\<rparr>"

section \<open>The blocks of a function\<close>

definition insn_line :: "insn_row \<Rightarrow> string" where
  "insn_line r = hex_digits (unat (ir_address r)) @ ''  '' @ ir_text r"

definition block_lines :: "api_block \<Rightarrow> insn_row list \<Rightarrow> string list" where
  "block_lines bb rows =
     (let end_addr = ab_addr bb + ab_size bb;
          ls = map insn_line (takeWhile (\<lambda>r. \<not> end_addr \<le> ir_address r) rows)
      in if ls = [] then [hex_digits (unat (ab_addr bb))] else ls)"

fun decode_blocks :: "api_block list \<Rightarrow> 'c handle \<Rightarrow> graph_block list \<times> 'c handle" where
  "decode_blocks [] s = ([], s)"
| "decode_blocks (bb # bbs) s =
     (case irida_disasm (ab_addr bb) kMaxBlockInsns True s of (rows, s1) \<Rightarrow>
      case decode_blocks bbs s1 of (blocks, s2) \<Rightarrow> (graph_block_of bb (block_lines bb rows) # blocks, s2))"

definition buildBlocks :: "u64 \<Rightarrow> 'c handle \<Rightarrow> graph_block list \<times> 'c handle" where
  "buildBlocks fn_addr s =
     (case irida_function_blocks fn_addr True s of (bbs, s1) \<Rightarrow> decode_blocks bbs s1)"

section \<open>Layers\<close>

definition addr_at :: "graph_block list \<Rightarrow> nat \<Rightarrow> u64" where
  "addr_at blocks i = ab_addr (gb_bb (blocks ! i))"

text \<open>\<open>index\<close>: a later block of the same address replaces an earlier one.\<close>

definition index_of :: "graph_block list \<Rightarrow> u64 \<Rightarrow> nat option" where
  "index_of blocks = fold (\<lambda>i index. index(addr_at blocks i \<mapsto> i)) [0..<length blocks] Map.empty"

text \<open>A successor of a block, if the graph has one there.\<close>

definition find_succ :: "graph_block list \<Rightarrow> u64 \<Rightarrow> nat option" where
  "find_succ blocks target = (if target = 0 then None else index_of blocks target)"

definition nextLayer :: "(nat \<rightharpoonup> nat) \<Rightarrow> nat \<Rightarrow> nat" where
  "nextLayer layer cur = (case layer cur of None \<Rightarrow> 0 | Some l \<Rightarrow> Suc l)"

definition visit ::
    "graph_block list \<Rightarrow> nat \<Rightarrow> u64 \<Rightarrow> nat list \<times> (nat \<rightharpoonup> nat) \<Rightarrow> nat list \<times> (nat \<rightharpoonup> nat)" where
  "visit blocks next target st =
     (case st of (todo, layer) \<Rightarrow>
        case find_succ blocks target of
          None \<Rightarrow> (todo, layer)
        | Some ti \<Rightarrow> if layer ti = None then (todo @ [ti], layer(ti \<mapsto> next)) else (todo, layer))"

text \<open>One round of the search; the queue is what \<open>order\<close> holds from \<open>head\<close> on.\<close>

definition bfs_step ::
    "graph_block list \<Rightarrow> nat \<Rightarrow> nat list \<Rightarrow> (nat \<rightharpoonup> nat) \<Rightarrow> nat list \<times> (nat \<rightharpoonup> nat)" where
  "bfs_step blocks cur todo layer =
     visit blocks (nextLayer layer cur) (ab_fail (gb_bb (blocks ! cur)))
       (visit blocks (nextLayer layer cur) (ab_jump (gb_bb (blocks ! cur))) (todo, layer))"

lemma index_of_upt:
  "fold (\<lambda>i index. index(f i \<mapsto> i)) [0..<n] Map.empty a = Some i \<Longrightarrow> i < n \<and> f i = a"
  by (induction n) (auto split: if_splits)

lemma index_of_SomeD: "index_of blocks a = Some i \<Longrightarrow> i < length blocks \<and> addr_at blocks i = a"
  unfolding index_of_def by (rule index_of_upt)

lemma find_succ_less: "find_succ blocks a = Some i \<Longrightarrow> i < length blocks"
  by (auto simp: find_succ_def dest: index_of_SomeD split: if_splits)

definition unplaced :: "graph_block list \<Rightarrow> (nat \<rightharpoonup> nat) \<Rightarrow> nat set" where
  "unplaced blocks layer = {..<length blocks} - dom layer"

definition search_size :: "graph_block list \<Rightarrow> nat list \<times> (nat \<rightharpoonup> nat) \<Rightarrow> nat" where
  "search_size blocks st = (case st of (todo, layer) \<Rightarrow> length todo + card (unplaced blocks layer))"

lemma visit_size: "search_size blocks (visit blocks next target st) = search_size blocks st"
proof (cases st)
  case (Pair todo layer)
  have drop: "Suc (card (unplaced blocks (layer(i \<mapsto> next)))) = card (unplaced blocks layer)"
    if "i < length blocks" "layer i = None" for i
  proof -
    have split: "unplaced blocks layer = insert i (unplaced blocks (layer(i \<mapsto> next)))"
      and "i \<notin> unplaced blocks (layer(i \<mapsto> next))" "finite (unplaced blocks (layer(i \<mapsto> next)))"
      using that by (auto simp: unplaced_def)
    then show ?thesis by (subst split) simp
  qed
  show ?thesis
  proof (cases "find_succ blocks target")
    case (Some ti)
    with drop [OF find_succ_less [OF Some]] show ?thesis
      by (simp add: Pair visit_def search_size_def)
  qed (simp add: Pair visit_def)
qed

lemma bfs_step_size: "search_size blocks (bfs_step blocks cur todo layer) = search_size blocks (todo, layer)"
  by (simp add: bfs_step_def visit_size)

function bfs_loop :: "graph_block list \<Rightarrow> nat list \<Rightarrow> (nat \<rightharpoonup> nat) \<Rightarrow> (nat \<rightharpoonup> nat)" where
  "bfs_loop blocks [] layer = layer"
| "bfs_loop blocks (cur # todo) layer =
     (case bfs_step blocks cur todo layer of (todo1, layer1) \<Rightarrow> bfs_loop blocks todo1 layer1)"
  by pat_completeness auto

termination
proof (relation "measure (\<lambda>(blocks, todo, layer). search_size blocks (todo, layer))", goal_cases)
  case (2 blocks cur todo layer todo1 layer1)
  then have "search_size blocks (todo1, layer1) = search_size blocks (todo, layer)"
    using bfs_step_size [of blocks cur todo layer] by simp
  then show ?case by (simp add: search_size_def)
qed simp

declare bfs_loop.simps [simp del]

text \<open>Blocks the search did not reach go below everything, each in a layer of its own.\<close>

definition place_unreached :: "nat \<Rightarrow> (nat \<rightharpoonup> nat) \<times> nat \<Rightarrow> (nat \<rightharpoonup> nat) \<times> nat" where
  "place_unreached i st =
     (case st of (layer, maxLayer) \<Rightarrow>
        if layer i = None then (layer(i \<mapsto> Suc maxLayer), Suc maxLayer) else (layer, maxLayer))"

definition layers :: "graph_block list \<Rightarrow> (nat \<rightharpoonup> nat)" where
  "layers blocks =
     (let layer = bfs_loop blocks [0] [0 \<mapsto> 0];
          maxLayer = fold (\<lambda>i m. max m (case layer i of None \<Rightarrow> 0 | Some l \<Rightarrow> l)) [0..<length blocks] 0
      in fst (fold place_unreached [0..<length blocks] (layer, maxLayer)))"

definition assign_layers :: "graph_block list \<Rightarrow> graph_block list" where
  "assign_layers blocks =
     map (\<lambda>(i, b). b\<lparr>gb_layer := the (layers blocks i)\<rparr>) (enumerate 0 blocks)"

section \<open>Sizes, columns and positions\<close>

definition size_block :: "font_metrics \<Rightarrow> graph_block \<Rightarrow> graph_block" where
  "size_block fm b =
     (let maxW = fold (\<lambda>line w. max w (fm_advance fm line)) (gb_lines b) 0
      in b\<lparr>gb_width := maxW + 2 * kBlockPaddingX,
           gb_height := fm_height fm * real (length (gb_lines b)) + 2 * kBlockPaddingY\<rparr>)"

text \<open>The blocks of a layer by address.  An assignment per block is a list of indices and values.\<close>

definition layer_ids :: "graph_block list \<Rightarrow> nat \<Rightarrow> nat list" where
  "layer_ids blocks l = sort_key (addr_at blocks) (filter (\<lambda>i. gb_layer (blocks ! i) = l) [0..<length blocks])"

definition column_numbers :: "nat list \<Rightarrow> (nat \<times> nat) list" where
  "column_numbers ids = map (\<lambda>(c, i). (i, c)) (enumerate 0 ids)"

definition assign_columns :: "graph_block list \<Rightarrow> graph_block list" where
  "assign_columns blocks =
     map (\<lambda>(i, b). b\<lparr>gb_column := the (map_of (column_numbers (layer_ids blocks (gb_layer b))) i)\<rparr>) (enumerate 0 blocks)"

definition row_height :: "graph_block list \<Rightarrow> nat \<Rightarrow> real" where
  "row_height blocks l = fold (\<lambda>b h. if gb_layer b = l then max h (gb_height b) else h) blocks 0"

definition layerY :: "graph_block list \<Rightarrow> nat \<Rightarrow> real" where
  "layerY blocks l = fold (\<lambda>k y. y + (row_height blocks k + kVerticalSpacing)) [0..<l] 0"

definition total_width :: "graph_block list \<Rightarrow> nat list \<Rightarrow> real" where
  "total_width blocks ids =
     fold (\<lambda>i w. w + gb_width (blocks ! i)) ids 0 + kHorizontalSpacing * real (if 0 < length ids then length ids - 1 else 0)"

fun row_places :: "graph_block list \<Rightarrow> nat list \<Rightarrow> real \<Rightarrow> (nat \<times> real) list" where
  "row_places blocks [] x = []"
| "row_places blocks (i # ids) x = (i, x) # row_places blocks ids (x + (gb_width (blocks ! i) + kHorizontalSpacing))"

definition layer_places :: "graph_block list \<Rightarrow> nat \<Rightarrow> (nat \<times> real) list" where
  "layer_places blocks l =
     (let ids = layer_ids blocks l in row_places blocks ids (- total_width blocks ids / 2))"

definition assign_places :: "graph_block list \<Rightarrow> graph_block list" where
  "assign_places blocks =
     map (\<lambda>(i, b). b\<lparr>gb_x := the (map_of (layer_places blocks (gb_layer b)) i), gb_y := layerY blocks (gb_layer b)\<rparr>)
       (enumerate 0 blocks)"

text \<open>\<open>layout\<close>\<close>

definition layout :: "font_metrics \<Rightarrow> graph_block list \<Rightarrow> graph_block list" where
  "layout fm blocks =
     (if blocks = [] then []
      else assign_places (assign_columns (assign_layers (map (size_block fm) blocks))))"

section \<open>Drawing\<close>

type_synonym point = "real \<times> real"

datatype edge_kind = EdgeTaken | EdgeFail | EdgeUncond

datatype item =
    EdgeLine edge_kind "point list"
  | ArrowHead edge_kind "point list"
  | BlockRect u64 bool real real real real
  | LineText string point

definition arrow_head :: "point \<Rightarrow> point \<Rightarrow> point list" where
  "arrow_head a b =
     (let dx = fst b - fst a; dy = snd b - snd a; len = sqrt (dx * dx + dy * dy) in
      if len < 1 / 10 ^ 6 then []
      else
        let dirx = dx / len; diry = dy / len;
            basex = fst b - dirx * kArrowSize; basey = snd b - diry * kArrowSize;
            left_corner = (basex - diry * (kArrowSize / 2), basey + dirx * (kArrowSize / 2));
            right_corner = (basex + diry * (kArrowSize / 2), basey - dirx * (kArrowSize / 2))
        in [b, left_corner, right_corner, b])"

definition drawEdge :: "graph_block \<Rightarrow> graph_block \<Rightarrow> edge_kind \<Rightarrow> item list" where
  "drawEdge a b kind =
     (let start = (gb_x a + gb_width a / 2, gb_y a + gb_height a);
          finish = (gb_x b + gb_width b / 2, gb_y b);
          midY = (snd start + snd finish) / 2
      in [EdgeLine kind [start, (fst start, midY), (fst finish, midY), finish],
          ArrowHead kind (arrow_head (fst finish, midY) finish)])"

definition edgeTo :: "graph_block list \<Rightarrow> graph_block \<Rightarrow> u64 \<Rightarrow> edge_kind \<Rightarrow> item list" where
  "edgeTo blocks b target kind =
     (case find_succ blocks target of None \<Rightarrow> [] | Some ti \<Rightarrow> drawEdge b (blocks ! ti) kind)"

definition block_edges :: "graph_block list \<Rightarrow> graph_block \<Rightarrow> item list" where
  "block_edges blocks b =
     (let jump = ab_jump (gb_bb b); fail = ab_fail (gb_bb b) in
      if jump \<noteq> 0 \<and> fail \<noteq> 0 then edgeTo blocks b jump EdgeTaken @ edgeTo blocks b fail EdgeFail
      else if jump \<noteq> 0 then edgeTo blocks b jump EdgeUncond
      else if fail \<noteq> 0 then edgeTo blocks b fail EdgeUncond
      else [])"

definition block_items :: "font_metrics \<Rightarrow> nat \<Rightarrow> graph_block \<Rightarrow> item list" where
  "block_items fm i b =
     BlockRect (ab_addr (gb_bb b)) (i = 0) (gb_x b) (gb_y b) (gb_width b) (gb_height b) #
     map (\<lambda>(k, line). LineText line (gb_x b + kBlockPaddingX, gb_y b + kBlockPaddingY + real k * fm_height fm))
       (enumerate 0 (gb_lines b))"

definition draw :: "font_metrics \<Rightarrow> graph_block list \<Rightarrow> item list" where
  "draw fm blocks =
     concat (map (block_edges blocks) blocks) @
     concat (map (\<lambda>(i, b). block_items fm i b) (enumerate 0 blocks))"

section \<open>The view\<close>

record graph_view =
  gv_current_fn :: u64
  gv_scene :: "item list"

definition showFunction :: "font_metrics \<Rightarrow> u64 \<Rightarrow> 'c handle \<Rightarrow> graph_view \<Rightarrow> graph_view \<times> 'c handle" where
  "showFunction fm fn_addr s g =
     (case buildBlocks fn_addr s of (blocks, s1) \<Rightarrow>
        (g\<lparr>gv_current_fn := fn_addr, gv_scene := draw fm (layout fm blocks)\<rparr>, s1))"

definition graph_refresh :: "font_metrics \<Rightarrow> 'c handle \<Rightarrow> graph_view \<Rightarrow> graph_view \<times> 'c handle" where
  "graph_refresh fm s g =
     (case (if gv_current_fn g = 0
            then case irida_functions True s of (fns, s1) \<Rightarrow>
              (if 0 < length fns then g\<lparr>gv_current_fn := afn_addr (fns ! 0)\<rparr> else g, s1)
            else (g, s)) of (g1, s1) \<Rightarrow>
        if gv_current_fn g1 \<noteq> 0 then showFunction fm (gv_current_fn g1) s1 g1 else (g1, s1))"

definition onNavigation :: "font_metrics \<Rightarrow> u64 \<Rightarrow> 'c handle \<Rightarrow> graph_view \<Rightarrow> graph_view \<times> 'c handle" where
  "onNavigation fm addr s g =
     (case irida_functions True s of (fns, s1) \<Rightarrow>
        case List.find (\<lambda>f. afn_addr f \<le> addr \<and> addr < afn_addr f + afn_size f) fns of
          None \<Rightarrow> (g, s1)
        | Some f \<Rightarrow> showFunction fm (afn_addr f) s1 g)"

section \<open>The search\<close>

definition succ_of :: "graph_block list \<Rightarrow> nat \<Rightarrow> nat set" where
  "succ_of blocks i =
     set_option (find_succ blocks (ab_jump (gb_bb (blocks ! i)))) \<union>
     set_option (find_succ blocks (ab_fail (gb_bb (blocks ! i))))"

text \<open>A walk of \<open>n\<close> edges from the entry.\<close>

inductive walk :: "graph_block list \<Rightarrow> nat \<Rightarrow> nat \<Rightarrow> bool" for blocks where
  entry: "walk blocks 0 0"
| edge: "walk blocks n i \<Longrightarrow> j \<in> succ_of blocks i \<Longrightarrow> walk blocks (Suc n) j"

inductive_simps walk_0: "walk blocks 0 i"
inductive_simps walk_Suc: "walk blocks (Suc n) i"

text \<open>What the search keeps: \<open>bound\<close> is the layer of the block whose successors come next.\<close>

definition search_inv :: "graph_block list \<Rightarrow> nat list \<Rightarrow> (nat \<rightharpoonup> nat) \<Rightarrow> bool" where
  "search_inv blocks todo layer \<longleftrightarrow>
     layer 0 = Some 0 \<and> set todo \<subseteq> dom layer \<and>
     sorted (map (\<lambda>i. the (layer i)) todo) \<and>
     (\<forall>i l. layer i = Some l \<longrightarrow> walk blocks l i \<and> (todo \<noteq> [] \<longrightarrow> l \<le> Suc (the (layer (hd todo))))) \<and>
     (\<forall>i l. layer i = Some l \<longrightarrow> i \<notin> set todo \<longrightarrow> (\<forall>j \<in> succ_of blocks i. \<exists>k \<le> Suc l. layer j = Some k))"

definition mid_inv :: "graph_block list \<Rightarrow> nat \<Rightarrow> nat \<Rightarrow> nat list \<times> (nat \<rightharpoonup> nat) \<Rightarrow> bool" where
  "mid_inv blocks cur l st \<longleftrightarrow>
     (case st of (todo, layer) \<Rightarrow>
        layer 0 = Some 0 \<and> layer cur = Some l \<and> set todo \<subseteq> dom layer \<and> sorted (map (\<lambda>i. the (layer i)) todo) \<and>
        (\<forall>i \<in> set todo. l \<le> the (layer i)) \<and>
        (\<forall>i k. layer i = Some k \<longrightarrow> walk blocks k i \<and> k \<le> Suc l) \<and>
        (\<forall>i k. layer i = Some k \<longrightarrow> i \<notin> set todo \<longrightarrow> i \<noteq> cur \<longrightarrow>
           (\<forall>j \<in> succ_of blocks i. \<exists>m \<le> Suc k. layer j = Some m)))"

lemma mid_inv_visit:
  assumes "mid_inv blocks cur l st" "\<forall>j. find_succ blocks target = Some j \<longrightarrow> j \<in> succ_of blocks cur"
  shows "mid_inv blocks cur l (visit blocks (Suc l) target st)"
    "\<And>j. find_succ blocks target = Some j \<Longrightarrow> snd (visit blocks (Suc l) target st) j \<noteq> None"
    "\<And>j k. snd st j = Some k \<Longrightarrow> snd (visit blocks (Suc l) target st) j = Some k"
proof -
  obtain todo layer where st: "st = (todo, layer)" by (cases st)
  show "mid_inv blocks cur l (visit blocks (Suc l) target st)"
  proof (cases "find_succ blocks target")
    case None
    with assms(1) show ?thesis by (simp add: st visit_def)
  next
    case (Some ti)
    show ?thesis
    proof (cases "layer ti")
      case None
      note inv = assms(1) [unfolded st mid_inv_def prod.case]
      have new: "visit blocks (Suc l) target st = (todo @ [ti], layer(ti \<mapsto> Suc l))"
        using Some None by (simp add: st visit_def)
      have ne: "ti \<notin> set todo" "ti \<noteq> cur" using inv None by auto
      have "ti \<noteq> 0" using inv None by (cases "ti = 0") auto
      note ne = ne this
      then have same: "map (\<lambda>i. the ((layer(ti \<mapsto> Suc l)) i)) todo = map (\<lambda>i. the (layer i)) todo" by auto
      have "walk blocks (Suc l) ti" using inv walk.edge assms(2) Some by blast
      moreover have "\<forall>i \<in> set todo. the (layer i) \<le> Suc l" using inv by fastforce
      moreover have "ti \<notin> succ_of blocks i" if "layer i = Some k" "i \<notin> set todo" "i \<noteq> cur" for i k
        using inv that None by fastforce
      ultimately show ?thesis
        unfolding new mid_inv_def prod.case map_append same sorted_append using inv ne None
        by (auto 0 3 intro: le_SucI)
    next
      case (Some k)
      with assms(1) \<open>find_succ blocks target = Some ti\<close> show ?thesis by (simp add: st visit_def)
    qed
  qed
  show "\<And>j. find_succ blocks target = Some j \<Longrightarrow> snd (visit blocks (Suc l) target st) j \<noteq> None"
    by (simp add: st visit_def)
  show "\<And>j k. snd st j = Some k \<Longrightarrow> snd (visit blocks (Suc l) target st) j = Some k"
    by (auto simp: st visit_def split: option.split)
qed

lemma bfs_step_inv:
  assumes "search_inv blocks (cur # todo) layer"
  shows "case bfs_step blocks cur todo layer of (todo1, layer1) \<Rightarrow> search_inv blocks todo1 layer1"
proof -
  obtain l where l: "layer cur = Some l" using assms by (auto simp: search_inv_def)
  have nl: "nextLayer layer cur = Suc l" by (simp add: nextLayer_def l)
  let ?jump = "ab_jump (gb_bb (blocks ! cur))" and ?fail = "ab_fail (gb_bb (blocks ! cur))"
  have m0: "mid_inv blocks cur l (todo, layer)"
    using assms l by (auto simp: search_inv_def mid_inv_def)
  define st1 where "st1 = visit blocks (Suc l) ?jump (todo, layer)"
  have succ: "\<forall>j. find_succ blocks ?jump = Some j \<longrightarrow> j \<in> succ_of blocks cur"
    "\<forall>j. find_succ blocks ?fail = Some j \<longrightarrow> j \<in> succ_of blocks cur" by (auto simp: succ_of_def)
  note v1 = mid_inv_visit [OF m0 succ(1), folded st1_def]
  note v2 = mid_inv_visit [OF v1(1) succ(2)]
  obtain todo2 layer2 where st2: "visit blocks (Suc l) ?fail st1 = (todo2, layer2)" by (cases "visit blocks (Suc l) ?fail st1")
  have step: "bfs_step blocks cur todo layer = (todo2, layer2)"
    using st2 by (simp add: bfs_step_def nl st1_def)
  note m2 = v2(1) [unfolded st2 mid_inv_def prod.case]
  have "\<exists>k \<le> Suc l. layer2 j = Some k" if "j \<in> succ_of blocks cur" for j
  proof -
    from that consider "find_succ blocks ?jump = Some j" | "find_succ blocks ?fail = Some j"
      by (auto simp: succ_of_def)
    then have "layer2 j \<noteq> None"
    proof cases
      case 1
      from v1(2) [OF 1] obtain k where "snd st1 j = Some k" by blast
      from v2(3) [OF this] show ?thesis by (simp add: st2)
    next
      case 2
      from v2(2) [OF 2] show ?thesis by (simp add: st2)
    qed
    then obtain k where "layer2 j = Some k" by blast
    with m2 show ?thesis by blast
  qed
  moreover have "l \<le> the (layer2 (hd todo2))" if "todo2 \<noteq> []" using m2 that by (cases todo2) auto
  ultimately show ?thesis
    unfolding step search_inv_def prod.case using m2 by (auto 0 3 intro: order_trans)
qed

lemma bfs_loop_inv: "search_inv blocks todo layer \<Longrightarrow> search_inv blocks [] (bfs_loop blocks todo layer)"
proof (induction blocks todo layer rule: bfs_loop.induct)
  case (2 blocks cur todo layer)
  obtain todo1 layer1 where st: "bfs_step blocks cur todo layer = (todo1, layer1)" by (cases "bfs_step blocks cur todo layer")
  from 2(1) [OF st [symmetric]] bfs_step_inv [OF 2(2)] show ?case by (simp add: st bfs_loop.simps)
qed (simp add: bfs_loop.simps)

lemma search_done:
  assumes "search_inv blocks [] layer"
  shows "walk blocks n i \<Longrightarrow> \<exists>l \<le> n. layer i = Some l"
proof (induction rule: walk.induct)
  case entry
  then show ?case using assms by (simp add: search_inv_def)
next
  case (edge n i j)
  then obtain l where "l \<le> n" "layer i = Some l" by blast
  with edge.hyps(2) assms obtain k where "k \<le> Suc l" "layer j = Some k" by (fastforce simp: search_inv_def)
  with \<open>l \<le> n\<close> show ?case by (intro exI [of _ k]) simp
qed

lemma search_start: "search_inv blocks [0] [0 \<mapsto> 0]"
  by (auto simp: search_inv_def intro: walk.entry)

lemma bfs_loop_shortest:
  "bfs_loop blocks [0] [0 \<mapsto> 0] i = (if \<exists>n. walk blocks n i then Some (LEAST n. walk blocks n i) else None)"
proof -
  let ?layer = "bfs_loop blocks [0] [0 \<mapsto> 0]"
  note inv = bfs_loop_inv [OF search_start, of blocks]
  show ?thesis
  proof (cases "\<exists>n. walk blocks n i")
    case True
    then have w: "walk blocks (LEAST n. walk blocks n i) i" by (rule LeastI_ex)
    from search_done [OF inv w] obtain l where l: "l \<le> (LEAST n. walk blocks n i)" "?layer i = Some l" by blast
    then have "walk blocks l i" using inv by (auto simp: search_inv_def)
    then have "(LEAST n. walk blocks n i) \<le> l" by (rule Least_le)
    with l True show ?thesis by simp
  next
    case False
    then have "?layer i = None" using inv by (cases "?layer i") (auto simp: search_inv_def)
    with False show ?thesis by simp
  qed
qed

section \<open>What the layers are\<close>

lemma place_unreached_fold:
  "\<exists>layer1 m1. fold place_unreached is (layer, m) = (layer1, m1) \<and> m \<le> m1 \<and> set is \<union> dom layer = dom layer1 \<and>
     (\<forall>i l. layer i = Some l \<longrightarrow> layer1 i = Some l) \<and>
     (\<forall>i l. layer i = None \<longrightarrow> layer1 i = Some l \<longrightarrow> m < l \<and> l \<le> m1) \<and> inj_on layer1 (dom layer1 - dom layer)"
proof (induction "is" rule: rev_induct)
  case (snoc i "is")
  then obtain layer1 m1 where IH: "fold place_unreached is (layer, m) = (layer1, m1)" "m \<le> m1"
    "set is \<union> dom layer = dom layer1" "\<forall>i l. layer i = Some l \<longrightarrow> layer1 i = Some l"
    "\<forall>i l. layer i = None \<longrightarrow> layer1 i = Some l \<longrightarrow> m < l \<and> l \<le> m1" "inj_on layer1 (dom layer1 - dom layer)"
    by blast
  show ?case
  proof (cases "layer1 i")
    case None
    have "inj_on (layer1(i \<mapsto> Suc m1)) (dom layer1 - dom layer)"
      using IH(6) None by (auto simp: inj_on_def)
    moreover have "Some (Suc m1) \<notin> layer1 ` (dom layer1 - dom layer)"
      using IH(5) by fastforce
    moreover have "dom (layer1(i \<mapsto> Suc m1)) - dom layer = insert i (dom layer1 - dom layer)"
      using None IH(3) by auto
    moreover have "layer1(i \<mapsto> Suc m1) ` (dom layer1 - dom layer) = layer1 ` (dom layer1 - dom layer)"
      using None by (intro image_cong) auto
    moreover have "dom layer1 - dom layer - {i} = dom layer1 - dom layer" using None by auto
    ultimately have "inj_on (layer1(i \<mapsto> Suc m1)) (dom (layer1(i \<mapsto> Suc m1)) - dom layer)"
      by (simp only: inj_on_insert) simp
    moreover have "fold place_unreached (is @ [i]) (layer, m) = (layer1(i \<mapsto> Suc m1), Suc m1)"
      using IH(1) None by (simp add: place_unreached_def [of i])
    moreover have "set (is @ [i]) \<union> dom layer = dom (layer1(i \<mapsto> Suc m1))" using IH(3) by auto
    moreover have "\<forall>k l. layer k = Some l \<longrightarrow> (layer1(i \<mapsto> Suc m1)) k = Some l" using IH(4) None by auto
    moreover have "\<forall>k l. layer k = None \<longrightarrow> (layer1(i \<mapsto> Suc m1)) k = Some l \<longrightarrow> m < l \<and> l \<le> Suc m1"
      using IH(2,5) by (auto intro: le_SucI simp: less_Suc_eq_le)
    moreover have "m \<le> Suc m1" using IH(2) by simp
    ultimately show ?thesis
      by (intro exI [of _ "layer1(i \<mapsto> Suc m1)"] exI [of _ "Suc m1"] conjI) assumption+
  next
    case (Some l)
    then have "place_unreached i (layer1, m1) = (layer1, m1)" by (simp add: place_unreached_def)
    with IH Some show ?thesis
      by (intro exI [of _ layer1] exI [of _ m1]) auto
  qed
qed (auto simp: inj_on_def)

lemma fold_max_ge: "(m :: nat) \<le> fold (\<lambda>i m. max m (f i)) is m \<and> (\<forall>i \<in> set is. f i \<le> fold (\<lambda>i m. max m (f i)) is m)"
proof (induction "is" arbitrary: m)
  case (Cons i "is")
  from Cons [of "max m (f i)"] show ?case by auto
qed simp

lemma walk_less: "walk blocks n i \<Longrightarrow> blocks \<noteq> [] \<Longrightarrow> i < length blocks"
  by (induction rule: walk.induct) (auto simp: succ_of_def dest: find_succ_less)

lemma layers_cases:
  assumes "i < length blocks"
  shows "(\<exists>n. walk blocks n i) \<Longrightarrow> layers blocks i = Some (LEAST n. walk blocks n i)"
    "\<nexists>n. walk blocks n i \<Longrightarrow> j < length blocks \<Longrightarrow> j \<noteq> i \<Longrightarrow> layers blocks j \<noteq> layers blocks i"
    "\<nexists>n. walk blocks n i \<Longrightarrow> j < length blocks \<Longrightarrow> walk blocks n j \<Longrightarrow> the (layers blocks j) < the (layers blocks i)"
    "layers blocks i \<noteq> None"
proof -
  let ?L = "bfs_loop blocks [0] [0 \<mapsto> 0]"
  let ?f = "\<lambda>i. case ?L i of None \<Rightarrow> 0 | Some l \<Rightarrow> l"
  let ?m = "fold (\<lambda>i m. max m (?f i)) [0..<length blocks] 0"
  obtain layer1 m1 where P: "fold place_unreached [0..<length blocks] (?L, ?m) = (layer1, m1)"
    "set [0..<length blocks] \<union> dom ?L = dom layer1" "\<forall>i l. ?L i = Some l \<longrightarrow> layer1 i = Some l"
    "\<forall>i l. ?L i = None \<longrightarrow> layer1 i = Some l \<longrightarrow> ?m < l \<and> l \<le> m1" "inj_on layer1 (dom layer1 - dom ?L)"
    using place_unreached_fold [of "[0..<length blocks]" ?L ?m] by blast
  have layers: "layers blocks = layer1" by (simp add: layers_def Let_def P(1))
  have le: "l \<le> ?m" if "?L k = Some l" "k < length blocks" for k l
  proof -
    have "?f k \<le> ?m" using fold_max_ge [of 0 ?f "[0..<length blocks]"] that(2) by simp
    with that(1) show ?thesis by simp
  qed
  have some: "layers blocks k \<noteq> None" if "k < length blocks" for k using P(2) that by (auto simp: layers)
  then show "layers blocks i \<noteq> None" using assms by blast
  show "(\<exists>n. walk blocks n i) \<Longrightarrow> layers blocks i = Some (LEAST n. walk blocks n i)"
    using P(3) bfs_loop_shortest [of blocks i] by (simp add: layers)
  assume un: "\<nexists>n. walk blocks n i"
  then have none: "?L i = None" by (simp add: bfs_loop_shortest)
  obtain l where l: "layer1 i = Some l" "?m < l" using some [OF assms] P(4) none by (auto simp: layers)
  { assume j: "j < length blocks" "walk blocks n j"
    then have "?L j = Some (LEAST n. walk blocks n j)" using bfs_loop_shortest [of blocks j] by (subst (asm) if_P) blast+
    then obtain k where k: "?L j = Some k" by blast
    with P(3) le [OF k j(1)] l show "the (layers blocks j) < the (layers blocks i)" by (simp add: layers) }
  assume j: "j < length blocks" "j \<noteq> i"
  show "layers blocks j \<noteq> layers blocks i"
  proof (cases "?L j")
    case None
    with none P(2) j assms have "j \<in> dom layer1 - dom ?L" "i \<in> dom layer1 - dom ?L" by auto
    with P(5) j(2) show ?thesis by (auto simp: layers inj_on_def)
  next
    case (Some k)
    with P(3) le [OF Some j(1)] l show ?thesis by (simp add: layers)
  qed
qed

section \<open>The layout keeps the graph\<close>

lemma same_graph:
  assumes "map gb_bb bs = map gb_bb blocks"
  shows "length bs = length blocks" "find_succ bs = find_succ blocks" "i < length blocks \<Longrightarrow> succ_of bs i = succ_of blocks i"
proof -
  show len: "length bs = length blocks" using assms by (rule map_eq_imp_length_eq)
  have bb: "gb_bb (bs ! i) = gb_bb (blocks ! i)" if "i < length blocks" for i
    using assms that len by (metis nth_map)
  have "fold (\<lambda>i index. index(addr_at bs i \<mapsto> i)) [0..<length blocks] Map.empty =
      fold (\<lambda>i index. index(addr_at blocks i \<mapsto> i)) [0..<length blocks] Map.empty"
    by (rule fold_cong) (simp_all add: addr_at_def bb)
  then show fs: "find_succ bs = find_succ blocks"
    by (simp add: fun_eq_iff find_succ_def index_of_def len)
  show "i < length blocks \<Longrightarrow> succ_of bs i = succ_of blocks i"
    by (simp add: succ_of_def fs bb)
qed

lemma same_walks: "walk bs n i \<Longrightarrow> map gb_bb bs = map gb_bb blocks \<Longrightarrow> blocks \<noteq> [] \<Longrightarrow> walk blocks n i"
proof (induction rule: walk.induct)
  case entry
  show ?case by (rule walk.entry)
next
  case (edge n i j)
  then have "walk blocks n i" by simp
  with edge.hyps(2) same_graph(3) [OF edge.prems(1) walk_less] edge.prems(2) show ?case
    by (intro walk.edge) auto
qed

lemma same_walks_iff:
  "map gb_bb bs = map gb_bb blocks \<Longrightarrow> blocks \<noteq> [] \<Longrightarrow> walk bs n i \<longleftrightarrow> walk blocks n i"
  using same_walks [of bs n i blocks] same_walks [of blocks n i bs] by (metis map_is_Nil_conv)

lemma layout_steps [simp]:
  "length (assign_layers bs) = length bs" "length (assign_columns bs) = length bs" "length (assign_places bs) = length bs"
  by (simp_all add: assign_layers_def assign_columns_def assign_places_def)

lemma nth_layout_steps:
  "i < length bs \<Longrightarrow> assign_layers bs ! i = (bs ! i)\<lparr>gb_layer := the (layers bs i)\<rparr>"
  "i < length bs \<Longrightarrow>
   assign_columns bs ! i = (bs ! i)\<lparr>gb_column := the (map_of (column_numbers (layer_ids bs (gb_layer (bs ! i)))) i)\<rparr>"
  "i < length bs \<Longrightarrow> assign_places bs ! i =
     (bs ! i)\<lparr>gb_x := the (map_of (layer_places bs (gb_layer (bs ! i))) i), gb_y := layerY bs (gb_layer (bs ! i))\<rparr>"
  by (simp_all add: assign_layers_def assign_columns_def assign_places_def nth_enumerate_eq)

lemma size_block_bb [simp]: "gb_bb (size_block fm b) = gb_bb b" "gb_lines (size_block fm b) = gb_lines b"
  by (simp_all add: size_block_def Let_def)

lemma length_layout [simp]: "length (layout fm blocks) = length blocks"
  by (simp add: layout_def)

lemma layout_bb: "map gb_bb (layout fm blocks) = map gb_bb blocks"
  by (rule nth_equalityI) (auto simp: layout_def nth_layout_steps)

lemma layout_layer:
  assumes "i < length blocks"
  shows "gb_layer (layout fm blocks ! i) = the (layers (map (size_block fm) blocks) i)"
  using assms by (auto simp: layout_def nth_layout_steps)

lemma size_walks: "blocks \<noteq> [] \<Longrightarrow> walk (map (size_block fm) blocks) n i \<longleftrightarrow> walk blocks n i"
  by (rule same_walks_iff) simp_all

text \<open>C34: The layer of a block that can be reached from the entry is its distance from the entry in the
  control-flow graph, so an edge never leads more than one layer down; a block that cannot be
  reached has a layer of its own below all that can.\<close>

theorem graph_layers_are_distances:
  assumes "blocks \<noteq> []" "i < length blocks"
  shows "if \<exists>n. walk blocks n i
     then gb_layer (layout fm blocks ! i) = (LEAST n. walk blocks n i) \<and>
          (\<forall>j \<in> succ_of blocks i. gb_layer (layout fm blocks ! j) \<le> Suc (gb_layer (layout fm blocks ! i)))
     else \<forall>j < length blocks. j \<noteq> i \<longrightarrow>
            gb_layer (layout fm blocks ! j) \<noteq> gb_layer (layout fm blocks ! i) \<and>
            ((\<exists>n. walk blocks n j) \<longrightarrow> gb_layer (layout fm blocks ! j) < gb_layer (layout fm blocks ! i))"
proof -
  note cases = layers_cases [of _ "map (size_block fm) blocks", unfolded length_map size_walks [OF assms(1)]]
  have layer: "gb_layer (layout fm blocks ! k) = (LEAST n. walk blocks n k)" if "walk blocks n k" for n k
  proof -
    from walk_less [OF that assms(1)] have k: "k < length blocks" .
    moreover have "\<exists>n. walk blocks n k" using that by blast
    ultimately show ?thesis using cases(1) [of k] layout_layer [OF k, of fm] by simp
  qed
  show ?thesis
  proof (cases "\<exists>n. walk blocks n i")
    case True
    then have w: "walk blocks (LEAST n. walk blocks n i) i" by (rule LeastI_ex)
    have "gb_layer (layout fm blocks ! j) \<le> Suc (gb_layer (layout fm blocks ! i))" if "j \<in> succ_of blocks i" for j
    proof -
      have "walk blocks (Suc (LEAST n. walk blocks n i)) j" by (rule walk.edge [OF w that])
      with layer [OF this] layer [OF w] show ?thesis by (simp add: Least_le)
    qed
    with True layer [OF w] show ?thesis by simp
  next
    case False
    have "gb_layer (layout fm blocks ! j) \<noteq> gb_layer (layout fm blocks ! i) \<and>
        ((\<exists>n. walk blocks n j) \<longrightarrow> gb_layer (layout fm blocks ! j) < gb_layer (layout fm blocks ! i))"
      if "j < length blocks" "j \<noteq> i" for j
      using cases(2) [OF assms(2) False that] cases(3) [OF assms(2) False that(1)] cases(4) [OF assms(2)]
        cases(4) [OF that(1)] layout_layer [OF assms(2)] layout_layer [OF that(1)] by auto
    with False show ?thesis by simp
  qed
qed

section \<open>Where the boxes are\<close>

lemma layer_ids_facts:
  "distinct (layer_ids bs l)" "set (layer_ids bs l) = {i. i < length bs \<and> gb_layer (bs ! i) = l}"
  "sorted (map (addr_at bs) (layer_ids bs l))"
  by (auto simp: layer_ids_def)

lemma map_of_nth: "distinct (map fst kvs) \<Longrightarrow> p < length kvs \<Longrightarrow> kvs ! p = (k, v) \<Longrightarrow> map_of kvs k = Some v"
  by (metis map_of_is_SomeI nth_mem)

lemma map_of_columns: "distinct ids \<Longrightarrow> p < length ids \<Longrightarrow> map_of (column_numbers ids) (ids ! p) = Some p"
  by (rule map_of_nth [of _ p]) (simp_all add: column_numbers_def nth_enumerate_eq comp_def case_prod_unfold)

lemma row_places_nth:
  "p < length ids \<Longrightarrow>
   row_places bs ids x ! p = (ids ! p, x + (\<Sum>i \<leftarrow> take p ids. gb_width (bs ! i) + kHorizontalSpacing))"
  by (induction bs ids x arbitrary: p rule: row_places.induct) (auto simp: nth_Cons' take_Cons' algebra_simps)

lemma row_places_length [simp]: "length (row_places bs ids x) = length ids" "map fst (row_places bs ids x) = ids"
  by (induction bs ids x rule: row_places.induct) simp_all

lemma sum_take_step:
  assumes "p < q" "q \<le> length xs" "\<forall>x \<in> set xs. 0 \<le> (f x :: real)"
  shows "(\<Sum>x \<leftarrow> take p xs. f x) + f (xs ! p) \<le> (\<Sum>x \<leftarrow> take q xs. f x)"
proof -
  have "take q xs = take (Suc p) (take q xs) @ drop (Suc p) (take q xs)" by (rule append_take_drop_id [symmetric])
  then have "(\<Sum>x \<leftarrow> take q xs. f x) = (\<Sum>x \<leftarrow> take (Suc p) xs. f x) + (\<Sum>x \<leftarrow> drop (Suc p) (take q xs). f x)"
    using assms(1) by (metis Suc_leI map_append min.absorb1 sum_list_append take_take)
  moreover have "0 \<le> (\<Sum>x \<leftarrow> drop (Suc p) (take q xs). f x)"
    using assms(3) by (intro sum_list_nonneg) (auto dest: in_set_dropD in_set_takeD)
  moreover have "take (Suc p) xs = take p xs @ [xs ! p]"
    using assms(1,2) by (simp add: take_Suc_conv_app_nth)
  ultimately show ?thesis by (simp del: take_append)
qed

lemma fold_max_real: "(m :: real) \<le> fold (\<lambda>x m. max m (f x)) xs m"
proof (induction xs arbitrary: m)
  case (Cons x xs)
  from Cons [of "max m (f x)"] show ?case by simp
qed simp

lemma size_block_width: "0 \<le> gb_width (size_block fm b)"
  using fold_max_real [of 0 "fm_advance fm" "gb_lines b"] by (simp add: size_block_def Let_def kBlockPaddingX_def)

lemma fold_row_height:
  "m \<le> fold (\<lambda>b h. if gb_layer b = l then max h (gb_height b) else h) bs m \<and>
   (\<forall>b \<in> set bs. gb_layer b = l \<longrightarrow> gb_height b \<le> fold (\<lambda>b h. if gb_layer b = l then max h (gb_height b) else h) bs m)"
proof (induction bs arbitrary: m)
  case (Cons b bs)
  from Cons [of "if gb_layer b = l then max m (gb_height b) else m"] show ?case by (auto split: if_splits)
qed simp

lemma row_height_ge: "0 \<le> row_height bs l" "i < length bs \<Longrightarrow> gb_height (bs ! i) \<le> row_height bs (gb_layer (bs ! i))"
  using fold_row_height [of 0 l bs] fold_row_height [of 0 "gb_layer (bs ! i)" bs] by (auto simp: row_height_def)

lemma layerY_Suc: "layerY bs (Suc l) = layerY bs l + row_height bs l + kVerticalSpacing"
  by (simp add: layerY_def)

lemma layerY_less: "l < m \<Longrightarrow> layerY bs l + row_height bs l + kVerticalSpacing \<le> layerY bs m"
proof (induction m)
  case (Suc m)
  have "layerY bs m \<le> layerY bs (Suc m)"
    using row_height_ge(1) [of bs m] by (simp add: layerY_Suc kVerticalSpacing_def)
  with Suc show ?case by (cases "l = m") (auto simp: layerY_Suc)
qed simp

lemma insort_key_same: "f a = g a \<Longrightarrow> \<forall>x \<in> set xs. f x = g x \<Longrightarrow> insort_key f a xs = insort_key g a xs"
  by (induction xs) simp_all

lemma sort_key_same: "(\<And>x. x \<in> set xs \<Longrightarrow> f x = g x) \<Longrightarrow> sort_key f xs = sort_key g xs"
proof (induction xs)
  case (Cons x xs)
  then have "insort_key f x (sort_key g xs) = insort_key g x (sort_key g xs)" by (intro insort_key_same) simp_all
  with Cons show ?case by simp
qed simp

text \<open>Position \<open>p\<close> of a block in its layer decides its column and its left side.\<close>

lemma place_of:
  assumes "i < length bs"
  defines "l \<equiv> gb_layer (bs ! i)"
  defines "ids \<equiv> layer_ids bs l"
  defines "b \<equiv> assign_places (assign_columns bs) ! i"
  shows "\<exists>p < length ids. ids ! p = i \<and> gb_column b = p \<and>
     gb_x b = - total_width (assign_columns bs) ids / 2 + (\<Sum>k \<leftarrow> take p ids. gb_width (bs ! k) + kHorizontalSpacing)"
proof -
  have "i \<in> set ids" using assms(1) by (simp add: ids_def l_def layer_ids_facts)
  then obtain p where p: "p < length ids" "ids ! p = i" by (auto simp: in_set_conv_nth)
  let ?C = "assign_columns bs"
  have C: "gb_layer (?C ! k) = gb_layer (bs ! k)" "gb_width (?C ! k) = gb_width (bs ! k)"
      "gb_bb (?C ! k) = gb_bb (bs ! k)" if "k < length bs" for k
    using that by (simp_all add: nth_layout_steps)
  have "filter (\<lambda>k. gb_layer (?C ! k) = l) [0..<length bs] = filter (\<lambda>k. gb_layer (bs ! k) = l) [0..<length bs]"
    by (rule filter_cong) (simp_all add: C)
  then have same: "layer_ids ?C l = ids"
    unfolding layer_ids_def ids_def by (simp, intro sort_key_same) (simp add: addr_at_def C)
  have "gb_column b = p"
    using assms(1) p map_of_columns [OF layer_ids_facts(1), of p bs l]
    by (simp add: b_def nth_layout_steps ids_def l_def)
  moreover have "map_of (row_places ?C ids x) i = Some (x + (\<Sum>k \<leftarrow> take p ids. gb_width (bs ! k) + kHorizontalSpacing))" for x
  proof (rule map_of_nth [of _ p])
    show "distinct (map fst (row_places ?C ids x))" using layer_ids_facts(1) [of bs l] by (simp add: ids_def)
    have "map (\<lambda>k. gb_width (?C ! k) + kHorizontalSpacing) (take p ids) = map (\<lambda>k. gb_width (bs ! k) + kHorizontalSpacing) (take p ids)"
    proof (intro map_cong refl)
      fix k assume "k \<in> set (take p ids)"
      from in_set_takeD [OF this] have "k < length bs" by (simp add: ids_def layer_ids_facts(2))
      then show "gb_width (?C ! k) + kHorizontalSpacing = gb_width (bs ! k) + kHorizontalSpacing" by (simp add: C)
    qed
    then have "(\<Sum>k \<leftarrow> take p ids. gb_width (?C ! k) + kHorizontalSpacing) = (\<Sum>k \<leftarrow> take p ids. gb_width (bs ! k) + kHorizontalSpacing)"
      by (rule arg_cong)
    then show "row_places ?C ids x ! p = (i, x + (\<Sum>k \<leftarrow> take p ids. gb_width (bs ! k) + kHorizontalSpacing))"
      using p by (simp add: row_places_nth)
  qed (use p in simp)
  ultimately show ?thesis
    using p assms(1) same by (intro exI [of _ p]) (simp add: b_def nth_layout_steps(3) C(1) layer_places_def Let_def l_def)
qed

lemma places_keep:
  assumes "k < length bs"
  defines "b \<equiv> assign_places (assign_columns bs) ! k"
  shows "gb_layer b = gb_layer (bs ! k)" "gb_width b = gb_width (bs ! k)" "gb_height b = gb_height (bs ! k)"
    "gb_bb b = gb_bb (bs ! k)" "gb_y b = layerY (assign_columns bs) (gb_layer (bs ! k))"
    "gb_layer (assign_columns bs ! k) = gb_layer (bs ! k)" "gb_height (assign_columns bs ! k) = gb_height (bs ! k)"
  using assms(1) by (simp_all add: b_def nth_layout_steps)

lemma same_layer_apart:
  assumes "i < length bs" "j < length bs" "i \<noteq> j" "gb_layer (bs ! i) = gb_layer (bs ! j)" "\<forall>b \<in> set bs. 0 \<le> gb_width b"
  defines "P \<equiv> assign_places (assign_columns bs)"
  shows "gb_column (P ! i) \<noteq> gb_column (P ! j)"
    "gb_column (P ! i) < gb_column (P ! j) \<Longrightarrow>
       addr_at bs i \<le> addr_at bs j \<and> gb_x (P ! i) + gb_width (bs ! i) + kHorizontalSpacing \<le> gb_x (P ! j)"
proof -
  let ?ids = "layer_ids bs (gb_layer (bs ! i))"
  let ?w = "\<lambda>k. gb_width (bs ! k) + kHorizontalSpacing"
  obtain p where p: "p < length ?ids" "?ids ! p = i" "gb_column (P ! i) = p"
    "gb_x (P ! i) = - total_width (assign_columns bs) ?ids / 2 + (\<Sum>k \<leftarrow> take p ?ids. ?w k)"
    using place_of [OF assms(1)] by (auto simp: P_def)
  obtain q where q: "q < length ?ids" "?ids ! q = j" "gb_column (P ! j) = q"
    "gb_x (P ! j) = - total_width (assign_columns bs) ?ids / 2 + (\<Sum>k \<leftarrow> take q ?ids. ?w k)"
    using place_of [OF assms(2)] by (auto simp: P_def assms(4))
  show "gb_column (P ! i) \<noteq> gb_column (P ! j)" using p q assms(3) by auto
  have pos: "\<forall>k \<in> set ?ids. 0 \<le> ?w k"
    using assms(5) by (auto simp: layer_ids_facts kHorizontalSpacing_def)
  assume "gb_column (P ! i) < gb_column (P ! j)"
  then have "p < q" using p(3) q(3) by simp
  moreover have "addr_at bs i \<le> addr_at bs j"
    using sorted_nth_mono [OF layer_ids_facts(3) [of bs "gb_layer (bs ! i)"], of p q] \<open>p < q\<close> p(1,2) q(1,2) by simp
  ultimately show "addr_at bs i \<le> addr_at bs j \<and> gb_x (P ! i) + gb_width (bs ! i) + kHorizontalSpacing \<le> gb_x (P ! j)"
    using sum_take_step [OF \<open>p < q\<close> _ pos] p(2,4) q(1,4) by simp
qed

lemma layers_apart:
  assumes "i < length bs" "j < length bs" "gb_layer (bs ! i) < gb_layer (bs ! j)"
  defines "P \<equiv> assign_places (assign_columns bs)"
  shows "gb_y (P ! i) + gb_height (bs ! i) + kVerticalSpacing \<le> gb_y (P ! j)"
  using layerY_less [OF assms(3), of "assign_columns bs"] row_height_ge(2) [of i "assign_columns bs"]
    places_keep(5-7) [OF assms(1)] places_keep(5) [OF assms(2)] assms(1) by (simp add: P_def)

text \<open>C35: The boxes of the graph do not overlap: in one layer the columns differ, follow the addresses,
  and each box ends at least 40 before the next begins; a lower layer begins at least 60 below
  the end of every box of a higher one, whatever the font measures.\<close>

theorem graph_boxes_do_not_overlap:
  assumes "i < length blocks" "j < length blocks" "i \<noteq> j"
  shows "let a = layout fm blocks ! i; b = layout fm blocks ! j in
     (gb_layer a = gb_layer b \<longrightarrow> gb_column a \<noteq> gb_column b \<and>
       (gb_column a < gb_column b \<longrightarrow>
          ab_addr (gb_bb a) \<le> ab_addr (gb_bb b) \<and> gb_x a + gb_width a + kHorizontalSpacing \<le> gb_x b)) \<and>
     (gb_layer a < gb_layer b \<longrightarrow> gb_y a + gb_height a + kVerticalSpacing \<le> gb_y b)"
proof -
  define A where "A = assign_layers (map (size_block fm) blocks)"
  have len: "i < length A" "j < length A" using assms by (simp_all add: A_def)
  have lay: "layout fm blocks = assign_places (assign_columns A)" using assms(1) by (auto simp: layout_def A_def)
  have "\<forall>b \<in> set A. 0 \<le> gb_width b"
    by (auto simp: in_set_conv_nth A_def nth_layout_steps size_block_width)
  with same_layer_apart [OF len assms(3)] layers_apart [OF len] show ?thesis
    by (simp add: Let_def lay places_keep len addr_at_def)
qed

definition diamond :: "graph_block list" where
  "diamond = map (\<lambda>(a, j, f). graph_block_of \<lparr>ab_addr = a, ab_size = 16, ab_jump = j, ab_fail = f\<rparr> [''nop''])
     [(16, 48, 32), (32, 64, 0), (48, 64, 16), (64, 0, 0), (80, 16, 0)]"

definition fixed_font :: font_metrics where
  "fixed_font = \<lparr>fm_advance = (\<lambda>t. 7 * real (length t)), fm_height = 15\<rparr>"

lemma diamond_length: "diamond \<noteq> []" "length diamond = 5"
  by (simp_all add: diamond_def)

lemma diamond_drawn:
  "map gb_layer (layout fixed_font diamond) = [0, 1, 1, 2, 3]"
  "map gb_column (layout fixed_font diamond) = [0, 0, 1, 0, 0]"
  "map gb_x (layout fixed_font diamond) = [-41/2, -61, 20, -41/2, -41/2]"
  by code_simp+

lemma walk_diamond: "walk diamond 2 3" "\<not> walk diamond n 4"
proof -
  have succ: "succ_of diamond 0 = {1, 2}" "succ_of diamond 2 = {0, 3}" "\<forall>i < 5. 4 \<notin> succ_of diamond i"
    by code_simp+
  have "walk diamond (Suc 0) 2" by (rule walk.edge [OF walk.entry]) (simp add: succ)
  then have "walk diamond (Suc (Suc 0)) 3" by (rule walk.edge) (simp add: succ)
  then show "walk diamond 2 3" by (simp add: numeral_2_eq_2)
  show "\<not> walk diamond n 4"
  proof
    assume "walk diamond n 4"
    then show False using succ(3) walk_less [OF _ diamond_length(1)] diamond_length(2) by cases auto
  qed
qed

theorem graph_layers_are_distances_witness:
  "(\<exists>n. walk diamond n 3) \<and> gb_layer (layout fixed_font diamond ! 3) = (LEAST n. walk diamond n 3) \<and>
   (\<nexists>n. walk diamond n 4) \<and> gb_layer (layout fixed_font diamond ! 3) < gb_layer (layout fixed_font diamond ! 4)"
  using graph_layers_are_distances [of diamond 3 fixed_font] graph_layers_are_distances [of diamond 4 fixed_font]
    walk_diamond diamond_length by (auto split: if_splits dest!: spec [of _ 3])

theorem graph_boxes_do_not_overlap_witness:
  "gb_x (layout fixed_font diamond ! 1) + gb_width (layout fixed_font diamond ! 1) + kHorizontalSpacing
     \<le> gb_x (layout fixed_font diamond ! 2) \<and>
   gb_y (layout fixed_font diamond ! 2) + gb_height (layout fixed_font diamond ! 2) + kVerticalSpacing
     \<le> gb_y (layout fixed_font diamond ! 3)"
proof -
  have "gb_layer (layout fixed_font diamond ! i) = [0, 1, 1, 2, 3] ! i" "gb_column (layout fixed_font diamond ! i) = [0, 0, 1, 0, 0] ! i"
    if "i < 5" for i
    using that diamond_drawn(1,2) diamond_length(2) by (metis length_layout nth_map)+
  then show ?thesis
    using graph_boxes_do_not_overlap [of 1 diamond 2 fixed_font] graph_boxes_do_not_overlap [of 2 diamond 3 fixed_font]
      diamond_length(2) by (simp add: Let_def)
qed

section \<open>The mouse\<close>

text \<open>Zooming with the wheel and the control key; \<open>dy\<close> is the vertical part of the turn.\<close>

definition wheelEvent :: "bool \<Rightarrow> int \<Rightarrow> real \<Rightarrow> real" where
  "wheelEvent control_key dy zoom =
     (if control_key then zoom * (if 0 < dy then 115 / 100 else 1 / (115 / 100)) else zoom)"

lemma zoom_there_and_back: "0 < dy \<Longrightarrow> wheelEvent True (- dy) (wheelEvent True dy zoom) = zoom"
  by (simp add: wheelEvent_def)

text \<open>A turn without a vertical part, as a horizontal wheel makes, zooms out.\<close>

lemma sideways_zooms_out: "0 < zoom \<Longrightarrow> wheelEvent True 0 zoom < zoom"
  by (simp add: wheelEvent_def)

text \<open>A double click on a block asks for its address.\<close>

definition mouseDoubleClickEvent :: "bool \<Rightarrow> item \<Rightarrow> u64 option" where
  "mouseDoubleClickEvent left_button it =
     (case it of BlockRect addr is_entry x y w h \<Rightarrow> if left_button then Some addr else None | _ \<Rightarrow> None)"

end
