(* ===== verification/Painting.thy ===== *)
theory Painting
  imports Complex_Main Byte_Overview Asm_Tokenizer Table_View Window_Layout Graph_View
begin

text \<open>
  What the front end paints, as lists of shapes and colours: the palette
  (irida-ui/gui/src/theme/palette.cpp), the two delegates of table cells (gutter_delegate.cpp,
  asm_item_delegate.cpp), the colours of the byte map (byte_map_strip.cpp) and of the graph.

  Fractions are real numbers, so the rounding of \<open>double\<close> is not modelled; the cut to a whole
  number of a colour is.  The width of a text is a parameter.
\<close>

section \<open>The palette\<close>

datatype colour = QColor (red: int) (green: int) (blue: int)

definition background :: colour where "background = QColor 0x1e 0x20 0x24"
definition gridLine :: colour where "gridLine = QColor 0x2c 0x2f 0x35"
definition headerBackground :: colour where "headerBackground = QColor 0x26 0x29 0x2f"
definition headerText :: colour where "headerText = QColor 0x9a 0xa0 0xac"
definition currentIpBackground :: colour where "currentIpBackground = QColor 0x2b 0x3d 0x2b"
definition currentIpMarker :: colour where "currentIpMarker = QColor 0x5c 0xd6 0x5c"
definition breakpointBackground :: colour where "breakpointBackground = QColor 0x3a 0x22 0x22"
definition breakpointDot :: colour where "breakpointDot = QColor 0xe0 0x3c 0x3c"
definition selectionBackground :: colour where "selectionBackground = QColor 0x2f 0x3a 0x4c"
definition rspMarker :: colour where "rspMarker = QColor 0x6f 0xa8 0xe0"
definition defaultText :: colour where "defaultText = QColor 0xd6 0xd9 0xdf"
definition address :: colour where "address = QColor 0x7f 0x88 0x96"
definition mnemonic :: colour where "mnemonic = QColor 0x6f 0xb4 0xe6"
definition registerName :: colour where "registerName = QColor 0xe0 0x9a 0x5a"
definition number :: colour where "number = QColor 0xb9 0x8e 0xe0"
definition punctuation :: colour where "punctuation = QColor 0x8a 0x90 0x9c"
definition memoryBrace :: colour where "memoryBrace = QColor 0x6f 0xc4 0x9a"
definition jumpTarget :: colour where "jumpTarget = QColor 0x9a 0xd0 0x6f"
definition liveValue :: colour where "liveValue = QColor 0x9a 0xd0 0x6f"
definition changedValue :: colour where "changedValue = QColor 0xe6 0x64 0x64"
definition bytesText :: colour where "bytesText = QColor 0x76 0x7c 0x88"
definition graphBackground :: colour where "graphBackground = QColor 0x17 0x18 0x1c"
definition graphBlockBackground :: colour where "graphBlockBackground = QColor 0x24 0x27 0x2d"
definition graphBlockBorder :: colour where "graphBlockBorder = QColor 0x3a 0x3e 0x46"
definition graphEntryBorder :: colour where "graphEntryBorder = QColor 0x6f 0xb4 0xe6"
definition graphEdgeTaken :: colour where "graphEdgeTaken = QColor 0x5c 0xd6 0x5c"
definition graphEdgeFail :: colour where "graphEdgeFail = QColor 0xe0 0x3c 0x3c"
definition graphEdgeUncond :: colour where "graphEdgeUncond = QColor 0x7f 0x88 0x96"
definition overviewMarker :: colour where "overviewMarker = QColor 0xf2 0xf2 0xf2"

definition section_palette :: "colour list" where
  "section_palette =
     [QColor 0x35 0xb8 0xa6,
      QColor 0x4f 0xc4 0x6e,
      QColor 0x4a 0x92 0xdd,
      QColor 0xa9 0x6f 0xd4,
      QColor 0xe8 0xb3 0x3a,
      QColor 0xe8 0x7d 0x3c,
      QColor 0xdc 0x5a 0x52,
      QColor 0x6f 0x9c 0xb0,
      QColor 0xc9 0x6a 0x9e,
      QColor 0x8f 0xb0 0x4a]"

text \<open>C++ \<open>%\<close> has the sign of the dividend, which the formula corrects.\<close>

definition overviewSection :: "int \<Rightarrow> colour" where
  "overviewSection index =
     (let count = int (length section_palette)
      in section_palette ! nat ((index smod count + count) smod count))"

lemma overviewSection_cycles: "overviewSection (int i) = section_palette ! (i mod 10)"
proof -
  have "int i smod 10 = int i mod 10" by (simp add: signed_modulo_int_def sgn_if)
  moreover have "(int i mod 10 + 10) smod 10 = int i mod 10" by (simp add: signed_modulo_int_def sgn_if)
  ultimately show ?thesis by (simp add: overviewSection_def section_palette_def Let_def nat_mod_distrib)
qed

section \<open>Table cells\<close>

datatype shape =
    Ellipse colour "int \<times> int" int int
  | Polygon colour "(real \<times> real) list"
  | DrawnText colour int int qstring

definition gutter_paint :: "(nat \<Rightarrow> bool) \<Rightarrow> (nat \<Rightarrow> bool) \<Rightarrow> nat \<Rightarrow> rect \<Rightarrow> shape list" where
  "gutter_paint isBreakpoint isCurrentIp row r =
     (let cy = snd (center r) in
      (if isBreakpoint row
       then let d = min (rc_h r - 6) 12; cx = rc_x r + 4 + d sdiv 2
            in [Ellipse breakpointDot (cx, cy) (d sdiv 2) (d sdiv 2)]
       else []) @
      (if isCurrentIp row
       then let h = min (rc_h r - 8) 11; w = h; right_edge = rc_right r - 4; left_edge = right_edge - w
            in [Polygon currentIpMarker
                  [(real_of_int left_edge, real_of_int cy - real_of_int h / 2),
                   (real_of_int right_edge, real_of_int cy),
                   (real_of_int left_edge, real_of_int cy + real_of_int h / 2)]]
       else []))"

text \<open>The gutter of a table asks the table.\<close>

definition installGutterDelegate :: "table_view \<Rightarrow> nat \<Rightarrow> rect \<Rightarrow> shape list" where
  "installGutterDelegate tv = gutter_paint (isBreakpointRow tv) (isCurrentIpRow tv)"

definition token_colour :: "token_kind \<Rightarrow> colour" where
  "token_colour k =
     (case k of
        Mnemonic \<Rightarrow> mnemonic | Register \<Rightarrow> registerName | Number \<Rightarrow> number | Brace \<Rightarrow> memoryBrace
      | Punctuation \<Rightarrow> punctuation | Whitespace \<Rightarrow> defaultText | Text \<Rightarrow> defaultText)"

text \<open>\<open>ascent\<close>, \<open>descent\<close> and the width of a text are those of the font.\<close>

record cell_font =
  cf_ascent :: int
  cf_descent :: int
  cf_advance :: "qstring \<Rightarrow> int"

fun paint_tokens :: "cell_font \<Rightarrow> int \<Rightarrow> int \<Rightarrow> int \<Rightarrow> token list \<Rightarrow> shape list" where
  "paint_tokens F right_edge baseY x [] = []"
| "paint_tokens F right_edge baseY x (tok # toks) =
     (let x1 = x + cf_advance F (tk_text tok) in
      DrawnText (token_colour (tk_kind tok)) x baseY (tk_text tok) #
        (if right_edge < x1 then [] else paint_tokens F right_edge baseY x1 toks))"

definition asm_paint :: "qchar_classes \<Rightarrow> cell_font \<Rightarrow> qstring \<Rightarrow> rect \<Rightarrow> shape list" where
  "asm_paint Q F t r =
     (if t = [] then []
      else
        let pad = 4; x = rc_x r + pad;
            baseY = rc_y r + (rc_h r + cf_ascent F - cf_descent F) sdiv 2
        in paint_tokens F (rc_right r) baseY x (tokenize Q t))"

text \<open>The background of a row.\<close>

definition row_colour :: "row_background \<Rightarrow> colour option" where
  "row_colour bg =
     (case bg of
        Transparent \<Rightarrow> None
      | BreakpointBackground \<Rightarrow> Some breakpointBackground
      | CurrentIpBackground \<Rightarrow> Some currentIpBackground)"

text \<open>The pen of an edge of the graph and of the border of a block.\<close>

definition edge_colour :: "edge_kind \<Rightarrow> colour" where
  "edge_colour k = (case k of EdgeTaken \<Rightarrow> graphEdgeTaken | EdgeFail \<Rightarrow> graphEdgeFail | EdgeUncond \<Rightarrow> graphEdgeUncond)"

definition border_colour :: "bool \<Rightarrow> colour" where
  "border_colour isEntry = (if isEntry then graphEntryBorder else graphBlockBorder)"

text \<open>The ink of a glyph in the byte overview.\<close>

definition glyph_colour :: "ink \<Rightarrow> colour" where
  "glyph_colour k = (case k of BytesText \<Rightarrow> bytesText | DefaultText \<Rightarrow> defaultText | AddressText \<Rightarrow> address)"

section \<open>The cells of the byte map\<close>

text \<open>A cast to \<open>int\<close> cuts off the fraction.\<close>

definition to_whole :: "real \<Rightarrow> int" where
  "to_whole x = (if 0 \<le> x then \<lfloor>x\<rfloor> else \<lceil>x\<rceil>)"

definition lerp :: "colour \<Rightarrow> colour \<Rightarrow> real \<Rightarrow> colour" where
  "lerp a b t =
     (let t = max 0 (min 1 t);
          mix = (\<lambda>x y. to_whole (real_of_int x + real_of_int (y - x) * t))
      in QColor (mix (red a) (red b)) (mix (green a) (green b)) (mix (blue a) (blue b)))"

definition byte_hist :: "bytes \<Rightarrow> nat list" where
  "byte_hist bs = map (\<lambda>v. length (filter (\<lambda>b. b = word_of_nat v) bs)) [0..<256]"

definition hist_entropy :: "nat list \<Rightarrow> nat \<Rightarrow> real" where
  "hist_entropy hist n =
     fold (\<lambda>c h. if c = 0 then h else let p = real c / real n in h - p * log 2 p) hist 0 / 8"

definition zeroFraction :: "nat \<Rightarrow> nat \<Rightarrow> real" where
  "zeroFraction zeros n = (if n = 0 then 0 else real zeros / real n)"

definition normalizedEntropy :: "nat list \<Rightarrow> nat \<Rightarrow> real" where
  "normalizedEntropy hist n = (if n \<le> 1 then 0 else hist_entropy hist n)"

definition cold :: colour where "cold = QColor 0x1e 0x30 0x50"
definition mid :: colour where "mid = QColor 0xd0 0xc0 0x40"
definition hot :: colour where "hot = QColor 0xd0 0x40 0x38"

definition heat_colour :: "real \<Rightarrow> colour" where
  "heat_colour e = (if e < 1 / 2 then lerp cold mid (e * 2) else lerp mid hot ((e - 1 / 2) * 2))"

definition cell_rgb :: "cell_colour \<Rightarrow> colour" where
  "cell_rgb k =
     (case k of
        Background \<Rightarrow> background
      | SectionShade idx zeros n \<Rightarrow>
          lerp (case idx of None \<Rightarrow> background | Some i \<Rightarrow> overviewSection (int i)) (QColor 0x12 0x14 0x18)
            (zeroFraction zeros n * (85 / 100))
      | PaddingGray \<Rightarrow> QColor 0x2a 0x2d 0x33
      | TextGreen \<Rightarrow> QColor 0x5f 0xa8 0x6b
      | DenseOrange \<Rightarrow> QColor 0xcc 0x82 0x50
      | CodeBlue \<Rightarrow> QColor 0x54 0x8c 0xc8
      | EntropyHeat hist n \<Rightarrow> heat_colour (normalizedEntropy hist n))"

section \<open>Colours are colours\<close>

definition colour_ok :: "colour \<Rightarrow> bool" where
  "colour_ok c \<longleftrightarrow> red c \<in> {0..255} \<and> green c \<in> {0..255} \<and> blue c \<in> {0..255}"

text \<open>Between two colours, and the ends at the ends.\<close>

lemma whole_between:
  "0 \<le> r \<Longrightarrow> real_of_int a \<le> r \<Longrightarrow> r \<le> real_of_int b \<Longrightarrow> a \<le> to_whole r \<and> to_whole r \<le> b"
  by (simp add: to_whole_def le_floor_iff floor_le_iff)

lemma mix_between:
  fixes x y :: int and t :: real
  assumes "0 \<le> t" "t \<le> 1" "0 \<le> x" "0 \<le> y"
  shows "min x y \<le> to_whole (x + (y - x) * t) \<and> to_whole (x + (y - x) * t) \<le> max x y"
proof -
  have e: "x + (y - x) * t = (1 - t) * x + t * y" by (simp add: algebra_simps)
  have lo: "real_of_int (min x y) \<le> x + (y - x) * t"
  proof -
    have "(1 - t) * real_of_int (min x y) \<le> (1 - t) * x" "t * real_of_int (min x y) \<le> t * y"
      using assms by (intro mult_left_mono; simp)+
    then show ?thesis using e by (simp add: algebra_simps)
  qed
  have hi: "x + (y - x) * t \<le> real_of_int (max x y)"
  proof -
    have "(1 - t) * x \<le> (1 - t) * real_of_int (max x y)" "t * y \<le> t * real_of_int (max x y)"
      using assms by (intro mult_left_mono; simp)+
    then show ?thesis using e by (simp add: algebra_simps)
  qed
  have "0 \<le> x + (y - x) * t" using lo assms(3,4) by (simp add: min_def split: if_splits)
  from whole_between [OF this lo hi] show ?thesis .
qed

lemma lerp_ok: "colour_ok a \<Longrightarrow> colour_ok b \<Longrightarrow> colour_ok (lerp a b t)"
proof -
  assume a: "colour_ok a" and b: "colour_ok b"
  let ?t = "max 0 (min 1 t)"
  have mix: "to_whole (real_of_int x + real_of_int (y - x) * ?t) \<in> {0..255}"
    if "x \<in> {0..255}" "y \<in> {0..255}" for x y :: int
    using mix_between [of ?t x y] that by (auto simp: min_def max_def split: if_splits)
  then show ?thesis using a b by (simp only: colour_ok_def lerp_def Let_def colour.sel)
qed

lemma lerp_ends: "lerp a b 0 = a" "lerp a b 1 = b"
  by (cases a; cases b; simp add: lerp_def to_whole_def Let_def)+

lemma overviewSection_ok: "colour_ok (overviewSection (int i))"
proof -
  have "\<forall>c \<in> set section_palette. colour_ok c" by (simp add: section_palette_def colour_ok_def)
  moreover have "section_palette ! (i mod 10) \<in> set section_palette" by (rule nth_mem) (simp add: section_palette_def)
  ultimately show ?thesis by (simp add: overviewSection_cycles)
qed

lemma cell_rgb_ok: "colour_ok (cell_rgb k)"
proof -
  have c: "colour_ok background" "colour_ok cold" "colour_ok mid" "colour_ok hot" "colour_ok (QColor 0x12 0x14 0x18)"
    by (simp_all add: colour_ok_def background_def cold_def mid_def hot_def)
  then show ?thesis
    by (cases k) (auto simp: cell_rgb_def heat_colour_def overviewSection_ok intro!: lerp_ok split: option.split,
        simp_all add: colour_ok_def)
qed

section \<open>Entropy\<close>

lemma hist_entropy_sum:
  "hist_entropy hist n =
   (\<Sum>i<length hist. if hist ! i = 0 then 0 else - (real (hist ! i) / real n) * log 2 (real (hist ! i) / real n)) / 8"
proof -
  define g where "g c = (if c = 0 then 0 else - (real c / real n) * log 2 (real c / real n))" for c :: nat
  have "fold (\<lambda>c h. if c = 0 then h else let p = real c / real n in h - p * log 2 p) hist h0 = h0 + sum_list (map g hist)" for h0
    by (induction hist arbitrary: h0) (simp_all add: g_def Let_def)
  then show ?thesis by (simp add: hist_entropy_def sum_list_sum_nth g_def atLeast0LessThan)
qed

lemma byte_hist_nth: "v < 256 \<Longrightarrow> byte_hist bs ! v = length (filter (\<lambda>b. b = word_of_nat v) bs)"
  by (simp add: byte_hist_def)

lemma byte_hist_total: "(\<Sum>v<256. byte_hist bs ! v) = length bs"
proof -
  have one: "(\<Sum>v<256. if b = word_of_nat v then 1 else 0 :: nat) = 1" for b :: u8
  proof -
    have "b = word_of_nat v \<longleftrightarrow> v = unat b" if "v < 256" for v
      using that by (auto simp: unat_of_nat take_bit_eq_mod)
    then have "(\<Sum>v<256. if b = word_of_nat v then 1 else 0 :: nat) = (\<Sum>v<256. if v = unat b then 1 else 0)"
      by (intro sum.cong) auto
    also have "\<dots> = 1" using unsigned_less [of b] by (simp add: sum.delta)
    finally show ?thesis .
  qed
  have "(\<Sum>v<256. length (filter (\<lambda>b. b = word_of_nat v) bs)) = length bs"
  proof (induction bs)
    case (Cons b bs)
    have "(\<Sum>v<256. length (filter (\<lambda>x. x = word_of_nat v) (b # bs))) =
        (\<Sum>v<256. (if b = word_of_nat v then 1 else 0) + length (filter (\<lambda>x. x = word_of_nat v) bs))"
      by (intro sum.cong) auto
    then show ?case using Cons one [of b] by (simp add: sum.distrib)
  qed simp
  then show ?thesis by (simp add: byte_hist_nth)
qed

text \<open>What one byte value adds to the sum.\<close>

definition surprise :: "real \<Rightarrow> real" where
  "surprise p = (if p = 0 then 0 else - p * log 2 p)"

lemma surprise_ge: "0 \<le> p \<Longrightarrow> p \<le> 1 \<Longrightarrow> 0 \<le> surprise p"
  by (auto simp: surprise_def mult_nonneg_nonpos zero_le_log_cancel_iff log_le_zero_cancel_iff)

lemma surprise_zero: "0 \<le> p \<Longrightarrow> p \<le> 1 \<Longrightarrow> surprise p = 0 \<longleftrightarrow> p = 0 \<or> p = 1"
  by (auto simp: surprise_def log_def)

lemma surprise_le: "0 \<le> p \<Longrightarrow> surprise p \<le> 8 * p + (1 / 256 - p) / ln 2"
proof (cases "p = 0")
  case False
  assume "0 \<le> p"
  with False have p: "0 < p" by simp
  have "- log 2 p = 8 + log 2 (1 / (256 * p))"
    using p log_pow_cancel [of 2 8] by (simp add: log_divide log_mult)
  also have "log 2 (1 / (256 * p)) \<le> (1 / (256 * p) - 1) / ln 2"
    unfolding log_def using p by (intro divide_right_mono ln_le_minus_one) simp_all
  finally have "p * (- log 2 p) \<le> p * (8 + (1 / (256 * p) - 1) / ln 2)" using p by (intro mult_left_mono) simp_all
  also have "\<dots> = 8 * p + (1 / 256 - p) / ln 2" using p by (simp add: field_simps)
  finally show ?thesis using p by (simp add: surprise_def)
qed (simp add: surprise_def)

lemma entropy_as_surprise:
  assumes "1 < length bs"
  shows "normalizedEntropy (byte_hist bs) (length bs) = (\<Sum>v<256. surprise (byte_hist bs ! v / length bs)) / 8"
    "(\<Sum>v<256. byte_hist bs ! v / length bs) = 1"
    "v < 256 \<Longrightarrow> 0 \<le> byte_hist bs ! v / length bs \<and> byte_hist bs ! v / length bs \<le> 1"
proof -
  have l: "length (byte_hist bs) = 256" by (simp add: byte_hist_def)
  show "normalizedEntropy (byte_hist bs) (length bs) = (\<Sum>v<256. surprise (byte_hist bs ! v / length bs)) / 8"
    using assms unfolding normalizedEntropy_def hist_entropy_sum l by (simp add: surprise_def) (rule sum.cong, auto)
  show "(\<Sum>v<256. byte_hist bs ! v / length bs) = 1"
    using byte_hist_total [of bs] assms by (auto simp flip: sum_divide_distrib of_nat_sum)
  show "0 \<le> byte_hist bs ! v / length bs \<and> byte_hist bs ! v / length bs \<le> 1" if "v < 256"
  proof -
    have "byte_hist bs ! v \<le> length bs" using that by (simp add: byte_hist_nth)
    then show ?thesis using assms by (simp add: divide_le_eq_1)
  qed
qed

lemma one_byte_only:
  assumes "1 < length bs"
  shows "(\<forall>v<256. byte_hist bs ! v = 0 \<or> byte_hist bs ! v = length bs) \<longleftrightarrow> card (set bs) \<le> 1"
proof
  obtain b rest where bs: "bs = b # rest" using assms by (cases bs) auto
  have b: "unat b < 256" "word_of_nat (unat b) = b" using unsigned_less [of b] by simp_all
  {
    assume "\<forall>v<256. byte_hist bs ! v = 0 \<or> byte_hist bs ! v = length bs"
    then have "byte_hist bs ! unat b = length bs" using b byte_hist_nth [OF b(1), of bs] by (auto simp: bs)
    then have "filter (\<lambda>x. x = b) bs = bs" using byte_hist_nth [OF b(1), of bs] b(2)
      by (metis length_filter_less less_irrefl filter_True)
    then have "\<forall>x \<in> set bs. x = b" using filter_id_conv [of "\<lambda>x. x = b" bs] by simp
    then have "set bs \<subseteq> {b}" by auto
    then show "card (set bs) \<le> 1" using card_mono [of "{b}" "set bs"] by simp
  }
  {
    assume "card (set bs) \<le> 1"
    then have "\<forall>x \<in> set bs. x = b" using card_le_Suc0_iff_eq [of "set bs"] by (auto simp: bs)
    then have "filter (\<lambda>x. x = c) bs = (if c = b then bs else [])" for c by (auto simp: filter_id_conv filter_empty_conv split: if_split)
    then show "\<forall>v<256. byte_hist bs ! v = 0 \<or> byte_hist bs ! v = length bs" by (auto simp: byte_hist_nth)
  }
qed

section \<open>What a cell shows\<close>

text \<open>
  The tokens painted are the first ones, each where the one before it ended; what is left out
  begins to the right of the cell.
\<close>

definition token_x :: "cell_font \<Rightarrow> int \<Rightarrow> token list \<Rightarrow> nat \<Rightarrow> int" where
  "token_x F x toks i = x + (\<Sum>tok \<leftarrow> take i toks. cf_advance F (tk_text tok))"

definition token_shape :: "cell_font \<Rightarrow> int \<Rightarrow> int \<Rightarrow> token list \<Rightarrow> nat \<Rightarrow> shape" where
  "token_shape F baseY x toks i =
     DrawnText (token_colour (tk_kind (toks ! i))) (token_x F x toks i) baseY (tk_text (toks ! i))"

lemma paint_tokens_eq:
  "\<exists>k \<le> length toks. paint_tokens F right_edge baseY x toks = map (token_shape F baseY x toks) [0..<k] \<and>
     (k < length toks \<longrightarrow> right_edge < token_x F x toks k)"
proof (induction toks arbitrary: x)
  case (Cons tok toks)
  let ?x1 = "x + cf_advance F (tk_text tok)"
  have first: "token_shape F baseY x (tok # toks) 0 = DrawnText (token_colour (tk_kind tok)) x baseY (tk_text tok)"
    by (simp add: token_shape_def token_x_def)
  have later: "token_shape F baseY x (tok # toks) (Suc i) = token_shape F baseY ?x1 toks i"
    "token_x F x (tok # toks) (Suc i) = token_x F ?x1 toks i" for i
    by (simp_all add: token_shape_def token_x_def)
  show ?case
  proof (cases "right_edge < ?x1")
    case True
    then show ?thesis using first later(2) [of 0] by (intro exI [of _ 1]) (simp add: token_x_def)
  next
    case False
    obtain k where k: "k \<le> length toks" "paint_tokens F right_edge baseY ?x1 toks = map (token_shape F baseY ?x1 toks) [0..<k]"
      "k < length toks \<longrightarrow> right_edge < token_x F ?x1 toks k"
      using Cons.IH by blast
    have "map (token_shape F baseY x (tok # toks)) [0..<Suc k] =
        token_shape F baseY x (tok # toks) 0 # map (token_shape F baseY ?x1 toks) [0..<k]"
      by (simp add: map_upt_Suc later(1) del: upt_Suc)
    with False k first later(2) show ?thesis by (intro exI [of _ "Suc k"]) (simp add: Let_def del: upt_Suc)
  qed
qed simp

text \<open>So a cell wide enough shows the instruction, character for character.\<close>

lemma asm_paint_shows_all:
  assumes "\<forall>i \<le> length (tokenize Q t). token_x F (rc_x r + 4) (tokenize Q t) i \<le> rc_right r"
  shows "concat (map (\<lambda>sh. case sh of DrawnText c x y tx \<Rightarrow> tx | _ \<Rightarrow> []) (asm_paint Q F t r)) = t"
proof (cases "t = []")
  case False
  let ?toks = "tokenize Q t" and ?y = "rc_y r + (rc_h r + cf_ascent F - cf_descent F) sdiv 2"
  obtain k where k: "k \<le> length ?toks" "k < length ?toks \<longrightarrow> rc_right r < token_x F (rc_x r + 4) ?toks k"
    "paint_tokens F (rc_right r) ?y (rc_x r + 4) ?toks = map (token_shape F ?y (rc_x r + 4) ?toks) [0..<k]"
    using paint_tokens_eq [of ?toks F "rc_right r" ?y "rc_x r + 4"] by blast
  from k(1,2) assms have "k = length ?toks" by (metis le_neq_implies_less linorder_not_le)
  have "map (\<lambda>i. tk_text (?toks ! i)) [0..<length ?toks] = map tk_text ?toks" by (rule nth_equalityI) simp_all
  with False k(3) \<open>k = length ?toks\<close>
  have "map (\<lambda>sh. case sh of DrawnText c x y tx \<Rightarrow> tx | _ \<Rightarrow> []) (asm_paint Q F t r) = map tk_text ?toks"
    by (simp add: asm_paint_def Let_def comp_def token_shape_def)
  then show ?thesis using tokens_reproduce_input [of Q t] by simp
qed (simp add: asm_paint_def)

text \<open>
  In the gutter as the table makes it, 26 wide and 18 high, the dot of a breakpoint and the arrow
  of the current instruction overlap: the dot ends at 16, the arrow begins at 11.
\<close>

lemma gutter_marks_overlap:
  "gutter_paint (\<lambda>_. True) (\<lambda>_. True) row \<lparr>rc_x = 0, rc_y = 0, rc_w = 26, rc_h = 18\<rparr> =
     [Ellipse breakpointDot (10, 8) 6 6, Polygon currentIpMarker [(11, 3), (21, 8), (11, 13)]]"
  by (simp add: gutter_paint_def center_def rc_right_def rc_bottom_def signed_divide_int_def Let_def)

section \<open>Properties\<close>

text \<open>C40: The entropy a run of bytes is coloured by lies between 0 and 1, and is 0 exactly for runs of one repeated
  byte; and whatever a cell of the byte map shows, its colour is a colour.\<close>

theorem entropy_is_normalized:
  "0 \<le> normalizedEntropy (byte_hist bs) (length bs) \<and> normalizedEntropy (byte_hist bs) (length bs) \<le> 1 \<and>
   (normalizedEntropy (byte_hist bs) (length bs) = 0 \<longleftrightarrow> card (set bs) \<le> 1) \<and>
   colour_ok (cell_rgb (fst (colorForRun m bs addr s)))"
proof (cases "1 < length bs")
  case False
  then have "card (set bs) \<le> 1" using card_length [of bs] by linarith
  with False show ?thesis by (simp add: normalizedEntropy_def cell_rgb_ok)
next
  case True
  let ?p = "\<lambda>v. byte_hist bs ! v / length bs"
  note e = entropy_as_surprise [OF True]
  have pos: "0 \<le> surprise (?p v)" if "v < 256" for v using e(3) [OF that] by (intro surprise_ge) auto
  have lo: "0 \<le> (\<Sum>v<256. surprise (?p v))" by (intro sum_nonneg) (use pos in auto)
  have "(\<Sum>v<256. surprise (?p v)) \<le> (\<Sum>v<256. 8 * ?p v + (1 / 256 - ?p v) / ln 2)"
    by (intro sum_mono surprise_le) (use e(3) in auto)
  also have "\<dots> = 8 * (\<Sum>v<256. ?p v) + (1 - (\<Sum>v<256. ?p v)) / ln 2"
    by (simp add: sum.distrib sum_subtractf sum_distrib_left diff_divide_distrib flip: sum_divide_distrib)
  also have "\<dots> = 8" using e(2) by simp
  finally have hi: "(\<Sum>v<256. surprise (?p v)) \<le> 8" .
  have "(\<Sum>v<256. surprise (?p v)) = 0 \<longleftrightarrow> (\<forall>v<256. surprise (?p v) = 0)"
    using pos by (subst sum_nonneg_eq_0_iff) auto
  also have "\<dots> \<longleftrightarrow> (\<forall>v<256. byte_hist bs ! v = 0 \<or> byte_hist bs ! v = length bs)"
  proof -
    have "surprise (?p v) = 0 \<longleftrightarrow> byte_hist bs ! v = 0 \<or> byte_hist bs ! v = length bs" if "v < 256" for v
      using surprise_zero [of "?p v"] e(3) [OF that] True by (auto simp: field_simps)
    then show ?thesis by auto
  qed
  also have "\<dots> \<longleftrightarrow> card (set bs) \<le> 1" by (rule one_byte_only [OF True])
  finally have "normalizedEntropy (byte_hist bs) (length bs) = 0 \<longleftrightarrow> card (set bs) \<le> 1"
    unfolding e(1) divide_eq_0_iff by simp
  moreover have "0 \<le> normalizedEntropy (byte_hist bs) (length bs)" "normalizedEntropy (byte_hist bs) (length bs) \<le> 1"
    unfolding e(1) using lo hi by simp_all
  ultimately show ?thesis using cell_rgb_ok by blast
qed

end
