(* ===== verification/Panels.thy ===== *)
theory Panels
  imports Table_View Api Backend_Types
begin

text \<open>
  The panels of irida-ui/gui/src/panels that show a session in a table: what a refresh asks
  the session for and what it writes, and where a double click leads.  A panel is refreshed on
  \<open>stateChanged\<close>.  Colours of single cells are not modelled, except the mark of a changed
  register.  Texts a session answers are never null in the model.
\<close>

unbundle bit_operations_syntax

section \<open>Panels of rows\<close>

record row_panel =
  rp_view :: table_view
  rp_addrs :: "u64 list"

definition row_panel_init :: "nat \<Rightarrow> row_panel" where
  "row_panel_init columns = \<lparr>rp_view = table_view_init columns, rp_addrs = []\<rparr>"

text \<open>The refresh all of them have: one query, one line per row, the addresses kept for clicks.\<close>

definition rows_refresh ::
    "('c handle \<Rightarrow> 'r list \<times> 'c handle) \<Rightarrow> (nat \<Rightarrow> 'r \<Rightarrow> string list) \<Rightarrow> ('r \<Rightarrow> u64) \<Rightarrow>
     'c handle \<Rightarrow> row_panel \<Rightarrow> row_panel \<times> 'c handle" where
  "rows_refresh query cells addr s p =
     (case query s of (rows, s1) \<Rightarrow>
        (p\<lparr>rp_view := show_rows (map (\<lambda>(i, row). cells i row) (enumerate 0 rows)) (rp_view p),
           rp_addrs := map addr rows\<rparr>, s1))"

text \<open>The address a double click on a row navigates to.\<close>

definition onDoubleClicked :: "row_panel \<Rightarrow> int \<Rightarrow> u64 option" where
  "onDoubleClicked p row =
     (if 0 \<le> row \<and> row < int (length (rp_addrs p)) then Some (rp_addrs p ! nat row) else None)"

definition permsString :: "u8 \<Rightarrow> string" where
  "permsString perms =
     [if perms AND IRIDA_PERM_READ \<noteq> 0 then CHR ''r'' else CHR ''-'',
      if perms AND IRIDA_PERM_WRITE \<noteq> 0 then CHR ''w'' else CHR ''-'',
      if perms AND IRIDA_PERM_EXEC \<noteq> 0 then CHR ''x'' else CHR ''-'']"

definition modules_refresh :: "'c handle \<Rightarrow> row_panel \<Rightarrow> row_panel \<times> 'c handle" where
  "modules_refresh = rows_refresh (irida_modules True)
     (\<lambda>_ m. [am_name m, formatAddress (am_base m), size_text (am_size m)]) am_base"

definition backtrace_refresh :: "'c handle \<Rightarrow> row_panel \<Rightarrow> row_panel \<times> 'c handle" where
  "backtrace_refresh = rows_refresh (irida_backtrace True)
     (\<lambda>i f. [dec_digits i, formatAddress (af_pc f), formatAddress (af_frame_ptr f)]) af_pc"

definition threads_refresh :: "'c handle \<Rightarrow> row_panel \<Rightarrow> row_panel \<times> 'c handle" where
  "threads_refresh = rows_refresh (irida_threads True)
     (\<lambda>_ t. [dec_digits (unat (at_tid t)), formatAddress (at_pc t), if at_current t \<noteq> 0 then ''*'' else '''']) at_pc"

definition breakpoints_refresh :: "'c handle \<Rightarrow> row_panel \<Rightarrow> row_panel \<times> 'c handle" where
  "breakpoints_refresh = rows_refresh (irida_breakpoints True)
     (\<lambda>_ b. [if abp_enabled b then ''yes'' else ''no'', formatAddress (abp_address b),
             if abp_type b = BP_HARDWARE then ''hw'' else ''sw'']) abp_address"

definition exports_refresh :: "'c handle \<Rightarrow> row_panel \<Rightarrow> row_panel \<times> 'c handle" where
  "exports_refresh = rows_refresh (irida_exports True)
     (\<lambda>_ e. [ae_name e, formatAddress (ae_addr e), dec_digits (unat (ae_ordinal e))]) ae_addr"

definition imports_refresh :: "'c handle \<Rightarrow> row_panel \<Rightarrow> row_panel \<times> 'c handle" where
  "imports_refresh = rows_refresh (irida_imports True)
     (\<lambda>_ i. [ai_name i, ai_library i, formatAddress (ai_addr i)]) ai_addr"

definition sections_refresh :: "'c handle \<Rightarrow> row_panel \<Rightarrow> row_panel \<times> 'c handle" where
  "sections_refresh = rows_refresh (irida_sections True)
     (\<lambda>_ s. [asec_name s, formatAddress (asec_vaddr s), size_text (asec_vsize s), permsString (asec_perms s)])
     asec_vaddr"

definition strings_refresh :: "'c handle \<Rightarrow> row_panel \<Rightarrow> row_panel \<times> 'c handle" where
  "strings_refresh = rows_refresh (irida_strings True)
     (\<lambda>_ s. [formatAddress (ag_addr s), ag_text s]) ag_addr"

definition symbols_refresh :: "'c handle \<Rightarrow> row_panel \<Rightarrow> row_panel \<times> 'c handle" where
  "symbols_refresh = rows_refresh (irida_symbols True)
     (\<lambda>_ y. [ay_name y, formatAddress (ay_addr y), ay_kind y]) ay_addr"

definition memory_map_refresh :: "'c handle \<Rightarrow> row_panel \<Rightarrow> row_panel \<times> 'c handle" where
  "memory_map_refresh = rows_refresh (irida_maps True)
     (\<lambda>_ m. [formatAddress (amm_start m), formatAddress (amm_end m), size_text (amm_end m - amm_start m),
             permsString (amm_perms m), amm_name m]) amm_start"

definition functions_refresh :: "'c handle \<Rightarrow> row_panel \<Rightarrow> row_panel \<times> 'c handle" where
  "functions_refresh = rows_refresh (irida_functions True)
     (\<lambda>_ f. [afn_name f, formatAddress (afn_addr f), size_text (afn_size f), dec_digits (afn_block_count f)]) afn_addr"

definition xref_type :: "int \<Rightarrow> string" where
  "xref_type k = (if k = 0 then ''Call'' else if k = 1 then ''Jump'' else if k = 2 then ''Data'' else ''?'')"

record xrefs_panel =
  xp_rows :: row_panel
  xp_target :: u64

definition xrefs_refresh :: "'c handle \<Rightarrow> xrefs_panel \<Rightarrow> xrefs_panel \<times> 'c handle" where
  "xrefs_refresh s p =
     (case rows_refresh (irida_xrefs_to (xp_target p) True)
        (\<lambda>_ x. [formatAddress (ax_from x), formatAddress (ax_to x), xref_type (ax_kind x)]) ax_from s (xp_rows p) of
        (rows, s1) \<Rightarrow> (p\<lparr>xp_rows := rows\<rparr>, s1))"

definition setTarget :: "u64 \<Rightarrow> 'c handle \<Rightarrow> xrefs_panel \<Rightarrow> xrefs_panel \<times> 'c handle" where
  "setTarget addr s p = xrefs_refresh s (p\<lparr>xp_target := addr\<rparr>)"

section \<open>The registers\<close>

record registers_panel =
  gp_view :: table_view
  gp_prev_values :: "u64 list"
  gp_changed :: "bool list"
  gp_hint_hidden :: bool

text \<open>\<open>gp_changed\<close>: which values are painted as changed.\<close>

definition registers_refresh :: "bool \<Rightarrow> 'c handle \<Rightarrow> registers_panel \<Rightarrow> registers_panel \<times> 'c handle" where
  "registers_refresh live s p =
     (case irida_registers True s of (regs, s1) \<Rightarrow>
        let have_prev = (length (gp_prev_values p) = length regs) in
        (\<lparr>gp_view = show_rows (map (\<lambda>r. [ar_name r, formatAddress (ar_value r),
              case ar_hint r of None \<Rightarrow> '''' | Some h \<Rightarrow> h]) regs) (gp_view p),
          gp_prev_values = map ar_value regs,
          gp_changed = map (\<lambda>(i, r). have_prev \<and> gp_prev_values p ! i \<noteq> ar_value r) (enumerate 0 regs),
          gp_hint_hidden = (\<not> live)\<rparr>, s1))"

section \<open>Disassembly\<close>

record dis_panel =
  dp_view :: table_view
  dp_row_addrs :: "u64 list"
  dp_base :: u64
  dp_live_hidden :: bool

definition dis_panel_init :: dis_panel where
  "dis_panel_init = \<lparr>dp_view = table_view_init 4, dp_row_addrs = [], dp_base = 0, dp_live_hidden = True\<rparr>"

definition dis_cells :: "insn_row \<Rightarrow> string list" where
  "dis_cells r =
     [formatAddress (ir_address r), ir_bytes r, ir_text r,
      case ir_annotation r of None \<Rightarrow> '''' | Some a \<Rightarrow> a]"

definition breakpoint_at :: "api_breakpoint list \<Rightarrow> u64 \<Rightarrow> bool" where
  "breakpoint_at bps addr = list_ex (\<lambda>b. abp_address b = addr) bps"

text \<open>The loop that looks for the program counter: the last row wins, \<open>-1\<close> when there is none.\<close>

definition ip_row_of :: "u64 list \<Rightarrow> u64 \<Rightarrow> int" where
  "ip_row_of addrs pc = fold (\<lambda>(i, a) ip_row. if a = pc then int i else ip_row) (enumerate 0 addrs) (- 1)"

definition dis_refresh :: "bool \<Rightarrow> 'c handle \<Rightarrow> dis_panel \<Rightarrow> dis_panel \<times> 'c handle" where
  "dis_refresh live s p =
     (case (if dp_base p \<noteq> 0 then (dp_base p, s) else irida_pc s) of (at, s1) \<Rightarrow>
      case irida_disasm at 256 True s1 of (rows, s2) \<Rightarrow>
      case irida_breakpoints True s2 of (bps, s3) \<Rightarrow>
      case irida_pc s3 of (pc, s4) \<Rightarrow>
        let addrs = map ir_address rows;
            v1 = show_rows (map dis_cells rows) (dp_view p);
            v2 = mark_rows (map (breakpoint_at bps) addrs) v1;
            v3 = setCurrentIpRow (ip_row_of addrs pc) v2
        in (p\<lparr>dp_view := v3, dp_row_addrs := addrs, dp_live_hidden := (\<not> live)\<rparr>, s4))"

definition dis_setBase :: "u64 \<Rightarrow> bool \<Rightarrow> 'c handle \<Rightarrow> dis_panel \<Rightarrow> dis_panel \<times> 'c handle" where
  "dis_setBase addr live s p = dis_refresh live s (p\<lparr>dp_base := addr\<rparr>)"

text \<open>The address whose breakpoint a click on a cell toggles: only the gutter does.\<close>

definition onCellClicked :: "dis_panel \<Rightarrow> int \<Rightarrow> int \<Rightarrow> u64 option" where
  "onCellClicked p row col =
     (if col \<noteq> 0 then None
      else if 0 \<le> row \<and> row < int (length (dp_row_addrs p)) then Some (dp_row_addrs p ! nat row)
      else None)"

section \<open>Memory and stack\<close>

definition kBytesPerRow :: nat where "kBytesPerRow = 16"
definition kRows :: nat where "kRows = 8"
definition kWindow :: nat where "kWindow = kBytesPerRow * kRows"

record memory_panel =
  mp_view :: table_view
  mp_base :: u64

definition mem_setBase :: "u64 \<Rightarrow> memory_panel \<Rightarrow> memory_panel" where
  "mem_setBase addr p = p\<lparr>mp_base := addr\<rparr>"

text \<open>Two characters and a blank per byte; the trailing blank is trimmed.\<close>

definition hex_cell :: "bytes \<Rightarrow> nat \<Rightarrow> string" where
  "hex_cell buf r =
     butlast (concat (map (\<lambda>b. let idx = r * kBytesPerRow + b in
       if idx < length buf then fmt_02x (buf ! idx) @ '' '' else ''?? '') [0..<kBytesPerRow]))"

definition ascii_cell :: "bytes \<Rightarrow> nat \<Rightarrow> string" where
  "ascii_cell buf r =
     map (\<lambda>b. let idx = r * kBytesPerRow + b in
       if idx < length buf then
         (let v = buf ! idx in if 0x20 \<le> v \<and> v < 0x7f then char_of_byte v else CHR ''.'')
       else CHR '' '') [0..<kBytesPerRow]"

definition memory_refresh :: "'c handle \<Rightarrow> memory_panel \<Rightarrow> memory_panel \<times> 'c handle" where
  "memory_refresh s p =
     (case irida_read_memory (mp_base p) (word_of_nat kWindow) True s of (buf, s1) \<Rightarrow>
        (p\<lparr>mp_view := show_rows (map (\<lambda>r.
            [formatAddress (mp_base p + word_of_nat r * word_of_nat kBytesPerRow), hex_cell buf r, ascii_cell buf r])
          [0..<kRows]) (mp_view p)\<rparr>, s1))"

definition kSlots :: nat where "kSlots = 12"

definition rsp_of :: "api_register list \<Rightarrow> u64" where
  "rsp_of regs = fold (\<lambda>r rsp. if ar_name r = ''rsp'' then ar_value r else rsp) regs 0"

text \<open>The twelve reads of eight bytes, lowest slot first; a short read shows 0.\<close>

fun stack_rows :: "u64 \<Rightarrow> nat list \<Rightarrow> 'c handle \<Rightarrow> string list list \<times> 'c handle" where
  "stack_rows rsp [] s = ([], s)"
| "stack_rows rsp (i # is) s =
     (let addr = rsp + word_of_nat i * 8 in
      case irida_read_memory addr 8 True s of (buf, s1) \<Rightarrow>
        let val = (if length buf = 8 then u64_of_bytes buf else 0) in
        case stack_rows rsp is s1 of (rows, s2) \<Rightarrow> ([formatAddress addr, formatAddress val, ''''] # rows, s2))"

definition stack_refresh :: "'c handle \<Rightarrow> table_view \<Rightarrow> table_view \<times> 'c handle" where
  "stack_refresh s tv =
     (case irida_registers True s of (regs, s1) \<Rightarrow>
      case stack_rows (rsp_of regs) [0..<kSlots] s1 of (rows, s2) \<Rightarrow> (show_rows rows tv, s2))"

section \<open>The console\<close>

definition kMaximumBlockCount :: nat where "kMaximumBlockCount = 5000"

text \<open>The text widget keeps its newest lines only.\<close>

definition appendLine :: "string \<Rightarrow> string list \<Rightarrow> string list" where
  "appendLine t output = (let new = output @ [t] in drop (length new - kMaximumBlockCount) new)"

definition stop_line :: "u64 \<Rightarrow> u64 \<Rightarrow> string" where
  "stop_line pc epoch =
     ''stopped @ '' @ (''0x'' @ hex_digits (unat pc)) @ '' (epoch '' @ dec_digits (unat epoch) @ '')''"

definition console_refresh :: "'c handle \<Rightarrow> string list \<Rightarrow> string list \<times> 'c handle" where
  "console_refresh s output =
     (case irida_pc s of (pc, s1) \<Rightarrow>
      case irida_state_epoch s1 of (epoch, s2) \<Rightarrow> (appendLine (stop_line pc epoch) output, s2))"

section \<open>The disassembly panel and its marks\<close>

lemma ip_row_of_snoc: "ip_row_of (as @ [a]) pc = (if a = pc then int (length as) else ip_row_of as pc)"
  by (simp add: ip_row_of_def enumerate_append_eq)

lemma ip_row_of_cases:
  "(ip_row_of as pc = - 1 \<and> pc \<notin> set as) \<or>
   (\<exists>i < length as. ip_row_of as pc = int i \<and> as ! i = pc \<and> pc \<notin> set (drop (Suc i) as))"
proof (induction as rule: rev_induct)
  case Nil
  then show ?case by (simp add: ip_row_of_def)
next
  case (snoc a as)
  show ?case
  proof (cases "a = pc")
    case True
    then show ?thesis by (intro disjI2 exI [of _ "length as"]) (simp add: ip_row_of_snoc)
  next
    case False
    then consider "ip_row_of as pc = - 1" "pc \<notin> set as"
      | i where "i < length as" "ip_row_of as pc = int i" "as ! i = pc" "pc \<notin> set (drop (Suc i) as)"
      using snoc.IH by blast
    then show ?thesis
    proof cases
      case 1
      with False show ?thesis by (auto simp: ip_row_of_snoc)
    next
      case (2 i)
      with False show ?thesis by (intro disjI2 exI [of _ i]) (auto simp: ip_row_of_snoc nth_append)
    qed
  qed
qed

lemma dis_cells_columns: "\<forall>row \<in> set (map dis_cells rows). length row = 4"
  by (auto simp: dis_cells_def)

text \<open>The session states a refresh of the disassembly passes through, and its answers.\<close>

lemma dis_refresh_eq:
  assumes "table_ok (dp_view p)" "tv_columns (dp_view p) = 4"
    "(if dp_base p \<noteq> 0 then (dp_base p, s) else irida_pc s) = (at, s1)" "irida_disasm at 256 True s1 = (rows, s2)"
    "irida_breakpoints True s2 = (bps, s3)" "irida_pc s3 = (pc, s4)" "dis_refresh live s p = (p1, s5)"
  shows "s5 = s4" "painted (dp_view p1)" "tv_cells (dp_view p1) = map dis_cells rows"
    "tv_columns (dp_view p1) = 4" "dp_row_addrs p1 = map ir_address rows" "dp_base p1 = dp_base p"
    "tv_current_ip (dp_view p1) = ip_row_of (dp_row_addrs p1) pc" "dp_live_hidden p1 \<longleftrightarrow> \<not> live"
    "row < length rows \<Longrightarrow>
      isBreakpointRow (dp_view p1) row \<longleftrightarrow> breakpoint_at bps (dp_row_addrs p1 ! row)"
proof -
  let ?v1 = "show_rows (map dis_cells rows) (dp_view p)"
  let ?flags = "map (breakpoint_at bps) (map ir_address rows)"
  have cols: "\<forall>row \<in> set (map dis_cells rows). length row = tv_columns (dp_view p)"
    using dis_cells_columns [of rows] assms(2) by simp
  note v1 = show_rows_simps [OF assms(1) cols]
  have "length ?flags = rowCount ?v1" using v1(5) by simp
  note v2 = mark_rows_facts [OF v1(2) this]
  note v3 = setCurrentIpRow_painted [OF v2(1)]
  have p1: "s5 = s4" "p1 = p\<lparr>dp_view := setCurrentIpRow (ip_row_of (map ir_address rows) pc) (mark_rows ?flags ?v1),
      dp_row_addrs := map ir_address rows, dp_live_hidden := (\<not> live)\<rparr>"
    using assms(3-7) by (simp_all add: dis_refresh_def Let_def)
  show "s5 = s4" by (rule p1(1))
  show "painted (dp_view p1)" "tv_cells (dp_view p1) = map dis_cells rows"
    "tv_columns (dp_view p1) = 4" "dp_row_addrs p1 = map ir_address rows" "dp_base p1 = dp_base p"
    "tv_current_ip (dp_view p1) = ip_row_of (dp_row_addrs p1) pc" "dp_live_hidden p1 \<longleftrightarrow> \<not> live"
    unfolding p1(2) using v1 v2 v3 assms(2) by simp_all
  show "row < length rows \<Longrightarrow> isBreakpointRow (dp_view p1) row \<longleftrightarrow> breakpoint_at bps (dp_row_addrs p1 ! row)"
    unfolding p1(2) using v1(5) v2(5) v3(5) by simp
qed

end
