(* ===== verification/Code_View.thy ===== *)
theory Code_View
  imports Panels Graph_View Byte_Overview
begin

text \<open>
  irida-ui/gui/src/layouts/disassembly_view.cpp: the code view, a stack of four forms of the same
  session (bytes, hexadecimal, graph, linear), of which one is shown.  All four follow the
  session; choosing a form reloads it.  The font and the size of the viewport are kept with the
  view; menus and buttons are left out but for whether the representation button shows.
\<close>

datatype view = ViewBytes | ViewHex | ViewGraph | ViewLinear

record code_view =
  cv_linear :: dis_panel
  cv_graph :: graph_view
  cv_hex :: memory_panel
  cv_bytes :: byte_overview
  cv_view :: view
  cv_repr_visible :: bool
  cv_font :: font_metrics
  cv_port :: viewport

text \<open>\<open>cellW\<close>, \<open>cellH\<close> and \<open>gutterW\<close> are measured by the constructor of the byte form.\<close>

definition code_view_init :: "font_metrics \<Rightarrow> viewport \<Rightarrow> int \<Rightarrow> int \<Rightarrow> int \<Rightarrow> code_view" where
  "code_view_init fm vp cellW cellH gutterW =
     \<lparr>cv_linear = dis_panel_init, cv_graph = \<lparr>gv_current_fn = 0, gv_scene = []\<rparr>,
      cv_hex = \<lparr>mp_view = table_view_init 3, mp_base = 0\<rparr>,
      cv_bytes = \<lparr>bo_start = 0, bo_end = 0, bo_top = 0, bo_cellW = cellW, bo_cellH = cellH, bo_gutterW = gutterW,
        bo_range = (0, 0), bo_page = 0, bo_set_value = None\<rparr>,
      cv_view = ViewLinear, cv_repr_visible = True, cv_font = fm, cv_port = vp\<rparr>"

definition updateReprVisibility :: "code_view \<Rightarrow> code_view" where
  "updateReprVisibility cv = cv\<lparr>cv_repr_visible := (cv_view cv = ViewGraph \<or> cv_view cv = ViewLinear)\<rparr>"

definition selectView :: "view \<Rightarrow> bool \<Rightarrow> 'c handle \<Rightarrow> code_view \<Rightarrow> code_view \<times> 'c handle" where
  "selectView v live s cv =
     (let cv = cv\<lparr>cv_view := v\<rparr> in
      case (case v of
              ViewBytes \<Rightarrow> (case overview_refresh (cv_port cv) s (cv_bytes cv) of (b, s1) \<Rightarrow> (cv\<lparr>cv_bytes := b\<rparr>, s1))
            | ViewHex \<Rightarrow> (case memory_refresh s (cv_hex cv) of (h, s1) \<Rightarrow> (cv\<lparr>cv_hex := h\<rparr>, s1))
            | ViewGraph \<Rightarrow> (case graph_refresh (cv_font cv) s (cv_graph cv) of (g, s1) \<Rightarrow> (cv\<lparr>cv_graph := g\<rparr>, s1))
            | ViewLinear \<Rightarrow> (case dis_refresh live s (cv_linear cv) of (l, s1) \<Rightarrow> (cv\<lparr>cv_linear := l\<rparr>, s1)))
      of (cv1, s1) \<Rightarrow> (updateReprVisibility cv1, s1))"

text \<open>The four forms on \<open>stateChanged\<close> and \<open>navigationRequested\<close>, in the order they are built.\<close>

definition code_view_reload :: "bool \<Rightarrow> 'c handle \<Rightarrow> code_view \<Rightarrow> code_view \<times> 'c handle" where
  "code_view_reload live s cv =
     (case dis_refresh live s (cv_linear cv) of (l, s1) \<Rightarrow>
      case graph_refresh (cv_font cv) s1 (cv_graph cv) of (g, s2) \<Rightarrow>
      case memory_refresh s2 (cv_hex cv) of (h, s3) \<Rightarrow>
      case overview_refresh (cv_port cv) s3 (cv_bytes cv) of (b, s4) \<Rightarrow>
        (cv\<lparr>cv_linear := l, cv_graph := g, cv_hex := h, cv_bytes := b\<rparr>, s4))"

definition code_view_navigate :: "u64 \<Rightarrow> bool \<Rightarrow> 'c handle \<Rightarrow> code_view \<Rightarrow> code_view \<times> 'c handle" where
  "code_view_navigate addr live s cv =
     (case dis_setBase addr live s (cv_linear cv) of (l, s1) \<Rightarrow>
      case onNavigation (cv_font cv) addr s1 (cv_graph cv) of (g, s2) \<Rightarrow>
        (cv\<lparr>cv_linear := l, cv_graph := g, cv_bytes := overview_setBase (cv_port cv) addr (cv_bytes cv)\<rparr>, s2))"

text \<open>
  Nothing ever moves the hexadecimal form: it shows the memory at address 0 whatever is opened,
  navigated to or selected.
\<close>

lemma hex_form_stays:
  "mp_base (cv_hex (fst (selectView v live s cv))) = mp_base (cv_hex cv)"
  "mp_base (cv_hex (fst (code_view_reload live s cv))) = mp_base (cv_hex cv)"
  "mp_base (cv_hex (fst (code_view_navigate addr live s cv))) = mp_base (cv_hex cv)"
  by (simp_all add: selectView_def code_view_reload_def code_view_navigate_def memory_refresh_def
      updateReprVisibility_def case_prod_beta Let_def split: view.split)

end
