(* ===== verification/Mock_Backend.thy ===== *)
theory Mock_Backend
  imports Api
begin

text \<open>
  irida-ui/mock/src/mock_backend.cpp: the canned session the front end is developed against.
  Its state is one process-wide object, which here is the context of the session; the scratch
  vectors behind borrowed arrays have no counterpart, as in the other sessions.  Creating a
  session starts from whatever the object holds and resets only a part of it.
\<close>

record mock_insn =
  mi_address :: u64
  mi_length :: u32
  mi_bytes :: string
  mi_text :: string
  mi_annotation :: "string option"
  mi_is_call :: bool

definition quoted :: "string \<Rightarrow> string" where
  "quoted t = [CHR 0x22] @ t @ [CHR 0x22]"

definition in_directory :: "string \<Rightarrow> string \<Rightarrow> string" where
  "in_directory d f = d @ [CHR 0x5C] @ f"

definition kStream :: "mock_insn list" where
  "kStream =
     [\<lparr>mi_address = 0x00007FF751FA2440, mi_length = 4, mi_bytes = ''48 8B 48 08'',
       mi_text = ''mov rcx, [rax+8]'',
       mi_annotation = Some (quoted (in_directory (in_directory (in_directory ''C:'' ''Windows'') ''System32'')
         ''ntdll.dll'')),
       mi_is_call = False\<rparr>,
      \<lparr>mi_address = 0x00007FF751FA2444, mi_length = 7, mi_bytes = ''48 8D 15 1C 2F 00 00'',
       mi_text = ''lea rdx, [rip+0x2f1c]'', mi_annotation = Some ''kernel32.dll+0x1a20 (CreateFileW)'',
       mi_is_call = False\<rparr>,
      \<lparr>mi_address = 0x00007FF751FA244B, mi_length = 2, mi_bytes = ''31 C0'', mi_text = ''xor eax, eax'',
       mi_annotation = None, mi_is_call = False\<rparr>,
      \<lparr>mi_address = 0x00007FF751FA244D, mi_length = 2, mi_bytes = ''FF D2'', mi_text = ''call rdx'',
       mi_annotation = None, mi_is_call = True\<rparr>,
      \<lparr>mi_address = 0x00007FF751FA244F, mi_length = 5, mi_bytes = ''E8 AC 00 00 00'',
       mi_text = ''call 0x7ff751fa2500'', mi_annotation = None, mi_is_call = True\<rparr>,
      \<lparr>mi_address = 0x00007FF751FA2454, mi_length = 3, mi_bytes = ''48 83 C4 28'', mi_text = ''add rsp, 0x28'',
       mi_annotation = None, mi_is_call = False\<rparr>,
      \<lparr>mi_address = 0x00007FF751FA2457, mi_length = 2, mi_bytes = ''75 07'', mi_text = ''jne 0x7ff751fa2460'',
       mi_annotation = None, mi_is_call = False\<rparr>,
      \<lparr>mi_address = 0x00007FF751FA2459, mi_length = 1, mi_bytes = ''C3'', mi_text = ''ret'',
       mi_annotation = None, mi_is_call = False\<rparr>]"

definition kStreamLen :: nat where "kStreamLen = length kStream"

text \<open>The enumeration \<open>Reg\<close>: indices into the register file.\<close>

definition RAX :: nat where "RAX = 0"
definition RCX :: nat where "RCX = 2"
definition RBP :: nat where "RBP = 5"
definition mock_reg_names :: "string list" where
  "mock_reg_names = [''rax'', ''rbx'', ''rcx'', ''rdx'', ''rsp'', ''rbp'', ''rsi'', ''rdi'', ''r8'', ''r9'', ''r15'']"

record mock_state =
  mk_pc :: u64
  mk_epoch :: u64
  mk_run_state :: run_state
  mk_ip_index :: nat
  mk_regs :: "u64 list"
  mk_bps :: "api_breakpoint list"
  mk_mem :: bytes

definition reset_regs :: "u64 list" where
  "reset_regs = [0x00007ff6abcd0000, 0, 0x10, 0, 0x000000000014fe00, 0x000000000014ff00, 0, 0, 0, 0, 0]"

definition stream_address :: "nat \<Rightarrow> u64" where
  "stream_address i = mi_address (kStream ! i)"

definition planted_mem :: bytes where
  "planted_mem =
     (let mem = map (\<lambda>i. word_of_nat (i * 7 + 0x41) AND 0xFF) [0..<0x400];
          planted = map byte_of_char ''ntdll.dll''
      in take 0x20 mem @ planted @ drop (0x20 + length planted) mem)"

definition mock_state_init :: mock_state where
  "mock_state_init =
     \<lparr>mk_pc = stream_address 0, mk_epoch = 1, mk_run_state = STOPPED, mk_ip_index = 0,
      mk_regs = reset_regs, mk_bps = [], mk_mem = planted_mem\<rparr>"

fun index_at :: "u64 \<Rightarrow> nat \<Rightarrow> mock_insn list \<Rightarrow> nat option" where
  "index_at a i [] = None"
| "index_at a i (insn # insns) = (if mi_address insn = a then Some i else index_at a (Suc i) insns)"

definition find_index :: "mock_state \<Rightarrow> mock_state" where
  "find_index s = (case index_at (mk_pc s) 0 kStream of None \<Rightarrow> s | Some i \<Rightarrow> s\<lparr>mk_ip_index := i\<rparr>)"

definition add_reg :: "nat \<Rightarrow> u64 \<Rightarrow> mock_state \<Rightarrow> mock_state" where
  "add_reg r n s = s\<lparr>mk_regs := (mk_regs s)[r := mk_regs s ! r + n]\<rparr>"

definition bump :: "mock_state \<Rightarrow> mock_state" where
  "bump s = s\<lparr>mk_epoch := mk_epoch s + 1\<rparr>"

definition advance_one :: "mock_state \<Rightarrow> mock_state" where
  "advance_one s0 =
     (let s = add_reg RCX 1 (add_reg RAX 0x10 (find_index s0)) in
      bump (if mk_ip_index s + 1 < kStreamLen then s\<lparr>mk_pc := stream_address (mk_ip_index s + 1)\<rparr> else s))"

section \<open>The entry points\<close>

definition mock_registers :: "mock_state \<Rightarrow> api_register list \<times> mock_state" where
  "mock_registers s =
     ((map (\<lambda>(nm, v). \<lparr>ar_name = nm, ar_value = v, ar_hint = None\<rparr>) (zip mock_reg_names (mk_regs s)))
        [RAX := \<lparr>ar_name = mock_reg_names ! RAX, ar_value = mk_regs s ! RAX,
                 ar_hint = Some ''-> module base (ntdll.dll)''\<rparr>], s)"

definition mock_modules :: "mock_state \<Rightarrow> api_module list \<times> mock_state" where
  "mock_modules s =
     ([\<lparr>am_name = ''ntdll.dll'', am_base = 0x00007ff6abcd0000, am_size = 0x1f0000\<rparr>,
       \<lparr>am_name = ''kernel32.dll'', am_base = 0x00007ff6aa000000, am_size = 0x0d0000\<rparr>], s)"

definition mock_maps :: "mock_state \<Rightarrow> api_map list \<times> mock_state" where
  "mock_maps s =
     ([\<lparr>amm_start = 0x00007ff6abcd0000, amm_end = 0x00007ff6abec0000, amm_perms = 0x5, amm_name = ''ntdll.dll''\<rparr>,
       \<lparr>amm_start = 0x00007ff6aa000000, amm_end = 0x00007ff6aa0d0000, amm_perms = 0x5, amm_name = ''kernel32.dll''\<rparr>,
       \<lparr>amm_start = 0x000000000014f000, amm_end = 0x0000000000150000, amm_perms = 0x6, amm_name = ''''\<rparr>], s)"

definition mock_threads :: "mock_state \<Rightarrow> api_thread list \<times> mock_state" where
  "mock_threads s =
     ([\<lparr>at_tid = 1001, at_pc = stream_address 0, at_current = 1\<rparr>,
       \<lparr>at_tid = 1002, at_pc = 0, at_current = 0\<rparr>], s)"

definition mock_row :: "mock_insn \<Rightarrow> insn_row" where
  "mock_row insn =
     \<lparr>ir_address = mi_address insn, ir_text = mi_text insn, ir_annotation = mi_annotation insn,
      ir_bytes = mi_bytes insn\<rparr>"

definition mock_disasm :: "u64 \<Rightarrow> u64 \<Rightarrow> mock_state \<Rightarrow> insn_row list \<times> mock_state" where
  "mock_disasm addr n s =
     (let start = (case index_at addr 0 kStream of None \<Rightarrow> kStreamLen | Some i \<Rightarrow> i) in
      (map mock_row (take (unat n) (drop start kStream)), s))"

definition mock_run_state :: "mock_state \<Rightarrow> run_state \<times> mock_state" where
  "mock_run_state s = (mk_run_state s, s)"

definition mock_pc :: "mock_state \<Rightarrow> u64 \<times> mock_state" where
  "mock_pc s = (mk_pc s, s)"

definition mock_epoch :: "mock_state \<Rightarrow> u64 \<times> mock_state" where
  "mock_epoch s = (mk_epoch s, s)"

definition mock_step_into :: "mock_state \<Rightarrow> mock_state" where
  "mock_step_into s = advance_one s"

definition mock_step_over :: "mock_state \<Rightarrow> mock_state" where
  "mock_step_over s0 =
     (let s = find_index s0 in
      if mi_is_call (kStream ! mk_ip_index s) \<and> mk_ip_index s + 1 < kStreamLen
      then bump (add_reg RAX 0x10 (s\<lparr>mk_pc := stream_address (mk_ip_index s + 1)\<rparr>))
      else advance_one s)"

definition mock_step_out :: "mock_state \<Rightarrow> mock_state" where
  "mock_step_out s = bump (s\<lparr>mk_pc := stream_address (kStreamLen - 1)\<rparr>)"

definition UINT64_MAX :: u64 where "UINT64_MAX = - 1"

definition nearer_bp :: "u64 \<Rightarrow> api_breakpoint \<Rightarrow> u64 \<Rightarrow> u64" where
  "nearer_bp pc b best = (if abp_enabled b \<and> pc < abp_address b \<and> abp_address b < best then abp_address b else best)"

definition mock_cont :: "mock_state \<Rightarrow> mock_state" where
  "mock_cont s =
     (let best = fold (nearer_bp (mk_pc s)) (mk_bps s) UINT64_MAX;
          tgt = (if best \<noteq> UINT64_MAX then best else stream_address (kStreamLen - 1))
      in bump (s\<lparr>mk_pc := tgt\<rparr>))"

definition mock_brk :: "mock_state \<Rightarrow> mock_state" where
  "mock_brk s = bump (s\<lparr>mk_run_state := STOPPED\<rparr>)"

definition mock_restart :: "mock_state \<Rightarrow> mock_state" where
  "mock_restart s = bump (s\<lparr>mk_pc := stream_address 0, mk_regs := reset_regs, mk_run_state := STOPPED\<rparr>)"

definition mock_stop :: "mock_state \<Rightarrow> mock_state" where
  "mock_stop s = bump (s\<lparr>mk_pc := stream_address 0, mk_regs := reset_regs, mk_run_state := STOPPED\<rparr>)"

definition mock_read_memory :: "u64 \<Rightarrow> u64 \<Rightarrow> mock_state \<Rightarrow> bytes \<times> mock_state" where
  "mock_read_memory addr len s =
     (map (\<lambda>i. mk_mem s ! (unat (addr + word_of_nat i) mod length (mk_mem s))) [0..<unat len], s)"

definition mock_breakpoints :: "mock_state \<Rightarrow> api_breakpoint list \<times> mock_state" where
  "mock_breakpoints s = (mk_bps s, s)"

fun toggle_bp :: "u64 \<Rightarrow> api_breakpoint list \<Rightarrow> api_breakpoint list" where
  "toggle_bp a [] = [\<lparr>abp_address = a, abp_enabled = True, abp_type = BP_SOFTWARE\<rparr>]"
| "toggle_bp a (b # bs) = (if abp_address b = a then bs else b # toggle_bp a bs)"

definition mock_bp_toggle :: "u64 \<Rightarrow> mock_state \<Rightarrow> mock_state" where
  "mock_bp_toggle addr s = s\<lparr>mk_bps := toggle_bp addr (mk_bps s)\<rparr>"

definition mock_bp_set_enabled :: "u64 \<Rightarrow> bool \<Rightarrow> mock_state \<Rightarrow> mock_state" where
  "mock_bp_set_enabled addr enabled s =
     s\<lparr>mk_bps := map (\<lambda>b. if abp_address b = addr then b\<lparr>abp_enabled := enabled\<rparr> else b) (mk_bps s)\<rparr>"

definition mock_backtrace :: "mock_state \<Rightarrow> api_frame list \<times> mock_state" where
  "mock_backtrace s =
     ([\<lparr>af_pc = mk_pc s, af_frame_ptr = mk_regs s ! RBP\<rparr>,
       \<lparr>af_pc = stream_address (kStreamLen - 2), af_frame_ptr = mk_regs s ! RBP + 0x30\<rparr>,
       \<lparr>af_pc = 0x00007FF6AA012000, af_frame_ptr = mk_regs s ! RBP + 0x70\<rparr>], s)"

definition mock_sections :: "mock_state \<Rightarrow> api_section list \<times> mock_state" where
  "mock_sections s =
     ([\<lparr>asec_name = ''.text'', asec_vaddr = 0x1000, asec_vsize = 0x2000, asec_perms = 0x5\<rparr>,
       \<lparr>asec_name = ''.data'', asec_vaddr = 0x3000, asec_vsize = 0x1000, asec_perms = 0x6\<rparr>], s)"

definition mock_imports :: "mock_state \<Rightarrow> api_import list \<times> mock_state" where
  "mock_imports s =
     ([\<lparr>ai_name = ''CreateFileW'', ai_library = ''kernel32.dll'', ai_addr = 0x00007ff6aa010000\<rparr>,
       \<lparr>ai_name = ''NtClose'', ai_library = ''ntdll.dll'', ai_addr = 0x00007ff6abcd1000\<rparr>], s)"

definition mock_exports :: "mock_state \<Rightarrow> api_export list \<times> mock_state" where
  "mock_exports s =
     ([\<lparr>ae_name = ''DllMain'', ae_addr = 0x00007ff751fa1000, ae_ordinal = 1\<rparr>,
       \<lparr>ae_name = ''ProcessData'', ae_addr = 0x00007ff751fa1200, ae_ordinal = 2\<rparr>], s)"

definition mock_symbols :: "mock_state \<Rightarrow> api_symbol list \<times> mock_state" where
  "mock_symbols s = ([\<lparr>ay_name = ''main'', ay_addr = 0x00007ff751fa2440, ay_kind = ''function''\<rparr>], s)"

definition mock_strings :: "mock_state \<Rightarrow> api_string list \<times> mock_state" where
  "mock_strings s =
     ([\<lparr>ag_addr = 0x00007ff6abcd0020, ag_text = ''ntdll.dll''\<rparr>,
       \<lparr>ag_addr = 0x00007ff6abcd0100, ag_text = ''CreateFileW''\<rparr>,
       \<lparr>ag_addr = 0x00007ff6abcd0200, ag_text = ''Invalid parameter''\<rparr>], s)"

definition mock_analyze :: "mock_state \<Rightarrow> mock_state" where
  "mock_analyze s = s"

definition mock_functions :: "mock_state \<Rightarrow> api_function list \<times> mock_state" where
  "mock_functions s =
     ([\<lparr>afn_addr = 0x00007FF751FA2440, afn_size = 0x1A, afn_name = ''main'', afn_block_count = 2\<rparr>,
       \<lparr>afn_addr = 0x00007FF751FA2500, afn_size = 0x08, afn_name = ''sym.helper'', afn_block_count = 1\<rparr>], s)"

definition mock_function_blocks :: "u64 \<Rightarrow> mock_state \<Rightarrow> api_block list \<times> mock_state" where
  "mock_function_blocks f s =
     (if f = 0x00007FF751FA2440 then
        ([\<lparr>ab_addr = 0x00007FF751FA2440, ab_size = 0x19, ab_jump = 0x00007FF751FA2460, ab_fail = 0x00007FF751FA2459\<rparr>,
          \<lparr>ab_addr = 0x00007FF751FA2459, ab_size = 0x01, ab_jump = 0, ab_fail = 0\<rparr>], s)
      else if f = 0x00007FF751FA2500 then
        ([\<lparr>ab_addr = 0x00007FF751FA2500, ab_size = 0x08, ab_jump = 0, ab_fail = 0\<rparr>], s)
      else ([], s))"

definition mock_xrefs_to :: "u64 \<Rightarrow> mock_state \<Rightarrow> api_xref list \<times> mock_state" where
  "mock_xrefs_to addr s =
     (if addr = 0x00007FF751FA2500 then
        ([\<lparr>ax_from = 0x00007FF751FA244F, ax_to = 0x00007FF751FA2500, ax_kind = 0\<rparr>], s)
      else ([], s))"

definition kVTable :: "mock_state vtable" where
  "kVTable =
     \<lparr>vt_registers = Some mock_registers, vt_modules = Some mock_modules, vt_maps = Some mock_maps,
      vt_threads = Some mock_threads, vt_disasm = Some mock_disasm, vt_run_state = Some mock_run_state,
      vt_pc = Some mock_pc, vt_state_epoch = Some mock_epoch, vt_step_into = Some mock_step_into,
      vt_step_over = Some mock_step_over, vt_step_out = Some mock_step_out, vt_cont = Some mock_cont,
      vt_brk = Some mock_brk, vt_restart = Some mock_restart, vt_stop = Some mock_stop,
      vt_read_memory = Some mock_read_memory, vt_breakpoints = Some mock_breakpoints,
      vt_bp_toggle = Some mock_bp_toggle, vt_bp_set_enabled = Some mock_bp_set_enabled,
      vt_backtrace = Some mock_backtrace, vt_sections = Some mock_sections, vt_imports = Some mock_imports,
      vt_get_exports = Some mock_exports, vt_symbols = Some mock_symbols, vt_strings = Some mock_strings,
      vt_analyze = Some mock_analyze, vt_functions = Some mock_functions,
      vt_function_blocks = Some mock_function_blocks, vt_xrefs_to = Some mock_xrefs_to\<rparr>"

text \<open>\<open>s0\<close> is what the process-wide object held before.\<close>

definition irida_mock_create :: "mock_state \<Rightarrow> mock_state handle" where
  "irida_mock_create s0 =
     irida_session_create (Some kVTable)
       (s0\<lparr>mk_pc := stream_address 0, mk_regs := reset_regs, mk_epoch := 1, mk_bps := []\<rparr>)"

section \<open>The epoch protocol\<close>

lemmas mock_query_defs =
  mock_registers_def mock_modules_def mock_maps_def mock_threads_def mock_disasm_def mock_run_state_def
  mock_pc_def mock_epoch_def mock_read_memory_def mock_breakpoints_def mock_backtrace_def mock_sections_def
  mock_imports_def mock_exports_def mock_symbols_def mock_strings_def mock_functions_def
  mock_function_blocks_def mock_xrefs_to_def

lemmas mock_command_defs =
  mock_step_into_def mock_step_over_def mock_step_out_def mock_cont_def mock_brk_def mock_restart_def
  mock_stop_def mock_bp_toggle_def mock_bp_set_enabled_def mock_analyze_def

lemma find_index_shown [simp]:
  "mk_pc (find_index s) = mk_pc s" "mk_regs (find_index s) = mk_regs s" "mk_epoch (find_index s) = mk_epoch s"
  by (simp_all add: find_index_def split: option.split)

lemma advance_one_epoch [simp]: "mk_epoch (advance_one s) = mk_epoch s + 1"
  by (simp add: advance_one_def bump_def add_reg_def Let_def)

interpretation mock: epoch_frontend kVTable "\<lambda>_. True"
proof (unfold_locales, goal_cases)
  case (1 c a)
  show ?case
    by (cases a) (simp_all add: api_defs kVTable_def mock_command_defs mock_registers_def mock_pc_def
        mock_epoch_def moves_or_keeps_def bump_def add_reg_def Let_def)
next
  case (2 c q)
  have "do_query q (session_on kVTable c) = session_on kVTable c"
    by (cases q) (simp_all add: api_defs kVTable_def mock_query_defs Let_def)
  then show ?case by auto
qed

section \<open>Running to a breakpoint\<close>

text \<open>The addresses an enabled breakpoint stops at above \<open>pc\<close>.\<close>

definition hits :: "u64 \<Rightarrow> api_breakpoint list \<Rightarrow> u64 set" where
  "hits pc bs = {abp_address b | b. b \<in> set bs \<and> abp_enabled b \<and> pc < abp_address b}"

lemma hits_simps [simp]:
  "hits pc [] = {}"
  "hits pc (b # bs) = (if abp_enabled b \<and> pc < abp_address b then insert (abp_address b) (hits pc bs) else hits pc bs)"
  by (auto simp: hits_def)

lemma finite_hits [simp]: "finite (hits pc bs)"
  by (induction bs) auto

lemma fold_nearer: "fold (nearer_bp pc) bs best = Min (insert best (hits pc bs))"
proof (induction bs arbitrary: best)
  case (Cons b bs)
  have "Min (insert (nearer_bp pc b best) (hits pc bs)) = Min (insert best (hits pc (b # bs)))"
  proof (cases "abp_enabled b \<and> pc < abp_address b")
    case True
    then have "nearer_bp pc b best = min best (abp_address b)" by (auto simp: nearer_bp_def min_def)
    with True show ?thesis by (cases "hits pc bs = {}") (simp_all add: min.assoc)
  next
    case False
    then show ?thesis by (auto simp: nearer_bp_def)
  qed
  with Cons.IH [of "nearer_bp pc b best"] show ?case by simp
qed simp

text \<open>Continuing the canned session stops at the nearest enabled breakpoint above the program counter,
  whatever the order of the table, and at the last instruction of the stream if there is none;
  registers and breakpoints stay, and the epoch moves by one.\<close>

theorem mock_cont_nearest_breakpoint:
  "mk_pc (mock_cont s) =
     (if hits (mk_pc s) (mk_bps s) - {UINT64_MAX} = {} then stream_address (kStreamLen - 1)
      else Min (hits (mk_pc s) (mk_bps s))) \<and>
   mk_epoch (mock_cont s) = mk_epoch s + 1 \<and> mk_regs (mock_cont s) = mk_regs s \<and>
   mk_bps (mock_cont s) = mk_bps s"
proof -
  let ?H = "hits (mk_pc s) (mk_bps s)"
  have top: "a \<le> UINT64_MAX" for a :: u64 by (simp add: UINT64_MAX_def word_order.extremum)
  have "Min (insert UINT64_MAX ?H) = (if ?H - {UINT64_MAX} = {} then UINT64_MAX else Min ?H)"
  proof (cases "?H = {}")
    case False
    then have "Min (insert UINT64_MAX ?H) = Min ?H" using top [of "Min ?H"] by (simp add: min_absorb2 del: Min_le_iff Min_ge_iff)
    moreover have "?H = {UINT64_MAX}" if "?H - {UINT64_MAX} = {}" using that False by blast
    ultimately show ?thesis by auto
  qed simp
  moreover have "Min ?H \<noteq> UINT64_MAX" if "?H - {UINT64_MAX} \<noteq> {}"
  proof -
    from that obtain a where "a \<in> ?H" "a \<noteq> UINT64_MAX" by auto
    from \<open>a \<in> ?H\<close> have "Min ?H \<le> a" by (rule Min_le [OF finite_hits])
    also have "a < UINT64_MAX" using top [of a] \<open>a \<noteq> UINT64_MAX\<close> by (rule le_neq_trans)
    finally show ?thesis by (rule less_imp_neq)
  qed
  ultimately show ?thesis
    by (auto simp: mock_cont_def bump_def Let_def fold_nearer)
qed

end
