(* ===== verification/Debug_Controller.thy ===== *)
theory Debug_Controller
  imports Code_View Window_Layout Mock_Backend
begin

text \<open>
  irida-ui/gui/src/session/debug_controller.cpp, the sole owner of the session of the front end,
  with the parts of app/main_window.cpp it works with: signals and the panels connected to them,
  the worker thread of an analysis, attaching to a process, closing the window and the destructor.

  Sessions live on a heap of pointers, because what matters here is which pointers are still
  good when a thread uses them.  \<open>None\<close> is a use of freed memory or a session destroyed as
  what it is not.  Pointers are not used again after they are freed; in the program they may be,
  which makes such a use no better.  Threads take turns between calls of the C interface.
  Signals reach the panels at once, in the order they were connected.
\<close>

type_synonym ptr = nat

datatype session_kind = Mock | Static | Native

datatype signal = StateChanged | NavigationRequested u64 | AnalysisStarted | AnalysisFinished | SessionKindChanged

record 'c object =
  ob_session :: "'c session"
  ob_kind :: session_kind

datatype worker = Analysing ptr | Finished

section \<open>The panels\<close>

record panels =
  pn_code :: code_view
  pn_map :: byte_map_strip
  pn_modules :: row_panel
  pn_breakpoints :: row_panel
  pn_threads :: row_panel
  pn_memory_map :: row_panel
  pn_backtrace :: row_panel
  pn_console :: "string list"
  pn_sections :: row_panel
  pn_imports :: row_panel
  pn_exports :: row_panel
  pn_symbols :: row_panel
  pn_strings :: row_panel
  pn_functions :: row_panel
  pn_xrefs :: xrefs_panel

text \<open>
  What the fonts and the layout decide: sizes of cells, of the viewport and of the byte map; and
  the layout stored by an earlier run.
\<close>

record window_env =
  we_font :: font_metrics
  we_port :: viewport
  we_cellW :: int
  we_cellH :: int
  we_gutterW :: int
  we_strip :: "int \<times> int"
  we_layout :: "layout_state option"

definition panels_init :: "window_env \<Rightarrow> panels" where
  "panels_init E =
     \<lparr>pn_code = code_view_init (we_font E) (we_port E) (we_cellW E) (we_cellH E) (we_gutterW E),
      pn_map = strip_init SectionTexture (fst (we_strip E)) (snd (we_strip E)),
      pn_modules = row_panel_init 3, pn_breakpoints = row_panel_init 3,
      pn_threads = row_panel_init 3, pn_memory_map = row_panel_init 5, pn_backtrace = row_panel_init 3,
      pn_console = [], pn_sections = row_panel_init 4, pn_imports = row_panel_init 3,
      pn_exports = row_panel_init 3, pn_symbols = row_panel_init 3, pn_strings = row_panel_init 2,
      pn_functions = row_panel_init 4, pn_xrefs = \<lparr>xp_rows = row_panel_init 3, xp_target = 0\<rparr>\<rparr>"

text \<open>\<open>stateChanged\<close>: every panel reloads, in the order in which the window connects them.\<close>

definition reload_panels :: "bool \<Rightarrow> 'c handle \<Rightarrow> panels \<Rightarrow> panels \<times> 'c handle" where
  "reload_panels live s p =
     (case code_view_reload live s (pn_code p) of (code, s0) \<Rightarrow>
      case map_view_refresh s0 (pn_map p) of (strip, s1) \<Rightarrow>
      case modules_refresh s1 (pn_modules p) of (mods, s2) \<Rightarrow>
      case breakpoints_refresh s2 (pn_breakpoints p) of (bps, s3) \<Rightarrow>
      case threads_refresh s3 (pn_threads p) of (threads, s4) \<Rightarrow>
      case memory_map_refresh s4 (pn_memory_map p) of (maps, s5) \<Rightarrow>
      case backtrace_refresh s5 (pn_backtrace p) of (frames, s6) \<Rightarrow>
      case console_refresh s6 (pn_console p) of (console, s7) \<Rightarrow>
      case sections_refresh s7 (pn_sections p) of (secs, s8) \<Rightarrow>
      case imports_refresh s8 (pn_imports p) of (imps, s9) \<Rightarrow>
      case exports_refresh s9 (pn_exports p) of (exps, s10) \<Rightarrow>
      case symbols_refresh s10 (pn_symbols p) of (syms, s11) \<Rightarrow>
      case strings_refresh s11 (pn_strings p) of (strs, s12) \<Rightarrow>
      case functions_refresh s12 (pn_functions p) of (fns, s13) \<Rightarrow>
      case xrefs_refresh s13 (pn_xrefs p) of (xrefs, s14) \<Rightarrow>
        (\<lparr>pn_code = code, pn_map = strip, pn_modules = mods, pn_breakpoints = bps, pn_threads = threads,
          pn_memory_map = maps, pn_backtrace = frames, pn_console = console, pn_sections = secs,
          pn_imports = imps, pn_exports = exps, pn_symbols = syms, pn_strings = strs,
          pn_functions = fns, pn_xrefs = xrefs\<rparr>, s14))"

text \<open>\<open>navigationRequested\<close>: the code view and the references move there.\<close>

definition navigate_panels :: "bool \<Rightarrow> u64 \<Rightarrow> 'c handle \<Rightarrow> panels \<Rightarrow> panels \<times> 'c handle" where
  "navigate_panels live addr s p =
     (case code_view_navigate addr live s (pn_code p) of (code, s1) \<Rightarrow>
      case setTarget addr s1 (pn_xrefs p) of (xrefs, s2) \<Rightarrow>
        (p\<lparr>pn_code := code, pn_xrefs := xrefs\<rparr>, s2))"

text \<open>The linear form, the one that marks the row of the program counter.\<close>

abbreviation pn_disassembly :: "panels \<Rightarrow> dis_panel" where
  "pn_disassembly p \<equiv> cv_linear (pn_code p)"

text \<open>Choosing a form of the code view.\<close>

definition select_panel :: "view \<Rightarrow> bool \<Rightarrow> 'c handle \<Rightarrow> panels \<Rightarrow> panels \<times> 'c handle" where
  "select_panel v live s p = (case selectView v live s (pn_code p) of (code, s1) \<Rightarrow> (p\<lparr>pn_code := code\<rparr>, s1))"

section \<open>The controller and its surroundings\<close>

record 'c desk =
  dk_heap :: "ptr \<Rightarrow> 'c object option"
  dk_next :: ptr
  dk_session :: "ptr option"
  dk_kind :: session_kind
  dk_analyzing :: bool
  dk_workers :: "worker list"
  dk_signals :: "signal list"
  dk_panels :: panels
  dk_docks :: docks
  dk_layout :: "layout_state option"
  dk_status :: string
  dk_progress :: bool

definition isLive :: "'c desk \<Rightarrow> bool" where
  "isLive dk \<longleftrightarrow> dk_kind dk = Native"

text \<open>A call of the C interface through a pointer: null is a null session, a dangling one a fault.\<close>

definition put_session :: "ptr \<Rightarrow> 'c handle \<Rightarrow> 'c desk \<Rightarrow> 'c desk" where
  "put_session q h dk =
     (case h of
        None \<Rightarrow> dk
      | Some se \<Rightarrow> dk\<lparr>dk_heap := (dk_heap dk)(q := map_option (ob_session_update (\<lambda>_. se)) (dk_heap dk q))\<rparr>)"

definition call_on :: "ptr option \<Rightarrow> ('c handle \<Rightarrow> 'r \<times> 'c handle) \<Rightarrow> 'c desk \<Rightarrow> ('r \<times> 'c desk) option" where
  "call_on p f dk =
     (case p of
        None \<Rightarrow> Some (fst (f None), dk)
      | Some q \<Rightarrow>
          (case dk_heap dk q of
             None \<Rightarrow> None
           | Some ob \<Rightarrow> (case f (Some (ob_session ob)) of (r, h) \<Rightarrow> Some (r, put_session q h dk))))"

definition effect :: "('c handle \<Rightarrow> 'c handle) \<Rightarrow> 'c handle \<Rightarrow> unit \<times> 'c handle" where
  "effect f s = ((), f s)"

definition applyDebugDockVisibility :: "'c desk \<Rightarrow> 'c desk" where
  "applyDebugDockVisibility dk = dk\<lparr>dk_docks := showDebugDocks (isLive dk) (dk_docks dk)\<rparr>"

definition finished_text :: "nat \<Rightarrow> string" where
  "finished_text n =
     ''Analysis complete '' @ [CHR 0xE2, CHR 0x80, CHR 0x94] @ '' '' @ dec_digits n @ '' functions''"

text \<open>What is connected to each signal.\<close>

definition react :: "signal \<Rightarrow> 'c desk \<Rightarrow> 'c desk option" where
  "react sig dk =
     (case sig of
        StateChanged \<Rightarrow>
          map_option (\<lambda>(p, dk1). dk1\<lparr>dk_panels := p\<rparr>)
            (call_on (dk_session dk) (\<lambda>s. reload_panels (isLive dk) s (dk_panels dk)) dk)
      | NavigationRequested addr \<Rightarrow>
          map_option (\<lambda>(p, dk1). dk1\<lparr>dk_panels := p\<rparr>)
            (call_on (dk_session dk) (\<lambda>s. navigate_panels (isLive dk) addr s (dk_panels dk)) dk)
      | AnalysisStarted \<Rightarrow>
          Some (dk\<lparr>dk_status := ''Analyzing'' @ [CHR 0xE2, CHR 0x80, CHR 0xA6], dk_progress := True\<rparr>)
      | AnalysisFinished \<Rightarrow>
          map_option (\<lambda>(fns, dk1). dk1\<lparr>dk_status := finished_text (length fns), dk_progress := False\<rparr>)
            (call_on (dk_session dk) (irida_functions True) dk)
      | SessionKindChanged \<Rightarrow> Some (applyDebugDockVisibility dk))"

definition emit :: "signal \<Rightarrow> 'c desk \<Rightarrow> 'c desk option" where
  "emit sig dk = react sig (dk\<lparr>dk_signals := dk_signals dk @ [sig]\<rparr>)"

definition destroySession :: "'c desk \<Rightarrow> 'c desk option" where
  "destroySession dk =
     (case dk_session dk of
        None \<Rightarrow> Some dk
      | Some p \<Rightarrow>
          (case dk_heap dk p of
             None \<Rightarrow> None
           | Some ob \<Rightarrow>
               if dk_kind dk = Mock \<or> dk_kind dk = ob_kind ob
               then Some (dk\<lparr>dk_heap := (dk_heap dk)(p := None), dk_session := None\<rparr>)
               else None))"

definition setSession :: "ptr option \<Rightarrow> session_kind \<Rightarrow> 'c desk \<Rightarrow> 'c desk option" where
  "setSession s kind dk =
     (let kindChanged = (kind \<noteq> dk_kind dk) in
      Option.bind (destroySession dk) (\<lambda>dk1.
      let dk2 = dk1\<lparr>dk_session := s, dk_kind := kind\<rparr> in
      Option.bind (if kindChanged then emit SessionKindChanged dk2 else Some dk2) (emit StateChanged)))"

definition refreshViews :: "'c desk \<Rightarrow> 'c desk option" where
  "refreshViews dk = emit StateChanged dk"

definition runAnalysis :: "'c desk \<Rightarrow> 'c desk option" where
  "runAnalysis dk =
     (case dk_session dk of
        None \<Rightarrow> Some dk
      | Some s \<Rightarrow>
          if dk_analyzing dk then Some dk
          else map_option (\<lambda>dk1. dk1\<lparr>dk_workers := dk_workers dk1 @ [Analysing s]\<rparr>)
                 (emit AnalysisStarted (dk\<lparr>dk_analyzing := True\<rparr>)))"

text \<open>The body of the worker thread, and what the user interface does when it has finished.\<close>

definition worker_runs :: "nat \<Rightarrow> 'c desk \<Rightarrow> 'c desk option" where
  "worker_runs i dk =
     (if i < length (dk_workers dk) then
        (case dk_workers dk ! i of
           Finished \<Rightarrow> Some dk
         | Analysing s \<Rightarrow>
             map_option (\<lambda>(_, dk1). dk1\<lparr>dk_workers := (dk_workers dk1)[i := Finished]\<rparr>)
               (call_on (Some s) (effect irida_analyze) dk))
      else Some dk)"

definition drop_nth :: "nat \<Rightarrow> 'a list \<Rightarrow> 'a list" where
  "drop_nth i xs = take i xs @ drop (Suc i) xs"

definition worker_finished :: "nat \<Rightarrow> 'c desk \<Rightarrow> 'c desk option" where
  "worker_finished i dk =
     (if i < length (dk_workers dk) \<and> dk_workers dk ! i = Finished then
        Option.bind (emit AnalysisFinished (dk\<lparr>dk_analyzing := False, dk_workers := drop_nth i (dk_workers dk)\<rparr>))
          (emit StateChanged)
      else Some dk)"

definition afterOp :: "u64 \<Rightarrow> 'c desk \<Rightarrow> 'c desk option" where
  "afterOp epoch_before dk =
     Option.bind (call_on (dk_session dk) irida_state_epoch dk) (\<lambda>(e, dk1).
       if e \<noteq> epoch_before then emit StateChanged dk1 else Some dk1)"

definition control :: "('c handle \<Rightarrow> 'c handle) \<Rightarrow> 'c desk \<Rightarrow> 'c desk option" where
  "control f dk =
     Option.bind (call_on (dk_session dk) irida_state_epoch dk) (\<lambda>(e, dk1).
     Option.bind (call_on (dk_session dk1) (effect f) dk1) (\<lambda>(_, dk2). afterOp e dk2))"

definition stepInto :: "'c desk \<Rightarrow> 'c desk option" where "stepInto dk = control irida_step_into dk"
definition stepOver :: "'c desk \<Rightarrow> 'c desk option" where "stepOver dk = control irida_step_over dk"
definition stepOut :: "'c desk \<Rightarrow> 'c desk option" where "stepOut dk = control irida_step_out dk"
definition run :: "'c desk \<Rightarrow> 'c desk option" where "run dk = control irida_continue dk"
definition breakExec :: "'c desk \<Rightarrow> 'c desk option" where "breakExec dk = control irida_break dk"
definition restart :: "'c desk \<Rightarrow> 'c desk option" where "restart dk = control irida_restart dk"
definition stop :: "'c desk \<Rightarrow> 'c desk option" where "stop dk = control irida_stop dk"

definition toggleBreakpoint :: "u64 \<Rightarrow> 'c desk \<Rightarrow> 'c desk option" where
  "toggleBreakpoint addr dk =
     Option.bind (call_on (dk_session dk) (effect (irida_bp_toggle addr)) dk) (\<lambda>(_, dk1). emit StateChanged dk1)"

definition setBreakpointEnabled :: "u64 \<Rightarrow> bool \<Rightarrow> 'c desk \<Rightarrow> 'c desk option" where
  "setBreakpointEnabled addr on dk =
     Option.bind (call_on (dk_session dk) (effect (irida_bp_set_enabled addr on)) dk)
       (\<lambda>(_, dk1). emit StateChanged dk1)"

definition navigateTo :: "u64 \<Rightarrow> 'c desk \<Rightarrow> 'c desk option" where
  "navigateTo addr dk = emit (NavigationRequested addr) dk"

section \<open>The window\<close>

definition alloc :: "'c session \<Rightarrow> session_kind \<Rightarrow> 'c desk \<Rightarrow> ptr \<times> 'c desk" where
  "alloc se kind dk =
     (dk_next dk, dk\<lparr>dk_heap := (dk_heap dk)(dk_next dk := Some \<lparr>ob_session = se, ob_kind = kind\<rparr>),
                     dk_next := Suc (dk_next dk)\<rparr>)"

text \<open>\<open>accepted\<close> and \<open>pid\<close> are what the dialog answers, \<open>create\<close> is \<open>irida_session_create_native\<close>.\<close>

definition attachToProcess :: "(u32 \<Rightarrow> 'c handle) \<Rightarrow> bool \<Rightarrow> u32 \<Rightarrow> 'c desk \<Rightarrow> 'c desk option" where
  "attachToProcess create accepted pid dk =
     (if \<not> accepted then Some dk
      else if pid = 0 then Some dk
      else
        case create pid of
          None \<Rightarrow> Some dk
        | Some se \<Rightarrow> (case alloc se Native dk of (p, dk1) \<Rightarrow> setSession (Some p) Native dk1))"

definition desk_init :: "window_env \<Rightarrow> 'c session \<Rightarrow> session_kind \<Rightarrow> 'c desk" where
  "desk_init E se kind =
     applyDebugDockVisibility
       \<lparr>dk_heap = (\<lambda>_. None)(0 \<mapsto> \<lparr>ob_session = se, ob_kind = kind\<rparr>), dk_next = 1, dk_session = Some 0,
        dk_kind = kind, dk_analyzing = False, dk_workers = [], dk_signals = [], dk_panels = panels_init E,
        dk_docks = restoreState (we_layout E) kLayoutStateVersion buildDocks, dk_layout = we_layout E,
        dk_status = ''Ready'', dk_progress = False\<rparr>"

text \<open>The timer that fires once the window is shown.\<close>

definition first_show :: "bool \<Rightarrow> 'c desk \<Rightarrow> 'c desk option" where
  "first_show autoAnalyze dk =
     Option.bind (refreshViews dk) (\<lambda>dk1. if autoAnalyze then runAnalysis dk1 else Some dk1)"

definition select_view :: "view \<Rightarrow> 'c desk \<Rightarrow> 'c desk option" where
  "select_view v dk =
     map_option (\<lambda>(p, dk1). dk1\<lparr>dk_panels := p\<rparr>)
       (call_on (dk_session dk) (\<lambda>s. select_panel v (isLive dk) s (dk_panels dk)) dk)"

text \<open>The code view loads its linear form while the window is built, the rest follows once it is shown.\<close>

definition window_opens :: "window_env \<Rightarrow> bool \<Rightarrow> 'c session \<Rightarrow> session_kind \<Rightarrow> 'c desk option" where
  "window_opens E autoAnalyze se kind =
     Option.bind (select_view ViewLinear (desk_init E se kind)) (first_show autoAnalyze)"

text \<open>
  Closing the last window: the layout is stored, the event loop returns to the main function, and the
  destructor of the window destroys the controller, which destroys its session without waiting for
  a worker.  The connection that announces the end of a worker goes with the controller.
\<close>

definition controller_destroyed :: "'c desk \<Rightarrow> 'c desk option" where
  "controller_destroyed dk = destroySession dk"

definition closeWindow :: "'c desk \<Rightarrow> 'c desk option" where
  "closeWindow dk = controller_destroyed (dk\<lparr>dk_layout := closeEvent (dk_docks dk)\<rparr>)"

section \<open>Events\<close>

datatype event =
    EStepInto | EStepOver | EStepOut | ERun | EBreak | ERestart | EStop
  | EToggle u64 | ESetEnabled u64 bool | ENavigate u64 | ERefresh | EAnalyze
  | ESelectView view | EToggleDock string | EResetLayout | EAttach bool u32 | EClose | EWorkerRuns nat | EWorkerFinished nat

fun do_event :: "(u32 \<Rightarrow> 'c handle) \<Rightarrow> event \<Rightarrow> 'c desk \<Rightarrow> 'c desk option" where
  "do_event create EStepInto dk = stepInto dk"
| "do_event create EStepOver dk = stepOver dk"
| "do_event create EStepOut dk = stepOut dk"
| "do_event create ERun dk = run dk"
| "do_event create EBreak dk = breakExec dk"
| "do_event create ERestart dk = restart dk"
| "do_event create EStop dk = stop dk"
| "do_event create (EToggle a) dk = toggleBreakpoint a dk"
| "do_event create (ESetEnabled a on) dk = setBreakpointEnabled a on dk"
| "do_event create (ENavigate a) dk = navigateTo a dk"
| "do_event create ERefresh dk = refreshViews dk"
| "do_event create EAnalyze dk = runAnalysis dk"
| "do_event create (ESelectView v) dk = select_view v dk"
| "do_event create (EToggleDock n) dk = Some (dk\<lparr>dk_docks := toggleDock n (dk_docks dk)\<rparr>)"
| "do_event create EResetLayout dk = Some (dk\<lparr>dk_docks := resetLayout (isLive dk) (dk_docks dk)\<rparr>)"
| "do_event create (EAttach accepted pid) dk = attachToProcess create accepted pid dk"
| "do_event create EClose dk = closeWindow dk"
| "do_event create (EWorkerRuns i) dk = worker_runs i dk"
| "do_event create (EWorkerFinished i) dk = worker_finished i dk"

text \<open>
  The desks of a window that opened on a session, from its first show until it is closed.  A step may be any event
  that is \<open>allowed\<close>; \<open>creates\<close> holds of what creating a session may do at the time of an event.
  Closing ends the run: a closed window gets no events, only the thread of a worker may still run.
\<close>

inductive desk_run ::
    "(event \<Rightarrow> 'c desk \<Rightarrow> bool) \<Rightarrow> ((u32 \<Rightarrow> 'c handle) \<Rightarrow> bool) \<Rightarrow> 'c session \<Rightarrow> session_kind \<Rightarrow> 'c desk \<Rightarrow> bool"
  for allowed creates se kind where
  shown: "window_opens E autoAnalyze se kind = Some dk \<Longrightarrow> desk_run allowed creates se kind dk"
| event: "desk_run allowed creates se kind dk \<Longrightarrow> creates create \<Longrightarrow> allowed ev dk \<Longrightarrow> ev \<noteq> EClose \<Longrightarrow>
    do_event create ev dk = Some dk1 \<Longrightarrow> desk_run allowed creates se kind dk1"

text \<open>
  Any event; and the user who neither attaches to a process nor closes the window while a worker is
  still analysing.  See \<open>attach_while_analysing\<close> and \<open>close_while_analysing\<close> for what happens otherwise.
\<close>

definition any_event :: "event \<Rightarrow> 'c desk \<Rightarrow> bool" where
  "any_event ev dk \<longleftrightarrow> True"

definition calm :: "event \<Rightarrow> 'c desk \<Rightarrow> bool" where
  "calm ev dk \<longleftrightarrow>
     (case ev of
        EAttach accepted pid \<Rightarrow> (\<forall>w \<in> set (dk_workers dk). w = Finished)
      | EClose \<Rightarrow> (\<forall>w \<in> set (dk_workers dk). w = Finished)
      | _ \<Rightarrow> True)"

section \<open>Queries on a session that keeps to the epoch protocol\<close>

definition trusty :: "'c handle \<Rightarrow> bool" where
  "trusty s \<longleftrightarrow> (\<exists>vt ok c. epoch_frontend vt ok \<and> ok c \<and> s = session_on vt c)"

definition quiet :: "('c handle \<Rightarrow> 'r \<times> 'c handle) \<Rightarrow> bool" where
  "quiet f \<longleftrightarrow>
     (\<forall>s. trusty s \<longrightarrow> trusty (snd (f s)) \<and> epoch_of (snd (f s)) = epoch_of s \<and> shown (snd (f s)) = shown s)"

lemma quietD:
  "quiet f \<Longrightarrow> trusty s \<Longrightarrow> f s = (r, s1) \<Longrightarrow> trusty s1 \<and> epoch_of s1 = epoch_of s \<and> shown s1 = shown s"
  by (force simp: quiet_def)

lemma trusty_query:
  assumes "trusty s"
  shows "trusty (do_query q s) \<and> epoch_of (do_query q s) = epoch_of s \<and> shown (do_query q s) = shown s"
proof -
  obtain vt ok c where vt: "epoch_frontend vt ok" "ok c" "s = session_on vt c"
    using assms by (auto simp: trusty_def)
  from epoch_frontend.query_law [OF vt(1,2), of q] obtain c1 where
    c1: "do_query q s = session_on vt c1" "ok c1" "epoch_of (do_query q s) = epoch_of s"
    "shown (do_query q s) = shown s"
    unfolding vt(3) by auto
  then have "trusty (do_query q s)" unfolding trusty_def using vt(1) by blast
  with c1 show ?thesis by simp
qed

lemma trusty_command:
  assumes "trusty s"
  shows "trusty (do_command a s)" "moves_or_keeps s (do_command a s)"
proof -
  obtain vt ok c where vt: "epoch_frontend vt ok" "ok c" "s = session_on vt c"
    using assms by (auto simp: trusty_def)
  from epoch_frontend.command_law [OF vt(1,2), of a] obtain c1 where
    c1: "do_command a s = session_on vt c1" "ok c1" "moves_or_keeps s (do_command a s)"
    unfolding vt(3) by auto
  then show "trusty (do_command a s)" unfolding trusty_def using vt(1) by blast
  show "moves_or_keeps s (do_command a s)" by (rule c1(3))
qed

lemma quiet_query: "(\<And>s. snd (f s) = do_query q s) \<Longrightarrow> quiet f"
  by (simp add: quiet_def trusty_query)

lemma quiet_queries [intro]:
  "quiet (irida_registers True)" "quiet (irida_modules True)" "quiet (irida_maps True)"
  "quiet (irida_threads True)" "quiet (irida_disasm a n True)" "quiet irida_pc" "quiet irida_state_epoch"
  "quiet (irida_breakpoints True)" "quiet (irida_backtrace True)" "quiet (irida_sections True)"
  "quiet (irida_imports True)" "quiet (irida_exports True)" "quiet (irida_symbols True)"
  "quiet (irida_strings True)" "quiet (irida_functions True)" "quiet (irida_xrefs_to a True)"
  "quiet (irida_function_blocks a True)" "quiet (irida_read_memory a n True)"
  by (rule quiet_query, rule do_query.simps [symmetric])+

lemma quiet_return [intro]: "quiet (\<lambda>s. (r, s))"
  by (simp add: quiet_def)

lemma quiet_bind [intro]:
  fixes f :: "'c handle \<Rightarrow> 'r \<times> 'c handle" and g :: "'r \<Rightarrow> 'c handle \<Rightarrow> 'q \<times> 'c handle"
  assumes "quiet f" "\<And>r. quiet (g r)"
  shows "quiet (\<lambda>s. case f s of (r, s1) \<Rightarrow> g r s1)"
  unfolding quiet_def
proof (intro allI impI)
  fix s :: "'c handle" assume s: "trusty s"
  obtain r s1 where f: "f s = (r, s1)" by (cases "f s")
  from quietD [OF assms(1) s f] quietD [OF assms(2), of s1 r "fst (g r s1)" "snd (g r s1)"]
  show "trusty (snd (case f s of (r, s1) \<Rightarrow> g r s1)) \<and> epoch_of (snd (case f s of (r, s1) \<Rightarrow> g r s1)) = epoch_of s \<and>
      shown (snd (case f s of (r, s1) \<Rightarrow> g r s1)) = shown s" by (simp add: f)
qed

lemma quiet_if [intro]: "quiet f \<Longrightarrow> quiet g \<Longrightarrow> quiet (\<lambda>s. if b then f s else g s)"
  by (cases b) simp_all

lemma quiet_rows: "quiet q \<Longrightarrow> quiet (\<lambda>s. rows_refresh q cells addr s p)"
  unfolding rows_refresh_def by (intro quiet_bind quiet_return)

lemma quiet_dis: "quiet (\<lambda>s. dis_refresh live s p)"
  unfolding dis_refresh_def Let_def by (intro quiet_bind quiet_return quiet_if quiet_queries)

lemma quiet_pair [intro]: "(\<And>a b. quiet (f a b)) \<Longrightarrow> quiet (\<lambda>s. case p of (a, b) \<Rightarrow> f a b s)"
  by (cases p) simp

lemma quiet_option [intro]: "quiet f \<Longrightarrow> (\<And>a. quiet (g a)) \<Longrightarrow> quiet (\<lambda>s. case x of None \<Rightarrow> f s | Some a \<Rightarrow> g a s)"
  by (cases x) simp_all

lemma quiet_blocks: "quiet (\<lambda>s. decode_blocks bbs s)"
  by (induction bbs) (simp_all only: decode_blocks.simps, (intro quiet_bind quiet_return quiet_queries, assumption?)+)

lemma quiet_graph: "quiet (\<lambda>s. showFunction fm a s g)" "quiet (\<lambda>s. graph_refresh fm s g)" "quiet (\<lambda>s. onNavigation fm a s g)"
proof -
  show f: "quiet (\<lambda>s. showFunction fm a s g)" for a g
    unfolding showFunction_def buildBlocks_def by (intro quiet_bind quiet_return quiet_queries quiet_blocks)
  show "quiet (\<lambda>s. graph_refresh fm s g)" "quiet (\<lambda>s. onNavigation fm a s g)"
    unfolding graph_refresh_def onNavigation_def
    by (intro quiet_bind quiet_return quiet_queries quiet_if quiet_option f)+
qed

lemma quiet_overview: "quiet (\<lambda>s. overview_refresh vp s p)"
  unfolding overview_refresh_def by (intro quiet_bind quiet_pair quiet_return quiet_queries)

lemma quiet_colour: "quiet (\<lambda>s. colorForRun m bs a s)"
  unfolding colorForRun_def sectionIndexFor_def
  by (cases m) (simp_all only: mode.case, (intro quiet_bind quiet_return quiet_queries)+)

lemma quiet_cells: "quiet (\<lambda>s. paint_cells m cb w buf a cs s)"
  by (induction cs)
    (simp_all only: paint_cells.simps Let_def, (intro quiet_bind quiet_return quiet_if quiet_colour, assumption?)+)

lemma quiet_map: "quiet (\<lambda>s. map_view_refresh s m)"
proof -
  have "quiet (\<lambda>s. cache_rows m ys s)" for m ys
    by (induction ys)
      (simp_all only: cache_rows.simps Let_def, (intro quiet_bind quiet_return quiet_if quiet_queries quiet_cells, assumption?)+)
  then show ?thesis
    unfolding map_view_refresh_def setRange_def rebuildCache_def
    by (intro quiet_bind quiet_pair quiet_return quiet_if quiet_queries)
qed

lemma quiet_memory: "quiet (\<lambda>s. memory_refresh s p)"
  unfolding memory_refresh_def by (intro quiet_bind quiet_return quiet_queries)

lemma quiet_code: "quiet (\<lambda>s. code_view_reload live s cv)" "quiet (\<lambda>s. code_view_navigate a live s cv)"
    "quiet (\<lambda>s. select_panel v live s p)"
proof -
  show "quiet (\<lambda>s. code_view_reload live s cv)" "quiet (\<lambda>s. code_view_navigate a live s cv)"
    unfolding code_view_reload_def code_view_navigate_def dis_setBase_def
    by (intro quiet_bind quiet_return quiet_dis quiet_graph quiet_overview quiet_memory)+
  show "quiet (\<lambda>s. select_panel v live s p)"
    unfolding select_panel_def selectView_def Let_def
    by (cases v) (simp_all only: view.case, (intro quiet_bind quiet_return quiet_dis quiet_graph quiet_overview quiet_memory)+)
qed

lemma quiet_console: "quiet (\<lambda>s. console_refresh s out)"
  unfolding console_refresh_def by (intro quiet_bind quiet_return quiet_queries)

lemma quiet_xrefs: "quiet (\<lambda>s. xrefs_refresh s p)"
  unfolding xrefs_refresh_def by (intro quiet_bind quiet_return quiet_rows quiet_queries)

lemmas rows_refresh_defs =
  modules_refresh_def backtrace_refresh_def threads_refresh_def breakpoints_refresh_def exports_refresh_def
  imports_refresh_def sections_refresh_def strings_refresh_def symbols_refresh_def memory_map_refresh_def
  functions_refresh_def

lemma quiet_reload: "quiet (\<lambda>s. reload_panels live s p)"
  unfolding reload_panels_def rows_refresh_defs
  by (intro quiet_bind quiet_return quiet_rows quiet_queries quiet_code quiet_map quiet_console quiet_xrefs)

lemma quiet_navigate: "quiet (\<lambda>s. navigate_panels live addr s p)"
  unfolding navigate_panels_def setTarget_def
  by (intro quiet_bind quiet_return quiet_code quiet_xrefs)

section \<open>What the panels show after a reload\<close>

definition views_ok :: "panels \<Rightarrow> bool" where
  "views_ok p \<longleftrightarrow> table_ok (dp_view (pn_disassembly p)) \<and> tv_columns (dp_view (pn_disassembly p)) = 4"

text \<open>
  The abstract view of a session a front end owes its user: where the program stands.  The
  panels show it when the marked row of the code view is the one of the program counter and the
  newest line of the console names program counter and epoch.
\<close>

definition displays :: "panels \<Rightarrow> u64 \<Rightarrow> u64 \<Rightarrow> bool" where
  "displays p pc epoch \<longleftrightarrow>
     tv_current_ip (dp_view (pn_disassembly p)) = ip_row_of (dp_row_addrs (pn_disassembly p)) pc \<and>
     painted (dp_view (pn_disassembly p)) \<and>
     pn_console p \<noteq> [] \<and> last (pn_console p) = stop_line pc epoch"

definition pc_of :: "'c handle \<Rightarrow> u64" where
  "pc_of s = fst (irida_pc s)"

lemma shown_pc: "shown s = shown t \<Longrightarrow> pc_of s = pc_of t"
  by (simp add: shown_def pc_of_def)

lemma last_appendLine: "appendLine t out \<noteq> [] \<and> last (appendLine t out) = t"
proof -
  have "length (out @ [t]) - kMaximumBlockCount < length (out @ [t])" by (simp add: kMaximumBlockCount_def)
  then show ?thesis by (simp add: appendLine_def Let_def last_drop)
qed

lemma console_shows:
  "pn = fst (console_refresh s out) \<Longrightarrow> trusty s \<Longrightarrow> pn \<noteq> [] \<and> last pn = stop_line (pc_of s) (epoch_of s)"
  using quietD [OF quiet_queries(6), of s "fst (irida_pc s)" "snd (irida_pc s)"]
  by (simp add: console_refresh_def case_prod_beta last_appendLine pc_of_def epoch_of_def)

lemma dis_refresh_shows:
  assumes "trusty s" "table_ok (dp_view p)" "tv_columns (dp_view p) = 4" "dis_refresh live s p = (p1, s5)"
  shows "painted (dp_view p1)" "tv_columns (dp_view p1) = 4"
    "tv_current_ip (dp_view p1) = ip_row_of (dp_row_addrs p1) (pc_of s)"
proof -
  obtain a0 s1 where 1: "(if dp_base p \<noteq> 0 then (dp_base p, s) else irida_pc s) = (a0, s1)" by fastforce
  obtain rows s2 where 2: "irida_disasm a0 256 True s1 = (rows, s2)" by fastforce
  obtain bps s3 where 3: "irida_breakpoints True s2 = (bps, s3)" by fastforce
  obtain pc s4 where 4: "irida_pc s3 = (pc, s4)" by fastforce
  have "quiet (\<lambda>s. if dp_base p \<noteq> 0 then (dp_base p, s) else irida_pc s)" by (intro quiet_if quiet_return quiet_queries)
  from quietD [OF this assms(1) 1] have s1: "trusty s1" "shown s1 = shown s" by auto
  from quietD [OF quiet_queries(5) s1(1) 2] have s2: "trusty s2" "shown s2 = shown s" using s1 by auto
  from quietD [OF quiet_queries(8) s2(1) 3] have "shown s3 = shown s" using s2 by auto
  then have pc: "pc = pc_of s" using 4 shown_pc [of s3 s] by (simp add: pc_of_def)
  note d = dis_refresh_eq [OF assms(2,3) 1 2 3 4 assms(4)]
  show "painted (dp_view p1)" "tv_columns (dp_view p1) = 4" using d by auto
  show "tv_current_ip (dp_view p1) = ip_row_of (dp_row_addrs p1) (pc_of s)" using d(7) pc by simp
qed

lemma reload_shows:
  assumes "trusty s" "views_ok p" "reload_panels live s p = (p1, s1)"
  shows "trusty s1" "epoch_of s1 = epoch_of s" "shown s1 = shown s" "views_ok p1" "displays p1 (pc_of s1) (epoch_of s1)"
proof -
  show s1: "trusty s1" "epoch_of s1 = epoch_of s" "shown s1 = shown s"
    using quietD [OF quiet_reload assms(1,3)] by auto
  have p1: "p1 = fst (reload_panels live s p)" using assms(3) by simp
  have dis: "pn_disassembly p1 = fst (dis_refresh live s (pn_disassembly p))"
    unfolding p1 reload_panels_def code_view_reload_def by (simp add: case_prod_beta)
  note d = dis_refresh_shows [OF assms(1), of "pn_disassembly p" live "pn_disassembly p1"
    "snd (dis_refresh live s (pn_disassembly p))"]
  define before where "before s =
     (case code_view_reload live s (pn_code p) of (code, s0) \<Rightarrow>
      case map_view_refresh s0 (pn_map p) of (strip, s1) \<Rightarrow>
      case modules_refresh s1 (pn_modules p) of (mods, s2) \<Rightarrow>
      case breakpoints_refresh s2 (pn_breakpoints p) of (bps, s3) \<Rightarrow>
      case threads_refresh s3 (pn_threads p) of (threads, s4) \<Rightarrow>
      case memory_map_refresh s4 (pn_memory_map p) of (maps, s5) \<Rightarrow>
      case backtrace_refresh s5 (pn_backtrace p) of (frames, s6) \<Rightarrow> ((), s6))" for s :: "'a handle"
  have "quiet before"
    unfolding before_def rows_refresh_defs
    by (intro quiet_bind quiet_return quiet_rows quiet_queries quiet_code quiet_map)
  with assms(1) have b: "trusty (snd (before s))" "epoch_of (snd (before s)) = epoch_of s"
    "shown (snd (before s)) = shown s"
    by (auto simp: quiet_def)
  have "pn_console p1 = fst (console_refresh (snd (before s)) (pn_console p))"
    unfolding p1 reload_panels_def before_def by (simp add: case_prod_beta)
  from console_shows [OF this b(1)] have c: "pn_console p1 \<noteq> []"
    "last (pn_console p1) = stop_line (pc_of s1) (epoch_of s1)"
    using b(2,3) s1 shown_pc [of "snd (before s)" s1] by auto
  show "views_ok p1" "displays p1 (pc_of s1) (epoch_of s1)"
    using d assms(2) dis c shown_pc [OF s1(3)] by (auto simp: views_ok_def displays_def painted_def)
qed

lemma navigate_shows:
  assumes "trusty s" "views_ok p" "navigate_panels live addr s p = (p1, s1)"
  shows "trusty s1" "epoch_of s1 = epoch_of s" "shown s1 = shown s" "views_ok p1"
    "displays p (pc_of s) (epoch_of s) \<Longrightarrow> displays p1 (pc_of s1) (epoch_of s1)"
proof -
  show s1: "trusty s1" "epoch_of s1 = epoch_of s" "shown s1 = shown s"
    using quietD [OF quiet_navigate assms(1,3)] by auto
  have p1: "p1 = fst (navigate_panels live addr s p)" using assms(3) by simp
  have dis: "pn_disassembly p1 = fst (dis_setBase addr live s (pn_disassembly p))" "pn_console p1 = pn_console p"
    unfolding p1 navigate_panels_def code_view_navigate_def by (simp_all add: case_prod_beta)
  have d: "table_ok (dp_view (pn_disassembly p1))" "painted (dp_view (pn_disassembly p1))"
    "tv_columns (dp_view (pn_disassembly p1)) = 4"
    "tv_current_ip (dp_view (pn_disassembly p1)) = ip_row_of (dp_row_addrs (pn_disassembly p1)) (pc_of s)"
    using dis_refresh_shows [OF assms(1), of "(pn_disassembly p)\<lparr>dp_base := addr\<rparr>" live "pn_disassembly p1"
      "snd (dis_setBase addr live s (pn_disassembly p))"] assms(2) dis(1)
    by (auto simp: dis_setBase_def views_ok_def painted_def)
  then show "views_ok p1" by (simp add: views_ok_def)
  show "displays p (pc_of s) (epoch_of s) \<Longrightarrow> displays p1 (pc_of s1) (epoch_of s1)"
    using d dis(2) s1 shown_pc [OF s1(3)] by (simp add: displays_def)
qed

lemma select_shows:
  assumes "trusty s" "views_ok p" "select_panel v live s p = (p1, s1)"
  shows "trusty s1" "epoch_of s1 = epoch_of s" "shown s1 = shown s" "views_ok p1"
    "displays p (pc_of s) (epoch_of s) \<Longrightarrow> displays p1 (pc_of s1) (epoch_of s1)"
proof -
  show s1: "trusty s1" "epoch_of s1 = epoch_of s" "shown s1 = shown s"
    using quietD [OF quiet_code(3) assms(1,3)] by auto
  have c: "pn_console p1 = pn_console p"
    using assms(3) by (auto simp: select_panel_def case_prod_beta)
  have l: "pn_disassembly p1 = (if v = ViewLinear then fst (dis_refresh live s (pn_disassembly p)) else pn_disassembly p)"
    using assms(3)
    by (auto simp: select_panel_def selectView_def updateReprVisibility_def Let_def case_prod_beta split: view.splits)
  note d = dis_refresh_shows [OF assms(1), of "pn_disassembly p" live "pn_disassembly p1"
    "snd (dis_refresh live s (pn_disassembly p))"]
  have d1: "painted (dp_view (pn_disassembly p1))" "tv_columns (dp_view (pn_disassembly p1)) = 4"
      "tv_current_ip (dp_view (pn_disassembly p1)) = ip_row_of (dp_row_addrs (pn_disassembly p1)) (pc_of s)"
    if "v = ViewLinear" using d l that assms(2) by (auto simp: views_ok_def)
  show "views_ok p1" using d1 l assms(2) by (cases "v = ViewLinear") (auto simp: views_ok_def painted_def)
  show "displays p (pc_of s) (epoch_of s) \<Longrightarrow> displays p1 (pc_of s1) (epoch_of s1)"
    using d1 l c s1(2) shown_pc [OF s1(3)] by (cases "v = ViewLinear") (auto simp: displays_def)
qed

section \<open>The desk\<close>

text \<open>The session the controller holds, as a call through it sees it.\<close>

definition current :: "'c desk \<Rightarrow> 'c handle" where
  "current dk = Option.bind (dk_session dk) (\<lambda>p. map_option ob_session (dk_heap dk p))"

definition heap_ok :: "'c desk \<Rightarrow> bool" where
  "heap_ok dk \<longleftrightarrow>
     (\<forall>q ob. dk_heap dk q = Some ob \<longrightarrow> trusty (Some (ob_session ob)) \<and> q < dk_next dk)"

text \<open>The session the controller holds is the only one on the heap: the others have been destroyed.\<close>

definition one_session :: "'c desk \<Rightarrow> bool" where
  "one_session dk \<longleftrightarrow> (\<forall>q. dk_heap dk q \<noteq> None \<longrightarrow> dk_session dk = Some q)"

lemma one_session_simps [simp]:
  "one_session (dk\<lparr>dk_signals := sg\<rparr>) \<longleftrightarrow> one_session dk"
  "one_session (dk\<lparr>dk_signals := sg, dk_heap := h\<rparr>) \<longleftrightarrow> one_session (dk\<lparr>dk_heap := h\<rparr>)"
  "one_session (dk\<lparr>dk_panels := p\<rparr>) \<longleftrightarrow> one_session dk"
  "one_session (dk\<lparr>dk_docks := ds\<rparr>) \<longleftrightarrow> one_session dk"
  "one_session (dk\<lparr>dk_analyzing := an\<rparr>) \<longleftrightarrow> one_session dk"
  "one_session (dk\<lparr>dk_workers := ws\<rparr>) \<longleftrightarrow> one_session dk"
  "one_session (dk\<lparr>dk_status := st\<rparr>) \<longleftrightarrow> one_session dk"
  "one_session (dk\<lparr>dk_progress := b\<rparr>) \<longleftrightarrow> one_session dk"
  by (simp_all add: one_session_def)

lemma one_session_upd: "one_session dk \<Longrightarrow> dk_session dk = Some p \<Longrightarrow> one_session (dk\<lparr>dk_heap := (dk_heap dk)(p := ob)\<rparr>)"
  by (auto simp: one_session_def)

lemma one_sessionD: "one_session dk \<Longrightarrow> dk_session dk \<noteq> Some q \<Longrightarrow> dk_heap dk q = None"
  by (auto simp: one_session_def)

text \<open>Everything but what the panels show.  A worker may hold a session that has been destroyed.\<close>

definition wired :: "'c desk \<Rightarrow> bool" where
  "wired dk \<longleftrightarrow>
     heap_ok dk \<and> one_session dk \<and> views_ok (dk_panels dk) \<and>
     (\<exists>p ob. dk_session dk = Some p \<and> dk_heap dk p = Some ob \<and> ob_kind ob = dk_kind dk) \<and>
     (\<forall>s. Analysing s \<in> set (dk_workers dk) \<longrightarrow> s < dk_next dk) \<and>
     (dk_analyzing dk \<longleftrightarrow> dk_workers dk \<noteq> []) \<and> length (dk_workers dk) \<le> 1"

text \<open>No worker holds a session that has been destroyed.\<close>

definition workers_safe :: "'c desk \<Rightarrow> bool" where
  "workers_safe dk \<longleftrightarrow> (\<forall>s. Analysing s \<in> set (dk_workers dk) \<longrightarrow> dk_session dk = Some s)"

text \<open>The panels display the current session.\<close>

definition in_sync :: "'c desk \<Rightarrow> bool" where
  "in_sync dk \<longleftrightarrow> displays (dk_panels dk) (pc_of (current dk)) (epoch_of (current dk))"

text \<open>What the window shows of the controller.\<close>

definition framed :: "'c desk \<Rightarrow> bool" where
  "framed dk \<longleftrightarrow> docks_ok (dk_docks dk) \<and> (dk_progress dk \<longleftrightarrow> dk_analyzing dk)"

lemma wired_current:
  "wired dk \<Longrightarrow> \<exists>p ob. dk_session dk = Some p \<and> dk_heap dk p = Some ob \<and> ob_kind ob = dk_kind dk \<and>
     current dk = Some (ob_session ob) \<and> trusty (current dk)"
  by (auto simp: wired_def heap_ok_def current_def)

lemma trusty_Some: "trusty s \<Longrightarrow> \<exists>se. s = Some se"
  by (auto simp: trusty_def session_on_def)

text \<open>A call that keeps the session good leaves everything but the heap as it was.\<close>

lemma call_on_ok:
  assumes "wired dk" "trusty (snd (f (current dk)))"
  shows "\<exists>h. call_on (dk_session dk) f dk = Some (fst (f (current dk)), dk\<lparr>dk_heap := h\<rparr>) \<and>
     wired (dk\<lparr>dk_heap := h\<rparr>) \<and> current (dk\<lparr>dk_heap := h\<rparr>) = snd (f (current dk)) \<and>
     (\<forall>q. dk_heap dk q = None \<longrightarrow> h q = None)"
proof -
  obtain p ob where p: "dk_session dk = Some p" "dk_heap dk p = Some ob" "ob_kind ob = dk_kind dk"
    "current dk = Some (ob_session ob)"
    using wired_current [OF assms(1)] by blast
  obtain se where se: "snd (f (current dk)) = Some se" using trusty_Some [OF assms(2)] by blast
  let ?h = "(dk_heap dk)(p := Some (ob\<lparr>ob_session := se\<rparr>))"
  have "call_on (dk_session dk) f dk = Some (fst (f (current dk)), dk\<lparr>dk_heap := ?h\<rparr>)"
    using p se by (simp add: call_on_def put_session_def case_prod_beta)
  moreover have "wired (dk\<lparr>dk_heap := ?h\<rparr>)"
    using assms p se one_session_upd [of dk p] by (auto simp: wired_def heap_ok_def)
  moreover have "current (dk\<lparr>dk_heap := ?h\<rparr>) = snd (f (current dk))"
    using p se by (simp add: current_def)
  moreover have "\<forall>q. dk_heap dk q = None \<longrightarrow> ?h q = None" using p by auto
  ultimately show ?thesis by blast
qed

lemma wired_panels: "wired dk \<Longrightarrow> views_ok p \<Longrightarrow> wired (dk\<lparr>dk_panels := p\<rparr>)"
  by (simp add: wired_def heap_ok_def)

lemma wired_signals [simp]:
  "wired (dk\<lparr>dk_signals := x\<rparr>) \<longleftrightarrow> wired dk" "current (dk\<lparr>dk_signals := x\<rparr>) = current dk"
  "current (dk\<lparr>dk_panels := p\<rparr>) = current dk"
  "wired (dk\<lparr>dk_signals := x, dk_heap := h\<rparr>) \<longleftrightarrow> wired (dk\<lparr>dk_heap := h\<rparr>)"
  "wired (dk\<lparr>dk_signals := x, dk_heap := h, dk_panels := p\<rparr>) \<longleftrightarrow> wired (dk\<lparr>dk_heap := h, dk_panels := p\<rparr>)"
  "current (dk\<lparr>dk_signals := x, dk_heap := h\<rparr>) = current (dk\<lparr>dk_heap := h\<rparr>)"
  by (simp_all add: wired_def heap_ok_def current_def)

lemma emit_StateChanged:
  assumes "wired dk"
  shows "\<exists>h p. emit StateChanged dk = Some (dk\<lparr>dk_heap := h, dk_panels := p, dk_signals := dk_signals dk @ [StateChanged]\<rparr>) \<and>
     wired (dk\<lparr>dk_heap := h, dk_panels := p, dk_signals := dk_signals dk @ [StateChanged]\<rparr>) \<and>
     in_sync (dk\<lparr>dk_heap := h, dk_panels := p, dk_signals := dk_signals dk @ [StateChanged]\<rparr>) \<and>
     shown (current (dk\<lparr>dk_heap := h\<rparr>)) = shown (current dk) \<and>
     epoch_of (current (dk\<lparr>dk_heap := h\<rparr>)) = epoch_of (current dk) \<and>
     (\<forall>q. dk_heap dk q = None \<longrightarrow> h q = None)"
proof -
  let ?dk = "dk\<lparr>dk_signals := dk_signals dk @ [StateChanged]\<rparr>"
  let ?f = "\<lambda>s. reload_panels (isLive ?dk) s (dk_panels dk)"
  have good: "trusty (current dk)" "views_ok (dk_panels dk)"
    using wired_current [OF assms] assms by (auto simp: wired_def)
  obtain p s1 where r: "?f (current dk) = (p, s1)" by fastforce
  note shown = reload_shows [OF good r]
  obtain h where h: "call_on (dk_session dk) ?f ?dk = Some (p, ?dk\<lparr>dk_heap := h\<rparr>)"
    "wired (?dk\<lparr>dk_heap := h\<rparr>)" "current (?dk\<lparr>dk_heap := h\<rparr>) = s1"
    "\<forall>q. dk_heap dk q = None \<longrightarrow> h q = None"
    using call_on_ok [of ?dk ?f] assms shown(1) r by auto
  show ?thesis
    using h shown wired_panels [OF h(2) shown(4)]
    by (intro exI [of _ h] exI [of _ p]) (simp add: emit_def react_def in_sync_def)
qed

lemma emit_Navigation:
  assumes "wired dk"
  shows "\<exists>h p. emit (NavigationRequested a) dk =
       Some (dk\<lparr>dk_heap := h, dk_panels := p, dk_signals := dk_signals dk @ [NavigationRequested a]\<rparr>) \<and>
     wired (dk\<lparr>dk_heap := h, dk_panels := p, dk_signals := dk_signals dk @ [NavigationRequested a]\<rparr>) \<and>
     (in_sync dk \<longrightarrow> in_sync (dk\<lparr>dk_heap := h, dk_panels := p, dk_signals := dk_signals dk @ [NavigationRequested a]\<rparr>))"
proof -
  let ?dk = "dk\<lparr>dk_signals := dk_signals dk @ [NavigationRequested a]\<rparr>"
  let ?f = "\<lambda>s. navigate_panels (isLive ?dk) a s (dk_panels dk)"
  have good: "trusty (current dk)" "views_ok (dk_panels dk)"
    using wired_current [OF assms] assms by (auto simp: wired_def)
  obtain p s1 where r: "?f (current dk) = (p, s1)" by fastforce
  note shown = navigate_shows [OF good r]
  obtain h where h: "call_on (dk_session dk) ?f ?dk = Some (p, ?dk\<lparr>dk_heap := h\<rparr>)"
    "wired (?dk\<lparr>dk_heap := h\<rparr>)" "current (?dk\<lparr>dk_heap := h\<rparr>) = s1"
    using call_on_ok [of ?dk ?f] assms shown(1) r by auto
  show ?thesis
    using h shown wired_panels [OF h(2) shown(4)]
    by (intro exI [of _ h] exI [of _ p]) (simp add: emit_def react_def in_sync_def)
qed

lemma select_view_ok:
  assumes "wired dk"
  shows "\<exists>h p. select_view v dk = Some (dk\<lparr>dk_heap := h, dk_panels := p\<rparr>) \<and>
     wired (dk\<lparr>dk_heap := h, dk_panels := p\<rparr>) \<and>
     (in_sync dk \<longrightarrow> in_sync (dk\<lparr>dk_heap := h, dk_panels := p\<rparr>)) \<and>
     shown (current (dk\<lparr>dk_heap := h\<rparr>)) = shown (current dk) \<and>
     epoch_of (current (dk\<lparr>dk_heap := h\<rparr>)) = epoch_of (current dk)"
proof -
  let ?f = "\<lambda>s. select_panel v (isLive dk) s (dk_panels dk)"
  have good: "trusty (current dk)" "views_ok (dk_panels dk)"
    using wired_current [OF assms] assms by (auto simp: wired_def)
  obtain p s1 where r: "?f (current dk) = (p, s1)" by fastforce
  note shown = select_shows [OF good r]
  obtain h where h: "call_on (dk_session dk) ?f dk = Some (p, dk\<lparr>dk_heap := h\<rparr>)"
    "wired (dk\<lparr>dk_heap := h\<rparr>)" "current (dk\<lparr>dk_heap := h\<rparr>) = s1"
    using call_on_ok [of dk ?f] assms shown(1) r by auto
  show ?thesis
    using h shown wired_panels [OF h(2) shown(4)]
    by (intro exI [of _ h] exI [of _ p]) (simp add: select_view_def in_sync_def)
qed

text \<open>A query through the controller changes nothing the panels owe.\<close>

lemma call_quiet:
  assumes "wired dk" "quiet f"
  shows "\<exists>h. call_on (dk_session dk) f dk = Some (fst (f (current dk)), dk\<lparr>dk_heap := h\<rparr>) \<and>
     wired (dk\<lparr>dk_heap := h\<rparr>) \<and> (in_sync (dk\<lparr>dk_heap := h\<rparr>) \<longleftrightarrow> in_sync dk) \<and>
     shown (current (dk\<lparr>dk_heap := h\<rparr>)) = shown (current dk) \<and>
     epoch_of (current (dk\<lparr>dk_heap := h\<rparr>)) = epoch_of (current dk)"
proof -
  have "trusty (current dk)" using wired_current [OF assms(1)] by blast
  then have f: "trusty (snd (f (current dk)))" "epoch_of (snd (f (current dk))) = epoch_of (current dk)"
    "shown (snd (f (current dk))) = shown (current dk)"
    using assms(2) by (auto simp: quiet_def)
  from call_on_ok [of dk f, OF assms(1) f(1)] f shown_pc [OF f(3)] show ?thesis
    by (auto simp: in_sync_def)
qed

lemma call_command:
  assumes "wired dk"
  shows "\<exists>h. call_on (dk_session dk) (effect (do_command a)) dk = Some ((), dk\<lparr>dk_heap := h\<rparr>) \<and>
     wired (dk\<lparr>dk_heap := h\<rparr>) \<and> moves_or_keeps (current dk) (current (dk\<lparr>dk_heap := h\<rparr>))"
proof -
  have s: "trusty (current dk)" using wired_current [OF assms] by blast
  from call_on_ok [OF assms, of "effect (do_command a)"] trusty_command [OF s, of a] show ?thesis
    by (auto simp: effect_def)
qed

lemma moved_or_in_sync:
  assumes "moves_or_keeps (current dk) (current dk1)" "dk_panels dk1 = dk_panels dk"
    "epoch_of (current dk1) = epoch_of (current dk)"
  shows "in_sync dk1 \<longleftrightarrow> in_sync dk"
proof -
  have "shown (current dk1) = shown (current dk)" using assms(1,3) by (auto simp: moves_or_keeps_def)
  from shown_pc [OF this] assms show ?thesis by (simp add: in_sync_def)
qed

lemma control_ok:
  assumes "wired dk"
  shows "\<exists>h p sg. control (do_command a) dk = Some (dk\<lparr>dk_heap := h, dk_panels := p, dk_signals := sg\<rparr>) \<and>
     wired (dk\<lparr>dk_heap := h, dk_panels := p, dk_signals := sg\<rparr>) \<and>
     (in_sync dk \<longrightarrow> in_sync (dk\<lparr>dk_heap := h, dk_panels := p, dk_signals := sg\<rparr>))"
proof -
  obtain h1 where 1: "call_on (dk_session dk) irida_state_epoch dk = Some (epoch_of (current dk), dk\<lparr>dk_heap := h1\<rparr>)"
    "wired (dk\<lparr>dk_heap := h1\<rparr>)" "in_sync (dk\<lparr>dk_heap := h1\<rparr>) \<longleftrightarrow> in_sync dk"
    "epoch_of (current (dk\<lparr>dk_heap := h1\<rparr>)) = epoch_of (current dk)"
    using call_quiet [OF assms quiet_queries(7)] by (auto simp: epoch_of_def)
  obtain h2 where 2: "call_on (dk_session dk) (effect (do_command a)) (dk\<lparr>dk_heap := h1\<rparr>) = Some ((), dk\<lparr>dk_heap := h2\<rparr>)"
    "wired (dk\<lparr>dk_heap := h2\<rparr>)" "moves_or_keeps (current (dk\<lparr>dk_heap := h1\<rparr>)) (current (dk\<lparr>dk_heap := h2\<rparr>))"
    using call_command [OF 1(2), of a] by auto
  obtain h3 where 3: "call_on (dk_session dk) irida_state_epoch (dk\<lparr>dk_heap := h2\<rparr>) =
      Some (epoch_of (current (dk\<lparr>dk_heap := h2\<rparr>)), dk\<lparr>dk_heap := h3\<rparr>)"
    "wired (dk\<lparr>dk_heap := h3\<rparr>)" "in_sync (dk\<lparr>dk_heap := h3\<rparr>) \<longleftrightarrow> in_sync (dk\<lparr>dk_heap := h2\<rparr>)"
    using call_quiet [OF 2(2) quiet_queries(7)] by (auto simp: epoch_of_def)
  have c: "control (do_command a) dk =
      (if epoch_of (current (dk\<lparr>dk_heap := h2\<rparr>)) \<noteq> epoch_of (current dk) then emit StateChanged (dk\<lparr>dk_heap := h3\<rparr>)
       else Some (dk\<lparr>dk_heap := h3\<rparr>))"
    using 1(1) 2(1) 3(1) by (simp add: control_def afterOp_def)
  show ?thesis
  proof (cases "epoch_of (current (dk\<lparr>dk_heap := h2\<rparr>)) = epoch_of (current dk)")
    case True
    then have "in_sync (dk\<lparr>dk_heap := h3\<rparr>) \<longleftrightarrow> in_sync dk"
      using 1(3,4) 3(3) moved_or_in_sync [OF 2(3)] by simp
    with True c 3(2) show ?thesis
      by (intro exI [of _ h3] exI [of _ "dk_panels dk"] exI [of _ "dk_signals dk"]) simp
  next
    case False
    with c emit_StateChanged [OF 3(2)] show ?thesis by fastforce
  qed
qed

section \<open>Every event keeps the desk in order\<close>

definition desk_inv :: "'c desk \<Rightarrow> bool" where
  "desk_inv dk \<longleftrightarrow> wired dk \<and> framed dk \<and> (in_sync dk \<or> Finished \<in> set (dk_workers dk))"

definition creates_trusty :: "(u32 \<Rightarrow> 'c handle) \<Rightarrow> bool" where
  "creates_trusty create \<longleftrightarrow> (\<forall>pid se. create pid = Some se \<longrightarrow> trusty (Some se))"

lemma framed_simps [simp]:
  "framed (dk\<lparr>dk_heap := h, dk_panels := p, dk_signals := sg\<rparr>) \<longleftrightarrow> framed dk"
  "framed (dk\<lparr>dk_heap := h\<rparr>) \<longleftrightarrow> framed dk"
  "framed (dk\<lparr>dk_heap := h, dk_panels := p\<rparr>) \<longleftrightarrow> framed dk"
  by (simp_all add: framed_def isLive_def)

lemma refresh_inv: "wired dk \<Longrightarrow> framed dk \<Longrightarrow> \<exists>dk1. emit StateChanged dk = Some dk1 \<and> desk_inv dk1"
  using emit_StateChanged [of dk] by (fastforce simp: desk_inv_def)

lemma control_inv: "desk_inv dk \<Longrightarrow> \<exists>dk1. control (do_command a) dk = Some dk1 \<and> desk_inv dk1"
  using control_ok [of dk a] by (fastforce simp: desk_inv_def)

lemma bp_inv:
  "desk_inv dk \<Longrightarrow>
   \<exists>dk1. Option.bind (call_on (dk_session dk) (effect (do_command a)) dk) (\<lambda>(_, dk1). emit StateChanged dk1) =
     Some dk1 \<and> desk_inv dk1"
proof -
  assume inv: "desk_inv dk"
  then obtain h where "call_on (dk_session dk) (effect (do_command a)) dk = Some ((), dk\<lparr>dk_heap := h\<rparr>)"
    "wired (dk\<lparr>dk_heap := h\<rparr>)"
    using call_command [of dk a] by (auto simp: desk_inv_def)
  with refresh_inv [of "dk\<lparr>dk_heap := h\<rparr>"] inv show ?thesis by (simp add: desk_inv_def)
qed

lemma navigate_inv: "desk_inv dk \<Longrightarrow> \<exists>dk1. navigateTo a dk = Some dk1 \<and> desk_inv dk1"
  using emit_Navigation [of dk a] by (fastforce simp: desk_inv_def navigateTo_def)

lemma select_view_inv: "desk_inv dk \<Longrightarrow> \<exists>dk1. select_view v dk = Some dk1 \<and> desk_inv dk1"
  using select_view_ok [of dk v] by (fastforce simp: desk_inv_def)

lemma docks_inv:
  assumes "desk_inv dk"
  shows "desk_inv (dk\<lparr>dk_docks := toggleDock n (dk_docks dk)\<rparr>)"
    "desk_inv (dk\<lparr>dk_docks := resetLayout live (dk_docks dk)\<rparr>)"
  using assms docks_ok_ops(3) [of "dk_docks dk" n] docks_ok_ops(5) [of "dk_docks dk" live]
  by (auto simp: desk_inv_def wired_def heap_ok_def framed_def in_sync_def current_def)

lemma runAnalysis_inv:
  assumes "desk_inv dk"
  shows "\<exists>dk1. runAnalysis dk = Some dk1 \<and> desk_inv dk1"
proof (cases "dk_analyzing dk")
  case True
  with assms show ?thesis by (auto simp: runAnalysis_def desk_inv_def split: option.split)
next
  case False
  obtain p where p: "dk_session dk = Some p" using assms by (auto simp: desk_inv_def wired_def)
  with False assms show ?thesis
    by (auto simp: runAnalysis_def emit_def react_def desk_inv_def wired_def heap_ok_def framed_def isLive_def
        in_sync_def current_def)
qed

lemma wired_workers:
  "wired dk \<Longrightarrow> set ws \<subseteq> set (dk_workers dk) \<union> {Finished} \<Longrightarrow> length ws \<le> 1 \<Longrightarrow> an \<longleftrightarrow> ws \<noteq> [] \<Longrightarrow>
   wired (dk\<lparr>dk_analyzing := an, dk_workers := ws\<rparr>)"
  by (auto simp: wired_def heap_ok_def)

lemma worker_runs_inv:
  fixes dk :: "'c desk"
  assumes "desk_inv dk"
  shows "(\<exists>dk1. worker_runs i dk = Some dk1 \<and> desk_inv dk1) \<or> worker_runs i dk = None \<and> \<not> workers_safe dk"
proof (cases "i < length (dk_workers dk) \<and> dk_workers dk ! i \<noteq> Finished")
  case False
  with assms show ?thesis by (auto simp: worker_runs_def split: worker.split)
next
  case live: True
  then obtain s where s: "dk_workers dk ! i = Analysing s" by (cases "dk_workers dk ! i") auto
  show ?thesis
  proof (cases "dk_session dk = Some s")
    case False
    then have "dk_heap dk s = None"
      using assms one_sessionD by (auto simp: desk_inv_def wired_def)
    moreover have "Analysing s \<in> set (dk_workers dk)" using live s by (metis nth_mem)
    ultimately show ?thesis using s live False by (auto simp: worker_runs_def call_on_def workers_safe_def)
  next
    case True
    with live s assms have w: "dk_session dk = Some s" "wired dk" "framed dk" "dk_analyzing dk"
      by (auto simp: desk_inv_def wired_def)
    have analyze: "effect (do_command CAnalyze) = (effect irida_analyze :: 'c handle \<Rightarrow> _)" by (simp add: effect_def fun_eq_iff)
    obtain h where h: "call_on (Some s) (effect irida_analyze) dk = Some ((), dk\<lparr>dk_heap := h\<rparr>)" "wired (dk\<lparr>dk_heap := h\<rparr>)"
      using call_command [OF w(2), of CAnalyze] w(1) analyze by auto
    let ?ws = "(dk_workers dk)[i := Finished]"
    have "wired (dk\<lparr>dk_heap := h, dk_analyzing := True, dk_workers := ?ws\<rparr>)"
      using wired_workers [OF h(2), of ?ws True] w live
      by (auto simp: wired_def dest: set_update_subset_insert [THEN subsetD])
    then have "wired (dk\<lparr>dk_heap := h, dk_workers := ?ws\<rparr>)" using w(4) by (simp add: wired_def heap_ok_def)
    moreover have "Finished \<in> set ?ws" using live by (auto simp: set_update_memI)
    moreover have "framed (dk\<lparr>dk_heap := h, dk_workers := ?ws\<rparr>)" using w(3) by (simp add: framed_def isLive_def)
    ultimately show ?thesis using h(1) s live by (auto simp: worker_runs_def desk_inv_def)
  qed
qed

lemma worker_finished_inv:
  assumes "desk_inv dk"
  shows "\<exists>dk1. worker_finished i dk = Some dk1 \<and> desk_inv dk1"
proof (cases "i < length (dk_workers dk) \<and> dk_workers dk ! i = Finished")
  case False
  with assms show ?thesis by (auto simp: worker_finished_def)
next
  case True
  with assms have ws: "dk_workers dk = [Finished]" and i: "i = 0"
    by (cases "dk_workers dk"; auto simp: desk_inv_def wired_def)+
  let ?dk = "dk\<lparr>dk_analyzing := False, dk_workers := [], dk_signals := dk_signals dk @ [AnalysisFinished]\<rparr>"
  have "wired ?dk" using assms ws by (simp add: desk_inv_def wired_def heap_ok_def)
  from call_quiet [OF this quiet_queries(15)] obtain h where
    h: "call_on (dk_session dk) (irida_functions True) ?dk =
      Some (fst (irida_functions True (current ?dk)), ?dk\<lparr>dk_heap := h\<rparr>)" "wired (?dk\<lparr>dk_heap := h\<rparr>)"
    by auto
  let ?dk1 = "?dk\<lparr>dk_heap := h, dk_status := finished_text (length (fst (irida_functions True (current ?dk)))),
    dk_progress := False\<rparr>"
  have e: "emit AnalysisFinished (dk\<lparr>dk_analyzing := False, dk_workers := drop_nth i (dk_workers dk)\<rparr>) = Some ?dk1"
    using h(1) ws i by (simp add: emit_def react_def drop_nth_def)
  have "wired ?dk1" using h(2) by (simp add: wired_def heap_ok_def)
  moreover have "framed ?dk1" using assms by (simp add: desk_inv_def framed_def isLive_def)
  ultimately show ?thesis using refresh_inv [of ?dk1] e True by (simp add: worker_finished_def)
qed

text \<open>Swapping the session: the old one is gone from the heap whatever the workers were doing.\<close>

definition swapped :: "'c session \<Rightarrow> ptr \<Rightarrow> 'c desk \<Rightarrow> 'c desk" where
  "swapped se p dk =
     dk\<lparr>dk_next := Suc (dk_next dk),
        dk_heap := (dk_heap dk)(p := None, dk_next dk := Some \<lparr>ob_session = se, ob_kind = Native\<rparr>),
        dk_session := Some (dk_next dk), dk_kind := Native\<rparr>"

lemma setSession_eq:
  assumes "wired dk" "dk_session dk = Some p"
  shows "(case alloc se Native dk of (q, dk1) \<Rightarrow> setSession (Some q) Native dk1) =
     Option.bind (if dk_kind dk \<noteq> Native then emit SessionKindChanged (swapped se p dk) else Some (swapped se p dk))
       (emit StateChanged)"
proof -
  obtain ob where "dk_heap dk p = Some ob" "ob_kind ob = dk_kind dk" "p < dk_next dk"
    using assms by (auto simp: wired_def heap_ok_def)
  with assms(2) show ?thesis
    by (auto simp: alloc_def setSession_def destroySession_def swapped_def fun_upd_twist)
qed

lemma swapped_wired:
  assumes "wired dk" "dk_session dk = Some p" "trusty (Some se)"
  shows "wired (swapped se p dk)"
proof -
  have "one_session (swapped se p dk)"
    using assms(1,2) by (auto simp: wired_def one_session_def swapped_def)
  then show ?thesis using assms by (auto simp: wired_def heap_ok_def swapped_def less_Suc_eq)
qed

lemma setSession_inv:
  assumes inv: "desk_inv dk" and p: "dk_session dk = Some p" and se: "trusty (Some se)"
  shows "\<exists>dk1. (case alloc se Native dk of (q, dk1) \<Rightarrow> setSession (Some q) Native dk1) = Some dk1 \<and> desk_inv dk1"
proof -
  have w: "wired (swapped se p dk)" using inv p se swapped_wired by (auto simp: desk_inv_def)
  have d: "(case alloc se Native dk of (q, dk1) \<Rightarrow> setSession (Some q) Native dk1) =
      Option.bind (if dk_kind dk \<noteq> Native then emit SessionKindChanged (swapped se p dk) else Some (swapped se p dk))
        (emit StateChanged)"
    by (rule setSession_eq) (use inv p in \<open>auto simp: desk_inv_def\<close>)
  show ?thesis
  proof (cases "dk_kind dk = Native")
    case True
    then have "framed (swapped se p dk)" using inv by (simp add: desk_inv_def framed_def isLive_def swapped_def)
    with d True refresh_inv [OF w] show ?thesis by simp
  next
    case False
    let ?dk1 = "applyDebugDockVisibility ((swapped se p dk)\<lparr>dk_signals := dk_signals dk @ [SessionKindChanged]\<rparr>)"
    have "wired ?dk1" using w by (simp add: applyDebugDockVisibility_def wired_def heap_ok_def)
    moreover have "framed ?dk1"
      using inv by (simp add: applyDebugDockVisibility_def desk_inv_def framed_def swapped_def docks_ok_ops)
    ultimately show ?thesis using d False refresh_inv [of ?dk1] by (simp add: emit_def react_def swapped_def)
  qed
qed

text \<open>
  An event of an open window keeps the invariant; only a worker that holds a destroyed session can fail.
\<close>

lemma do_event_inv:
  assumes "desk_inv dk" "ev \<noteq> EClose" "creates_trusty create"
  shows "(\<exists>dk1. do_event create ev dk = Some dk1 \<and> desk_inv dk1) \<or> do_event create ev dk = None \<and> \<not> workers_safe dk"
proof -
  have c: "irida_step_into = do_command CStepInto" "irida_step_over = do_command CStepOver"
    "irida_step_out = do_command CStepOut" "irida_continue = do_command CContinue"
    "irida_break = do_command CBreak" "irida_restart = do_command CRestart" "irida_stop = do_command CStop"
    "irida_bp_toggle a = do_command (CBpToggle a)" "irida_bp_set_enabled a on = do_command (CBpSetEnabled a on)" for a on
    by (auto simp: fun_eq_iff)
  have controls: "\<exists>dk1. stepInto dk = Some dk1 \<and> desk_inv dk1" "\<exists>dk1. stepOver dk = Some dk1 \<and> desk_inv dk1"
    "\<exists>dk1. stepOut dk = Some dk1 \<and> desk_inv dk1" "\<exists>dk1. run dk = Some dk1 \<and> desk_inv dk1"
    "\<exists>dk1. breakExec dk = Some dk1 \<and> desk_inv dk1" "\<exists>dk1. restart dk = Some dk1 \<and> desk_inv dk1"
    "\<exists>dk1. stop dk = Some dk1 \<and> desk_inv dk1"
    unfolding stepInto_def stepOver_def stepOut_def run_def breakExec_def restart_def stop_def c
    by (rule control_inv [OF assms(1)])+
  have bps: "\<exists>dk1. toggleBreakpoint a dk = Some dk1 \<and> desk_inv dk1"
    "\<exists>dk1. setBreakpointEnabled a on dk = Some dk1 \<and> desk_inv dk1" for a on
    unfolding toggleBreakpoint_def setBreakpointEnabled_def c by (rule bp_inv [OF assms(1)])+
  have refresh: "\<exists>dk1. refreshViews dk = Some dk1 \<and> desk_inv dk1"
    unfolding refreshViews_def by (rule refresh_inv) (use assms(1) in \<open>simp_all add: desk_inv_def\<close>)
  have attach: "\<exists>dk1. attachToProcess create accepted pid dk = Some dk1 \<and> desk_inv dk1"
    if "ev = EAttach accepted pid" for accepted pid
  proof -
    obtain p where p: "dk_session dk = Some p" using assms(1) by (auto simp: desk_inv_def wired_def)
    show ?thesis
    proof (cases "accepted \<and> pid \<noteq> 0 \<and> create pid \<noteq> None")
      case True
      then obtain se where se: "create pid = Some se" by auto
      then have "trusty (Some se)" using assms(3) by (auto simp: creates_trusty_def)
      from setSession_inv [OF assms(1) p this] that True se show ?thesis
        by (simp add: attachToProcess_def)
    next
      case False
      with assms(1) show ?thesis by (auto simp: attachToProcess_def)
    qed
  qed
  show ?thesis
    using docks_inv [OF assms(1)] assms(2) worker_runs_inv [OF assms(1)]
    by (cases ev) (simp_all add: controls bps refresh attach navigate_inv [OF assms(1)] select_view_inv [OF assms(1)] runAnalysis_inv [OF assms(1)]
        worker_finished_inv [OF assms(1)])
qed

lemma desk_init_inv:
  assumes "trusty (Some se)"
  shows "wired (desk_init E se kind)" "framed (desk_init E se kind)" "current (desk_init E se kind) = Some se"
  using assms
  by (auto simp: one_session_def desk_init_def applyDebugDockVisibility_def wired_def heap_ok_def views_ok_def table_ok_def
      panels_init_def code_view_init_def dis_panel_init_def table_view_init_def rowCount_def framed_def docks_ok_ops
      current_def)

lemma desk_init_fields [simp]:
  "dk_workers (desk_init E se kind) = []" "dk_kind (desk_init E se kind) = kind"
  "dk_session (desk_init E se kind) = Some 0" "dk_next (desk_init E se kind) = 1"
  "dk_analyzing (desk_init E se kind) = False"
  by (simp_all add: desk_init_def applyDebugDockVisibility_def)

lemma window_opens_idle:
  assumes "trusty (Some se)"
  obtains dk where "window_opens E False se kind = Some dk" "desk_inv dk" "dk_workers dk = []"
    "dk_kind dk = kind" "dk_session dk = Some 0" "dk_next dk = 1" "\<not> dk_analyzing dk"
    "pc_of (current dk) = pc_of (Some se)" "epoch_of (current dk) = epoch_of (Some se)"
    "window_opens E True se kind = runAnalysis dk"
proof -
  let ?i = "desk_init E se kind"
  obtain h p where v: "select_view ViewLinear ?i = Some (?i\<lparr>dk_heap := h, dk_panels := p\<rparr>)"
    and w: "wired (?i\<lparr>dk_heap := h, dk_panels := p\<rparr>)"
    and i: "shown (current (?i\<lparr>dk_heap := h\<rparr>)) = shown (Some se)" "epoch_of (current (?i\<lparr>dk_heap := h\<rparr>)) = epoch_of (Some se)"
    using select_view_ok [OF desk_init_inv(1) [OF assms, of E kind], of ViewLinear] desk_init_inv(3) [OF assms, of E kind]
    by auto
  let ?dk = "?i\<lparr>dk_heap := h, dk_panels := p\<rparr>"
  have fr: "framed ?dk" using desk_init_inv(2) [OF assms] by simp
  obtain h1 p1 where e: "emit StateChanged ?dk =
      Some (?dk\<lparr>dk_heap := h1, dk_panels := p1, dk_signals := dk_signals ?dk @ [StateChanged]\<rparr>)"
    and s: "shown (current (?dk\<lparr>dk_heap := h1\<rparr>)) = shown (Some se)"
      "epoch_of (current (?dk\<lparr>dk_heap := h1\<rparr>)) = epoch_of (Some se)"
    using emit_StateChanged [OF w] i by auto
  let ?dk1 = "?dk\<lparr>dk_heap := h1, dk_panels := p1, dk_signals := dk_signals ?dk @ [StateChanged]\<rparr>"
  have "desk_inv ?dk1" using refresh_inv [OF w fr] e by auto
  moreover have "window_opens E False se kind = Some ?dk1" "window_opens E True se kind = runAnalysis ?dk1"
    using v e by (simp_all add: window_opens_def first_show_def refreshViews_def)
  moreover have "current ?dk1 = current (?dk\<lparr>dk_heap := h1\<rparr>)" by (simp add: current_def)
  then have "pc_of (current ?dk1) = pc_of (Some se)" "epoch_of (current ?dk1) = epoch_of (Some se)"
    using shown_pc [OF s(1)] s(2) by simp_all
  ultimately show ?thesis by (intro that [of ?dk1]) simp_all
qed

lemma window_opens_inv:
  assumes "trusty (Some se)"
  shows "\<exists>dk. window_opens E autoAnalyze se kind = Some dk \<and> desk_inv dk"
proof -
  obtain dk where "window_opens E False se kind = Some dk" "desk_inv dk" "window_opens E True se kind = runAnalysis dk"
    using window_opens_idle [OF assms, of E kind] .
  with runAnalysis_inv [of dk] show ?thesis by (cases autoAnalyze) auto
qed

lemma desk_run_inv:
  "desk_run allowed creates se kind dk \<Longrightarrow> trusty (Some se) \<Longrightarrow> \<forall>create. creates create \<longrightarrow> creates_trusty create \<Longrightarrow> desk_inv dk"
proof (induction rule: desk_run.induct)
  case (shown E autoAnalyze dk)
  from window_opens_inv [OF shown(2), of E autoAnalyze kind] shown(1) show ?case by auto
next
  case (event dk create ev dk1)
  have "desk_inv dk" "creates_trusty create" using event by simp_all
  from do_event_inv [OF this(1) event.hyps(4) this(2)] event.hyps(5) show ?case by auto
qed

lemma ip_row_iff:
  "i < length as \<Longrightarrow> int i = ip_row_of as pc \<longleftrightarrow> as ! i = pc \<and> pc \<notin> set (drop (Suc i) as)"
proof -
  assume i: "i < length as"
  consider "ip_row_of as pc = - 1" "pc \<notin> set as"
    | j where "j < length as" "ip_row_of as pc = int j" "as ! j = pc" "pc \<notin> set (drop (Suc j) as)"
    using ip_row_of_cases [of as pc] by blast
  then show ?thesis
  proof cases
    case 1
    with i show ?thesis by (auto dest: nth_mem)
  next
    case (2 j)
    have later: "as ! k \<in> set (drop (Suc l) as)" if "l < k" "k < length as" for k l
      using that nth_mem [of "k - Suc l" "drop (Suc l) as"] by simp
    show ?thesis using 2 i later [of i j] later [of j i] by (cases i j rule: linorder_cases) auto
  qed
qed

definition mock_session :: "mock_state session" where
  "mock_session = \<lparr>ss_vt = kVTable, ss_ctx = mock_state_init\<rparr>"

lemma mock_session_trusty: "trusty (Some mock_session)"
  unfolding trusty_def session_on_def mock_session_def using mock.epoch_frontend_axioms by blast

lemma mock_session_shown: "pc_of (Some mock_session) = 0x7FF751FA2440" "epoch_of (Some mock_session) = 1"
  by (simp_all add: mock_session_def pc_of_def api_defs kVTable_def mock_pc_def mock_epoch_def mock_state_init_def
      stream_address_def kStream_def)



section \<open>What operations leave alone\<close>

text \<open>
  No operation on the session touches a dock, the kind of the session, which session the controller
  holds or which workers there are; attaching changes the first three, an analysis the last.
\<close>

definition same_frame :: "'c desk \<Rightarrow> 'c desk \<Rightarrow> bool" where
  "same_frame dk dk1 \<longleftrightarrow> dk_docks dk1 = dk_docks dk \<and> dk_kind dk1 = dk_kind dk \<and>
     dk_session dk1 = dk_session dk \<and> dk_workers dk1 = dk_workers dk"

lemma same_frame_refl [simp]: "same_frame dk dk"
  by (simp add: same_frame_def)

lemma same_frame_trans: "same_frame a b \<Longrightarrow> same_frame b c \<Longrightarrow> same_frame a c"
  by (simp add: same_frame_def)

lemma same_frame_simps [simp]:
  "same_frame dk (d\<lparr>dk_panels := p\<rparr>) \<longleftrightarrow> same_frame dk d"
  "same_frame dk (d\<lparr>dk_status := st\<rparr>) \<longleftrightarrow> same_frame dk d"
  "same_frame dk (d\<lparr>dk_progress := b\<rparr>) \<longleftrightarrow> same_frame dk d"
  "same_frame (dk\<lparr>dk_signals := sg\<rparr>) d \<longleftrightarrow> same_frame dk d"
  "same_frame (dk\<lparr>dk_analyzing := an\<rparr>) d \<longleftrightarrow> same_frame dk d"
  "same_frame dk (dk\<lparr>dk_signals := sg\<rparr>)"
  by (simp_all add: same_frame_def)

lemma call_on_frame: "call_on p f dk = Some (r, dk1) \<Longrightarrow> same_frame dk dk1"
  by (auto simp: call_on_def put_session_def same_frame_def split: option.splits prod.splits)

lemma emit_frame: "emit sig dk = Some dk1 \<Longrightarrow> sig \<noteq> SessionKindChanged \<Longrightarrow> same_frame dk dk1"
  by (cases sig) (auto simp: emit_def react_def dest!: call_on_frame)

lemma emit_kind_frame:
  "emit SessionKindChanged dk = Some dk1 \<Longrightarrow> dk_kind dk1 = dk_kind dk \<and> dk_session dk1 = dk_session dk \<and>
     dk_workers dk1 = dk_workers dk \<and> dk_docks dk1 = showDebugDocks (isLive dk) (dk_docks dk)"
  by (auto simp: emit_def react_def applyDebugDockVisibility_def isLive_def)

lemma control_frame: "control f dk = Some dk1 \<Longrightarrow> same_frame dk dk1"
  by (auto simp: control_def afterOp_def bind_eq_Some_conv dest!: call_on_frame emit_frame
      intro: same_frame_trans split: if_splits)

lemma quiet_frame:
  "navigateTo a dk = Some dk1 \<Longrightarrow> same_frame dk dk1"
  "refreshViews dk = Some dk1 \<Longrightarrow> same_frame dk dk1"
  "select_view v dk = Some dk1 \<Longrightarrow> same_frame dk dk1"
  "toggleBreakpoint a dk = Some dk1 \<Longrightarrow> same_frame dk dk1"
  "setBreakpointEnabled a on dk = Some dk1 \<Longrightarrow> same_frame dk dk1"
  by (auto simp: navigateTo_def refreshViews_def select_view_def toggleBreakpoint_def setBreakpointEnabled_def
      bind_eq_Some_conv dest!: call_on_frame emit_frame intro: same_frame_trans)

lemma controls_frame:
  "stepInto dk = Some dk1 \<Longrightarrow> same_frame dk dk1" "stepOver dk = Some dk1 \<Longrightarrow> same_frame dk dk1"
  "stepOut dk = Some dk1 \<Longrightarrow> same_frame dk dk1" "run dk = Some dk1 \<Longrightarrow> same_frame dk dk1"
  "breakExec dk = Some dk1 \<Longrightarrow> same_frame dk dk1" "restart dk = Some dk1 \<Longrightarrow> same_frame dk dk1"
  "stop dk = Some dk1 \<Longrightarrow> same_frame dk dk1"
  by (auto simp: stepInto_def stepOver_def stepOut_def run_def breakExec_def restart_def stop_def dest: control_frame)

lemma setSession_frame:
  "setSession q kind dk = Some dk1 \<Longrightarrow> dk_kind dk1 = kind \<and> dk_session dk1 = q \<and> dk_workers dk1 = dk_workers dk \<and>
     dk_docks dk1 = (if kind \<noteq> dk_kind dk then showDebugDocks (kind = Native) (dk_docks dk) else dk_docks dk)"
  by (auto simp: setSession_def destroySession_def Let_def bind_eq_Some_conv isLive_def same_frame_def
      dest!: emit_kind_frame emit_frame [of StateChanged] split: option.splits if_splits)

lemma attach_frame:
  "attachToProcess create accepted pid dk = Some dk1 \<Longrightarrow> dk_workers dk1 = dk_workers dk \<and>
     dk_docks dk1 = (if dk_kind dk1 \<noteq> dk_kind dk then showDebugDocks (dk_kind dk1 = Native) (dk_docks dk) else dk_docks dk)"
  by (auto simp: attachToProcess_def alloc_def dest!: setSession_frame split: option.splits if_splits)

lemma runAnalysis_frame:
  "runAnalysis dk = Some dk1 \<Longrightarrow> dk_docks dk1 = dk_docks dk \<and> dk_kind dk1 = dk_kind dk \<and> dk_session dk1 = dk_session dk \<and>
     set (dk_workers dk1) \<subseteq> set (dk_workers dk) \<union> Analysing ` set_option (dk_session dk)"
  by (auto simp: runAnalysis_def same_frame_def dest!: emit_frame split: option.splits if_splits)

lemma worker_runs_frame:
  "worker_runs i dk = Some dk1 \<Longrightarrow> dk_docks dk1 = dk_docks dk \<and> dk_kind dk1 = dk_kind dk \<and> dk_session dk1 = dk_session dk \<and>
     set (dk_workers dk1) \<subseteq> set (dk_workers dk) \<union> {Finished}"
  by (auto simp: worker_runs_def same_frame_def dest!: call_on_frame set_update_subset_insert [THEN subsetD]
      split: if_splits worker.splits)

lemma set_drop_nth: "set (drop_nth i xs) \<subseteq> set xs"
  by (auto simp: drop_nth_def dest: in_set_takeD in_set_dropD)

lemma worker_finished_frame:
  assumes "worker_finished i dk = Some dk1"
  shows "dk_docks dk1 = dk_docks dk \<and> dk_kind dk1 = dk_kind dk \<and> dk_session dk1 = dk_session dk \<and>
     set (dk_workers dk1) \<subseteq> set (dk_workers dk)"
  using assms set_drop_nth [of i "dk_workers dk"]
  by (auto simp: worker_finished_def bind_eq_Some_conv same_frame_def dest!: emit_frame split: if_splits)

lemma destroySession_frame:
  "destroySession dk = Some dk1 \<Longrightarrow> dk_docks dk1 = dk_docks dk \<and> dk_kind dk1 = dk_kind dk \<and> dk_workers dk1 = dk_workers dk"
  by (auto simp: destroySession_def split: option.splits if_splits)

section \<open>Workers and sessions\<close>

text \<open>A calm user never lets a worker hold a session that has been destroyed.\<close>

lemma safe_mono:
  "workers_safe dk \<Longrightarrow> dk_session dk1 = dk_session dk \<Longrightarrow>
   set (dk_workers dk1) \<subseteq> set (dk_workers dk) \<union> {Finished} \<union> Analysing ` set_option (dk_session dk) \<Longrightarrow> workers_safe dk1"
  by (fastforce simp: workers_safe_def elem_set)

lemma safe_frame: "same_frame dk dk1 \<Longrightarrow> workers_safe dk \<Longrightarrow> workers_safe dk1"
  by (simp add: same_frame_def workers_safe_def)

lemma safe_step:
  assumes "workers_safe dk" "calm ev dk" "ev \<noteq> EClose" "do_event create ev dk = Some dk1"
  shows "workers_safe dk1"
proof (cases ev)
  case (EAttach accepted pid)
  have "dk_workers dk1 = dk_workers dk" using assms(4) attach_frame [of create accepted pid] by (simp add: EAttach)
  then show ?thesis using assms(2) by (auto simp: calm_def EAttach workers_safe_def)
next
  case EAnalyze
  then show ?thesis using safe_mono [OF assms(1), of dk1] assms(4) runAnalysis_frame [of dk dk1] by auto
next
  case (EWorkerRuns i)
  then show ?thesis using safe_mono [OF assms(1), of dk1] assms(4) worker_runs_frame [of i dk dk1] by auto
next
  case (EWorkerFinished i)
  then show ?thesis using safe_mono [OF assms(1), of dk1] assms(4) worker_finished_frame [of i dk dk1] by auto
next
  case (EToggleDock n)
  then show ?thesis using assms(1,4) by (auto simp: workers_safe_def)
next
  case EResetLayout
  then show ?thesis using assms(1,4) by (auto simp: workers_safe_def)
qed (use assms(3,4) safe_frame [OF _ assms(1), of dk1] in \<open>auto dest: controls_frame quiet_frame\<close>)

lemma desk_run_safe: "desk_run calm creates se kind dk \<Longrightarrow> trusty (Some se) \<Longrightarrow> workers_safe dk"
proof (induction rule: desk_run.induct)
  case (shown E autoAnalyze dk)
  obtain dk0 where dk0: "window_opens E False se kind = Some dk0" "dk_workers dk0 = []"
    "window_opens E True se kind = runAnalysis dk0"
    using window_opens_idle [OF shown(2), of E kind] by metis
  then have "workers_safe dk0" by (simp add: workers_safe_def)
  with dk0 shown(1) runAnalysis_frame [of dk0 dk] safe_mono [of dk0 dk] show ?case by (cases autoAnalyze) auto
next
  case (event dk create ev dk1)
  then show ?case using safe_step by blast
qed

text \<open>Closing the window: the last session is destroyed, the workers are not asked.\<close>

lemma closeWindow_ok:
  assumes "desk_inv dk"
  obtains dk1 where "closeWindow dk = Some dk1" "dk_session dk1 = None" "dk_heap dk1 = (\<lambda>_. None)"
    "dk_workers dk1 = dk_workers dk" "dk_layout dk1 = closeEvent (dk_docks dk)"
proof -
  obtain p ob where p: "dk_session dk = Some p" "dk_heap dk p = Some ob" "ob_kind ob = dk_kind dk"
    using assms by (auto simp: desk_inv_def wired_def)
  have "(dk_heap dk)(p := None) = (\<lambda>_. None)"
    using assms p(1) one_sessionD [of dk] by (auto simp: desk_inv_def wired_def fun_eq_iff)
  with p that show thesis by (simp add: closeWindow_def controller_destroyed_def destroySession_def)
qed

lemma late_worker:
  assumes "dk_heap dk = (\<lambda>_. None)"
  shows "worker_runs i dk = (if i < length (dk_workers dk) \<and> dk_workers dk ! i \<noteq> Finished then None else Some dk)"
  using assms by (auto simp: worker_runs_def call_on_def split: worker.split)

section \<open>Properties\<close>

text \<open>However the user steps, runs, sets breakpoints, navigates, analyses and attaches, and whenever the
  worker thread runs, the window shows the session it holds: the marked row of the code view is
  the last one at the program counter (none if it is not listed), the newest console line names
  program counter and epoch, and the progress bar runs exactly while an analysis does.  Only between the end of a worker and its
  notification may the panels be behind.  Attaching while a worker analyses is among the events: the run
  then goes on until that worker uses the session that was destroyed.\<close>

theorem window_follows_session:
  assumes "trusty (Some se)" "\<forall>create. creates create \<longrightarrow> creates_trusty create"
    and "desk_run any_event creates se kind dk" "Finished \<notin> set (dk_workers dk)"
  shows "let dis = pn_disassembly (dk_panels dk); pc = fst (irida_pc (current dk));
           epoch = fst (irida_state_epoch (current dk))
     in (\<forall>row < length (dp_row_addrs dis). isCurrentIpRow (dp_view dis) row \<longleftrightarrow>
           dp_row_addrs dis ! row = pc \<and> pc \<notin> set (drop (Suc row) (dp_row_addrs dis))) \<and>
        last (pn_console (dk_panels dk)) = stop_line pc epoch \<and>
        (dk_progress dk \<longleftrightarrow> dk_analyzing dk)"
  using desk_run_inv [OF assms(3,1,2)] assms(4)
  by (auto simp: desk_inv_def in_sync_def displays_def isCurrentIpRow_def ip_row_iff pc_of_def epoch_of_def
      framed_def isLive_def)

theorem window_follows_session_witness:
  "\<exists>dk. desk_run any_event (\<lambda>create. create = (\<lambda>_. None)) mock_session Mock dk \<and>
     last (pn_console (dk_panels dk)) = stop_line 0x7FF751FA2440 1"
proof -
  obtain dk where dk: "window_opens E False mock_session Mock = Some dk" "dk_workers dk = []"
    "dk_kind dk = Mock" "pc_of (current dk) = pc_of (Some mock_session)"
    "epoch_of (current dk) = epoch_of (Some mock_session)"
    using window_opens_idle [OF mock_session_trusty, of E Mock] by metis
  have r: "desk_run any_event (\<lambda>create. create = (\<lambda>_. None)) mock_session Mock dk" by (rule desk_run.shown [OF dk(1)])
  from window_follows_session [OF mock_session_trusty _ r] dk r show ?thesis
    by (auto simp: creates_trusty_def Let_def mock_session_shown simp flip: pc_of_def epoch_of_def)
qed

text \<open>As long as nobody attaches or closes the window while a worker analyses, no call ever goes through a
  freed pointer and no session is destroyed as what it is not: every event is carried out, the
  controller always holds a session that is still on the heap and of the kind it was created as, and
  it is the one a worker analyses.\<close>

theorem window_never_uses_freed_session:
  assumes "trusty (Some se)" "\<forall>create. creates create \<longrightarrow> creates_trusty create" "desk_run calm creates se kind dk" "creates create"
  shows "do_event create ev dk \<noteq> None \<and>
    (\<exists>p ob. dk_session dk = Some p \<and> dk_heap dk p = Some ob \<and> ob_kind ob = dk_kind dk \<and>
       (\<forall>s. Analysing s \<in> set (dk_workers dk) \<longrightarrow> s = p))"
proof -
  have inv: "desk_inv dk" "workers_safe dk"
    using desk_run_inv [OF assms(3,1,2)] desk_run_safe [OF assms(3,1)] by simp_all
  have "do_event create ev dk \<noteq> None"
    using do_event_inv [OF inv(1), of ev create] closeWindow_ok [OF inv(1)] inv(2) assms(2,4)
    by (cases "ev = EClose") auto
  with inv show ?thesis by (auto simp: desk_inv_def wired_def workers_safe_def)
qed

theorem window_never_uses_freed_session_witness:
  "\<exists>dk. desk_run calm (\<lambda>create. create = (\<lambda>_. None)) mock_session Mock dk \<and> do_event (\<lambda>_. None) EStepInto dk \<noteq> None"
proof -
  obtain dk where "window_opens E False mock_session Mock = Some dk"
    using window_opens_idle [OF mock_session_trusty, of E Mock] by metis
  then have r: "desk_run calm (\<lambda>create. create = (\<lambda>_. None)) mock_session Mock dk" by (rule desk_run.shown)
  with window_never_uses_freed_session [OF mock_session_trusty _ r, of "\<lambda>_. None" EStepInto] show ?thesis
    by (auto simp: creates_trusty_def)
qed

section \<open>Attaching and closing while an analysis runs\<close>

text \<open>Attaching before the worker of an analysis has run frees the session the worker was given, and the
  worker then runs on freed memory.\<close>

theorem attach_while_analysing:
  assumes "trusty (Some se)" "creates_trusty create" "create pid = Some se1" "pid \<noteq> 0"
  shows "\<exists>dk dk1. window_opens E True se kind = Some dk \<and>
     do_event create (EAttach True pid) dk = Some dk1 \<and> do_event create (EWorkerRuns 0) dk1 = None"
proof -
  obtain dk0 where dk0: "desk_inv dk0" "dk_workers dk0 = []" "dk_session dk0 = Some 0" "dk_next dk0 = 1"
    "\<not> dk_analyzing dk0" "window_opens E True se kind = runAnalysis dk0"
    using window_opens_idle [OF assms(1), of E kind] by metis
  obtain dk where dk: "runAnalysis dk0 = Some dk" "desk_inv dk" using runAnalysis_inv [OF dk0(1)] by blast
  have f: "dk_workers dk = [Analysing 0]" "dk_session dk = Some 0" "dk_next dk = 1"
    using dk(1) dk0 by (auto simp: runAnalysis_def emit_def react_def)
  then have "workers_safe dk" by (simp add: workers_safe_def)
  with do_event_inv [OF dk(2) _ assms(2), of "EAttach True pid"] obtain dk1 where
    dk1: "attachToProcess create True pid dk = Some dk1" "desk_inv dk1" by auto
  have "dk_session dk1 = Some 1"
    using dk1(1) assms(3,4) f(3) by (auto simp: attachToProcess_def alloc_def dest!: setSession_frame)
  with dk1(2) have "dk_heap dk1 0 = None" using one_sessionD [of dk1 0] by (simp add: desk_inv_def wired_def)
  moreover have "dk_workers dk1 = [Analysing 0]" using attach_frame [OF dk1(1)] f(1) by simp
  ultimately have "worker_runs 0 dk1 = None" by (simp add: worker_runs_def call_on_def)
  with dk(1) dk0(6) dk1(1) show ?thesis by auto
qed

text \<open>Closing the window destroys the session whatever the workers do: a worker that is still analysing then runs on
  freed memory, in the time between the destructor of the window and the end of the process.\<close>

theorem close_while_analysing:
  assumes "trusty (Some se)" "\<forall>create. creates create \<longrightarrow> creates_trusty create" "desk_run allowed creates se kind dk"
    and "i < length (dk_workers dk)" "dk_workers dk ! i = Analysing s"
  shows "\<exists>dk1. do_event create EClose dk = Some dk1 \<and> do_event create (EWorkerRuns i) dk1 = None"
proof -
  obtain dk1 where "closeWindow dk = Some dk1" "dk_heap dk1 = (\<lambda>_. None)" "dk_workers dk1 = dk_workers dk"
    using closeWindow_ok [OF desk_run_inv [OF assms(3,1,2)]] by metis
  with assms(4,5) show ?thesis by (simp add: late_worker)
qed

theorem close_while_analysing_witness:
  "\<exists>dk dk1 :: mock_state desk. window_opens E True mock_session Mock = Some dk \<and>
     do_event (\<lambda>_. None) EClose dk = Some dk1 \<and> do_event (\<lambda>_. None) (EWorkerRuns 0) dk1 = None"
proof -
  obtain dk0 where dk0: "desk_inv dk0" "dk_workers dk0 = []" "dk_session dk0 = Some 0" "\<not> dk_analyzing dk0"
    "window_opens E True mock_session Mock = runAnalysis dk0"
    using window_opens_idle [OF mock_session_trusty, of E Mock] by metis
  obtain dk where dk: "runAnalysis dk0 = Some dk" using runAnalysis_inv [OF dk0(1)] by blast
  then have w: "dk_workers dk = [Analysing 0]" using dk0 by (auto simp: runAnalysis_def emit_def react_def)
  have o: "window_opens E True mock_session Mock = Some dk" using dk dk0(5) by simp
  then have "desk_run any_event (\<lambda>create. create = (\<lambda>_. None)) mock_session Mock dk" by (rule desk_run.shown)
  from close_while_analysing [OF mock_session_trusty _ this, of 0 0 "\<lambda>_. None"] w o show ?thesis
    by (auto simp: creates_trusty_def)
qed

section \<open>The docks\<close>

definition dock_visible :: "string \<Rightarrow> 'c desk \<Rightarrow> bool" where
  "dock_visible n dk \<longleftrightarrow> map_of (dk_docks dk) n = Some True"

lemma docks_step:
  assumes "docks_ok (dk_docks dk)" "n \<in> set dock_names" "do_event create ev dk = Some dk1"
  shows "dock_visible n dk1 \<longleftrightarrow>
    (case ev of
       EToggleDock m \<Rightarrow> (dock_visible n dk \<longleftrightarrow> m \<noteq> n)
     | EResetLayout \<Rightarrow> n \<in> set debugDocks \<longrightarrow> dk_kind dk = Native
     | _ \<Rightarrow> if n \<in> set debugDocks \<and> dk_kind dk1 \<noteq> dk_kind dk then dk_kind dk1 = Native else dock_visible n dk)"
proof -
  obtain v where v: "map_of (dk_docks dk) n = Some v" using map_of_docks [OF assms(1,2)] by blast
  show ?thesis
  proof (cases ev)
    case (EToggleDock m)
    then show ?thesis using assms(3) v by (auto simp: dock_visible_def toggleDock_def)
  next
    case EResetLayout
    then show ?thesis
      using assms(3) resetLayout_shows [OF assms(1,2), of "isLive dk"] by (auto simp: dock_visible_def isLive_def)
  next
    case (EAttach accepted pid)
    have "dk_docks dk1 = (if dk_kind dk1 \<noteq> dk_kind dk then showDebugDocks (dk_kind dk1 = Native) (dk_docks dk) else dk_docks dk)"
      using assms(3) attach_frame [of create accepted pid dk dk1] by (simp only: EAttach do_event.simps)
    then show ?thesis using v by (auto simp: dock_visible_def showDebugDocks_def EAttach)
  qed (use assms(3) in \<open>auto simp: dock_visible_def same_frame_def closeWindow_def controller_destroyed_def
      dest!: controls_frame quiet_frame runAnalysis_frame worker_runs_frame worker_finished_frame destroySession_frame\<close>)
qed

end
