(* ===== verification/Startup.thy ===== *)
theory Startup
  imports Api "HOL-Library.Sublist"
begin

text \<open>
  What happens before a session is open: the dialogs that choose a process, a file and its load
  options (irida-ui/gui/src/dialogs), the list of recent files, the start of the window
  (app/main.cpp) and the command line tool (irida-ui/cli/src/main.cpp).

  Parameters: the case folding, trimming and row sorting of Qt, what the user answers, and the
  creation of sessions.  Widgets and their texts are left out, and so are the destruction of the
  session when the command line tool ends and the text it prints for a row without one (every
  row of a session has a text).
\<close>

section \<open>Choosing a process\<close>

record process_entry =
  pe_pid :: u32
  pe_name :: string

text \<open>\<open>qs_sort\<close> is the order the table shows its rows in.\<close>

record qt_strings =
  qs_lower :: "string \<Rightarrow> string"
  qs_trim :: "string \<Rightarrow> string"
  qs_sort :: "(u32 \<times> string) list \<Rightarrow> (u32 \<times> string) list"

record attach_dialog =
  ad_filter :: string
  ad_processes :: "process_entry list"
  ad_rows :: "(u32 \<times> string) list"
  ad_selected :: u32
  ad_accepted :: bool

definition matchesFilter :: "string \<Rightarrow> u32 \<Rightarrow> string \<Rightarrow> bool" where
  "matchesFilter needleLower pid nameLower \<longleftrightarrow>
     (if needleLower = '''' then True
      else if sublist needleLower nameLower then True
      else sublist needleLower (dec_digits (unat pid)))"

text \<open>\<open>snap\<close> is the snapshot of the processes, if one could be taken.\<close>

definition reloadProcesses :: "process_entry list option \<Rightarrow> attach_dialog \<Rightarrow> attach_dialog" where
  "reloadProcesses snap d = d\<lparr>ad_processes := (case snap of None \<Rightarrow> [] | Some ps \<Rightarrow> ps)\<rparr>"

definition shown_processes :: "qt_strings \<Rightarrow> string \<Rightarrow> process_entry list \<Rightarrow> (u32 \<times> string) list" where
  "shown_processes Q filter_text ps =
     (let needle = qs_lower Q (qs_trim Q filter_text) in
      map (\<lambda>p. (pe_pid p, pe_name p))
        (filter (\<lambda>p. matchesFilter needle (pe_pid p) (qs_lower Q (pe_name p))) ps))"

definition rebuildTable :: "qt_strings \<Rightarrow> attach_dialog \<Rightarrow> attach_dialog" where
  "rebuildTable Q d = d\<lparr>ad_rows := qs_sort Q (shown_processes Q (ad_filter d) (ad_processes d))\<rparr>"

definition attach_dialog_init :: "qt_strings \<Rightarrow> process_entry list option \<Rightarrow> attach_dialog" where
  "attach_dialog_init Q snap =
     rebuildTable Q (reloadProcesses snap
       \<lparr>ad_filter = '''', ad_processes = [], ad_rows = [], ad_selected = 0, ad_accepted = False\<rparr>)"

definition applyFilter :: "qt_strings \<Rightarrow> string \<Rightarrow> attach_dialog \<Rightarrow> attach_dialog" where
  "applyFilter Q t d = rebuildTable Q (d\<lparr>ad_filter := t\<rparr>)"

definition selectRow :: "int \<Rightarrow> attach_dialog \<Rightarrow> attach_dialog" where
  "selectRow row d =
     (if 0 \<le> row \<and> row < int (length (ad_rows d)) then d\<lparr>ad_selected := fst (ad_rows d ! nat row)\<rparr> else d)"

definition onRowActivated :: "int \<Rightarrow> attach_dialog \<Rightarrow> attach_dialog" where
  "onRowActivated row d = (selectRow row d)\<lparr>ad_accepted := True\<rparr>"

text \<open>\<open>row\<close> is the current row of the table, -1 if there is none.\<close>

definition dialog_onAccept :: "int \<Rightarrow> attach_dialog \<Rightarrow> attach_dialog" where
  "dialog_onAccept row d = (selectRow row d)\<lparr>ad_accepted := True\<rparr>"

text \<open>
  The user types, sorts by another column, picks a row or presses OK; nothing happens after the
  dialog has been accepted.
\<close>

inductive dialog_run :: "qt_strings \<Rightarrow> process_entry list option \<Rightarrow> attach_dialog \<Rightarrow> bool" for Q snap where
  opened: "dialog_run Q snap (attach_dialog_init Q snap)"
| typed: "dialog_run Q snap d \<Longrightarrow> \<not> ad_accepted d \<Longrightarrow> dialog_run Q snap (applyFilter Q t d)"
| resorted: "dialog_run Q snap d \<Longrightarrow> \<not> ad_accepted d \<Longrightarrow> mset rows = mset (ad_rows d) \<Longrightarrow>
    dialog_run Q snap (d\<lparr>ad_rows := rows\<rparr>)"
| activated: "dialog_run Q snap d \<Longrightarrow> \<not> ad_accepted d \<Longrightarrow> dialog_run Q snap (onRowActivated row d)"
| accepted: "dialog_run Q snap d \<Longrightarrow> \<not> ad_accepted d \<Longrightarrow> dialog_run Q snap (dialog_onAccept row d)"

section \<open>Recent files\<close>

definition kMaxRecent :: nat where "kMaxRecent = 10"

text \<open>\<open>files\<close> is the stored list before, the answer the stored list after.\<close>

definition addRecent :: "string \<Rightarrow> string list \<Rightarrow> string list" where
  "addRecent path files =
     (if path = '''' then files else take kMaxRecent (path # removeAll path files))"

text \<open>The dialog's choice: a file from the open dialog or an entry of the list, unless it is empty.\<close>

definition openFile :: "string \<Rightarrow> string option" where
  "openFile path = (if path = '''' then None else Some path)"

definition onRecentActivated :: "string \<Rightarrow> string option" where
  "onRecentActivated path = (if path = '''' then None else Some path)"

section \<open>Load options\<close>

datatype analysis_level = LevelNone | LevelAuto | LevelExperimental | LevelAdvanced

record load_options =
  lo_analyze :: bool
  lo_level :: analysis_level

definition level_of_id :: "nat \<Rightarrow> analysis_level" where
  "level_of_id i = [LevelNone, LevelAuto, LevelExperimental, LevelAdvanced] ! i"

definition options_onAccept :: "bool \<Rightarrow> nat \<Rightarrow> load_options" where
  "options_onAccept checked checked_id = \<lparr>lo_analyze = checked, lo_level = level_of_id checked_id\<rparr>"

section \<open>The start of the window\<close>

datatype 'c started = Quit int | Open "'c session" bool string

text \<open>
  \<open>welcome\<close> is the path chosen in the welcome window, \<open>options\<close> what the options dialog answers,
  \<open>None\<close> when they are cancelled; \<open>create\<close> is \<open>irida_session_create_file\<close>.  The answer holds
  the stored list of recent files.
\<close>

definition app_main ::
    "(string \<Rightarrow> 'c handle) \<Rightarrow> string list \<Rightarrow> string option \<Rightarrow> (string \<Rightarrow> load_options option) \<Rightarrow>
     string list \<Rightarrow> 'c started \<times> string list" where
  "app_main create argv welcome options recent =
     (case (if 1 < length argv then Some (argv ! 1) else welcome) of
        None \<Rightarrow> (Quit 0, recent)
      | Some path \<Rightarrow>
          (case options path of
             None \<Rightarrow> (Quit 0, recent)
           | Some opts \<Rightarrow>
               (case create path of
                  None \<Rightarrow> (Quit 1, recent)
                | Some se \<Rightarrow> (Open se (lo_analyze opts) path, addRecent path recent))))"

section \<open>The command line tool\<close>

definition kRegisterPreviewCount :: nat where "kRegisterPreviewCount = 8"
definition kDisasmPreviewCount :: u64 where "kDisasmPreviewCount = 10"

text \<open>\<open>strtoul (s, nullptr, 10)\<close> with an \<open>unsigned long\<close> of \<open>w\<close> bits.\<close>

definition c_space :: "char \<Rightarrow> bool" where
  "c_space c \<longleftrightarrow> c \<in> {CHR '' '', CHR 0x09, CHR 0x0A, CHR 0x0B, CHR 0x0C, CHR 0x0D}"

definition digit_value :: "char \<Rightarrow> nat" where
  "digit_value c = of_char c - 48"

definition c_digit :: "char \<Rightarrow> bool" where
  "c_digit c \<longleftrightarrow> 48 \<le> (of_char c :: nat) \<and> (of_char c :: nat) \<le> 57"

definition strtoul :: "nat \<Rightarrow> string \<Rightarrow> nat" where
  "strtoul w s =
     (let s1 = dropWhile c_space s;
          neg = (s1 \<noteq> [] \<and> hd s1 = CHR ''-'');
          s2 = (if s1 \<noteq> [] \<and> (hd s1 = CHR ''-'' \<or> hd s1 = CHR ''+'') then tl s1 else s1);
          v = fold (\<lambda>c v. 10 * v + digit_value c) (takeWhile c_digit s2) 0
      in if 2 ^ w \<le> v then 2 ^ w - 1
         else if neg then (2 ^ w - v) mod 2 ^ w else v)"

text \<open>The loop over \<open>argv\<close> from index 1 on; the last \<open>--native\<close> with a value counts.\<close>

fun parse_args :: "nat \<Rightarrow> string list \<Rightarrow> u32 option \<Rightarrow> u32 option" where
  "parse_args w (a # v # rest) pid =
     (if a = ''--native'' then parse_args w rest (Some (word_of_nat (strtoul w v))) else parse_args w (v # rest) pid)"
| "parse_args w _ pid = pid"

definition fmt_016x :: "u64 \<Rightarrow> string" where
  "fmt_016x v = (let d = hex_digits (unat v) in replicate (16 - length d) CHR ''0'' @ d)"

definition fmt_left6 :: "string \<Rightarrow> string" where
  "fmt_left6 t = t @ replicate (6 - length t) CHR '' ''"

definition print_registers :: "'c handle \<Rightarrow> string list \<times> 'c handle" where
  "print_registers s =
     (case irida_registers True s of (regs, s1) \<Rightarrow>
        let shown = (if length regs < kRegisterPreviewCount then length regs else kRegisterPreviewCount) in
        (map (\<lambda>r. ''  '' @ fmt_left6 (ar_name r) @ '' = 0x'' @ fmt_016x (ar_value r)) (take shown regs), s1))"

definition print_disasm :: "u64 \<Rightarrow> u64 \<Rightarrow> 'c handle \<Rightarrow> string list \<times> 'c handle" where
  "print_disasm addr n s =
     (case irida_disasm addr n True s of (rows, s1) \<Rightarrow>
        (map (\<lambda>r. ''  0x'' @ fmt_016x (ir_address r) @ '': '' @ ir_text r) rows, s1))"

text \<open>The exit code and the lines on standard output; \<open>create\<close> is \<open>irida_session_create_native\<close>.\<close>

definition cli_session :: "'c handle \<Rightarrow> string list \<times> 'c handle" where
  "cli_session s =
     (case irida_pc s of (pc, s1) \<Rightarrow>
      case print_registers s1 of (regs, s2) \<Rightarrow>
      case print_disasm pc kDisasmPreviewCount s2 of (insns, s3) \<Rightarrow>
      case irida_pc (irida_step_into s3) of (new_pc, s4) \<Rightarrow>
      case print_disasm new_pc 1 s4 of (insn, s5) \<Rightarrow>
        ([''pc = 0x'' @ fmt_016x pc, ''registers:''] @ regs @ [''disasm @ pc:''] @ insns @
         [''pc after step_into = 0x'' @ fmt_016x new_pc, ''disasm @ new pc:''] @ insn, s5))"

definition cli_main :: "nat \<Rightarrow> (u32 \<Rightarrow> 'c handle) \<Rightarrow> string list \<Rightarrow> int \<times> string list" where
  "cli_main w create argv =
     (case parse_args w (drop 1 argv) None of
        None \<Rightarrow> (1, [])
      | Some pid \<Rightarrow>
          (case create pid of
             None \<Rightarrow> (1, [])
           | Some se \<Rightarrow> (case cli_session (Some se) of (out, s1) \<Rightarrow> (0, out))))"

section \<open>Properties\<close>

lemma dialog_run_processes:
  assumes "\<forall>rows. mset (qs_sort Q rows) = mset rows"
  shows "dialog_run Q snap d \<Longrightarrow> ad_processes d = (case snap of None \<Rightarrow> [] | Some ps \<Rightarrow> ps) \<and>
     mset (ad_rows d) = mset (shown_processes Q (ad_filter d) (ad_processes d)) \<and>
     (ad_selected d = 0 \<or> ad_accepted d \<and> ad_selected d \<in> fst ` set (ad_rows d))"
proof (induction rule: dialog_run.induct)
  case opened
  show ?case using assms by (simp add: attach_dialog_init_def rebuildTable_def reloadProcesses_def)
next
  case typed
  then show ?case using assms by (simp add: rebuildTable_def applyFilter_def)
next
  case resorted
  then show ?case by simp
qed (auto simp: onRowActivated_def dialog_onAccept_def selectRow_def)

text \<open>C38: However the user filters and picks, the table shows exactly the processes that match the filter, and
  the process attached to is one of those shown, or none (0).\<close>

theorem attach_picks_shown_process:
  assumes "\<forall>rows. mset (qs_sort Q rows) = mset rows" "dialog_run Q (Some ps) d"
  shows "mset (ad_rows d) = mset (shown_processes Q (ad_filter d) ps) \<and>
     (ad_selected d \<noteq> 0 \<longrightarrow> ad_accepted d \<and>
        (\<exists>p \<in> set ps. pe_pid p = ad_selected d \<and>
           matchesFilter (qs_lower Q (qs_trim Q (ad_filter d))) (pe_pid p) (qs_lower Q (pe_name p))))"
proof -
  have inv: "ad_processes d = ps" "mset (ad_rows d) = mset (shown_processes Q (ad_filter d) (ad_processes d))"
    "ad_selected d = 0 \<or> ad_accepted d \<and> ad_selected d \<in> fst ` set (ad_rows d)"
    using dialog_run_processes [OF assms] by simp_all
  have rows: "mset (ad_rows d) = mset (shown_processes Q (ad_filter d) ps)" using inv by simp
  then have "set (ad_rows d) = set (shown_processes Q (ad_filter d) ps)" by (rule mset_eq_setD)
  with inv(3) rows show ?thesis by (auto simp: shown_processes_def Let_def image_iff)
qed

definition plain_strings :: qt_strings where
  "plain_strings = \<lparr>qs_lower = id, qs_trim = id, qs_sort = rev\<rparr>"

definition two_processes :: "process_entry list" where
  "two_processes = [\<lparr>pe_pid = 12, pe_name = ''lsass''\<rparr>, \<lparr>pe_pid = 345, pe_name = ''game''\<rparr>]"

theorem attach_picks_shown_process_witness:
  "let d = onRowActivated 0 (applyFilter plain_strings ''34'' (attach_dialog_init plain_strings (Some two_processes)))
   in ad_selected d = 345 \<and> (\<exists>p \<in> set two_processes. pe_pid p = 345 \<and> matchesFilter ''34'' (pe_pid p) (pe_name p))"
proof -
  let ?d = "onRowActivated 0 (applyFilter plain_strings ''34'' (attach_dialog_init plain_strings (Some two_processes)))"
  have "ad_selected ?d = 345 \<and> ad_filter ?d = ''34''" by code_simp
  moreover have "\<not> ad_accepted (attach_dialog_init plain_strings (Some two_processes))"
    "\<not> ad_accepted (applyFilter plain_strings ''34'' (attach_dialog_init plain_strings (Some two_processes)))"
    by code_simp+
  then have "dialog_run plain_strings (Some two_processes) ?d"
    by (intro dialog_run.activated dialog_run.typed dialog_run.opened)
  moreover have "\<forall>rows. mset (qs_sort plain_strings rows) = mset rows" by (simp add: plain_strings_def)
  ultimately show ?thesis
    using attach_picks_shown_process [of plain_strings two_processes ?d] by (simp add: Let_def plain_strings_def)
qed

text \<open>The list of recent files: bounded, without repetitions, the newest first, the rest in order.\<close>

lemma recent_files_kept:
  assumes "distinct files" "path \<noteq> ''''"
  shows "distinct (addRecent path files) \<and> length (addRecent path files) \<le> kMaxRecent \<and>
     hd (addRecent path files) = path \<and> prefix (tl (addRecent path files)) (removeAll path files) \<and>
     addRecent path (addRecent path files) = addRecent path files"
proof -
  have "addRecent path files = path # take 9 (removeAll path files)"
    using assms(2) by (simp add: addRecent_def kMaxRecent_def)
  moreover have "removeAll path (take 9 (removeAll path files)) = take 9 (removeAll path files)"
    by (rule removeAll_id) (auto dest: in_set_takeD)
  ultimately show ?thesis using assms
    by (auto simp: kMaxRecent_def addRecent_def take_is_prefix distinct_removeAll dest: in_set_takeD)
qed

text \<open>A window opens only on a session the file gave, and only then is the file remembered.\<close>

lemma app_main_opens:
  "app_main create argv welcome options recent = (Open se analyze path, recent1) \<Longrightarrow>
   create path = Some se \<and> recent1 = addRecent path recent \<and>
   (argv ! 1 = path \<or> welcome = Some path) \<and> (\<exists>opts. options path = Some opts \<and> lo_analyze opts = analyze)"
  by (auto simp: app_main_def split: option.splits if_splits)

text \<open>The level of the options has no effect: only whether to analyse at all has.\<close>

lemma app_main_ignores_level:
  assumes "\<And>p. map_option lo_analyze (options p) = map_option lo_analyze (options2 p)"
  shows "app_main create argv welcome options recent = app_main create argv welcome options2 recent"
proof (cases "if 1 < length argv then Some (argv ! 1) else welcome")
  case (Some p)
  with assms [of p] show ?thesis
    by (cases "options p"; cases "options2 p") (simp_all only: app_main_def option.case option.map option.distinct option.inject)
qed (simp only: app_main_def option.case)

section \<open>The dialogs before a session\<close>

text \<open>
  The list of recent files: a label for every stored path, with the size of the file or that it is
  missing; one entry without a path when there is none.  What the file system and the locale say
  of a path is a parameter.
\<close>

record file_info =
  fi_name :: string
  fi_dir :: string
  fi_size :: "string option" \<comment> \<open>formatted, if the file exists\<close>

record recent_item =
  ri_label :: string
  ri_path :: string \<comment> \<open>empty if the item carries none\<close>

definition populateRecent :: "(string \<Rightarrow> file_info) \<Rightarrow> string list \<Rightarrow> recent_item list" where
  "populateRecent info files =
     map (\<lambda>path.
        let fi = info path;
            size = (case fi_size fi of None \<Rightarrow> ''missing'' | Some t \<Rightarrow> t)
        in \<lparr>ri_label = fi_name fi @ ''  '' @ [CHR 0xE2, CHR 0x80, CHR 0x94] @ ''  '' @ fi_dir fi @ ''  ('' @ size @ '')'',
            ri_path = path\<rparr>) files @
     (if files = [] then [\<lparr>ri_label = ''No recent files'', ri_path = ''''\<rparr>] else [])"

text \<open>What activating an item of the list chooses.\<close>

lemma recent_item_opens:
  "i < length (populateRecent info files) \<Longrightarrow>
   onRecentActivated (ri_path (populateRecent info files ! i)) =
     (if files = [] \<or> files ! i = '''' then None else Some (files ! i))"
  by (auto simp: populateRecent_def onRecentActivated_def Let_def)

text \<open>The load options: a check box, four exclusive buttons and the label that names the chosen one.\<close>

record options_dialog =
  od_analysis :: bool
  od_levels_enabled :: bool
  od_checked :: nat
  od_label :: string

definition level_names :: "string list" where
  "level_names = [''None'', ''Auto-Analysis'', ''Experimental'', ''Advanced'']"

definition options_init :: options_dialog where
  "options_init = \<lparr>od_analysis = True, od_levels_enabled = True, od_checked = 1, od_label = ''Level: Auto-Analysis''\<rparr>"

definition analysis_toggled :: "bool \<Rightarrow> options_dialog \<Rightarrow> options_dialog" where
  "analysis_toggled on d = d\<lparr>od_analysis := on, od_levels_enabled := on\<rparr>"

text \<open>A disabled button cannot be clicked.\<close>

definition level_clicked :: "nat \<Rightarrow> options_dialog \<Rightarrow> options_dialog" where
  "level_clicked i d =
     (if od_levels_enabled d \<and> i < 4 then d\<lparr>od_checked := i, od_label := ''Level: '' @ level_names ! i\<rparr> else d)"

inductive options_run :: "options_dialog \<Rightarrow> bool" where
  "options_run options_init"
| "options_run d \<Longrightarrow> options_run (analysis_toggled on d)"
| "options_run d \<Longrightarrow> options_run (level_clicked i d)"

text \<open>The options of the dialog are those it shows.\<close>

lemma options_agree:
  "options_run d \<Longrightarrow> od_checked d < 4 \<and> od_label d = ''Level: '' @ level_names ! od_checked d \<and>
     od_levels_enabled d = od_analysis d"
  by (induction rule: options_run.induct)
    (auto simp: options_init_def analysis_toggled_def level_clicked_def level_names_def)

end
