(* ===== verification/Binfmt.thy ===== *)
theory Binfmt
  imports Ordered_Map
begin

text \<open>
  binfmt/include/irida/binfmt/binary.hpp and binfmt/src/lief_parser.cpp: the parsed image of a
  binary and the PE parser.

  LIEF is a third-party library and the parameter \<open>parse\<close>: what the source reads of a parsed
  binary is \<open>lief_binary\<close>, and an exception thrown on the way is \<open>LiefThrows\<close> (a
  \<open>std::exception\<close> with its message) or \<open>LiefThrowsOther\<close>.  Both sessions look symbols
  up in a map built from the image; that map is here, too, with its lookup laws.
\<close>

unbundle bit_operations_syntax

record bin_section =
  sec_name :: string
  sec_vaddr :: u64
  sec_vsize :: u64
  sec_offset :: u64
  sec_size :: u64
  sec_perms :: u8

record bin_import =
  imp_name :: string
  imp_library :: string
  imp_iat_addr :: u64

record bin_export =
  exp_name :: string
  exp_addr :: u64
  exp_ordinal :: u32

record bin_symbol =
  sym_name :: string
  sym_addr :: u64
  sym_kind :: string

record binary_info =
  bi_path :: string
  bi_format :: string
  bi_entry_point :: u64
  bi_image_base :: u64
  bi_is_64bit :: bool
  bi_sections :: "bin_section list"
  bi_imports :: "bin_import list"
  bi_exports :: "bin_export list"
  bi_symbols :: "bin_symbol list"

section \<open>What LIEF reports\<close>

record lief_section =
  ls_name :: string
  ls_virtual_address :: u64
  ls_virtual_size :: u64
  ls_pointerto_raw_data :: u64
  ls_sizeof_raw_data :: u64
  ls_mem_read :: bool
  ls_mem_write :: bool
  ls_mem_execute :: bool

record lief_import =
  li_name :: string
  li_entries :: "(string \<times> u64) list"

record lief_binary =
  lb_entrypoint :: u64
  lb_imagebase :: u64
  lb_pe32_plus :: bool
  lb_sections :: "lief_section list"
  lb_imports :: "lief_import list"
  lb_has_exports :: bool
  lb_export :: "(string \<times> u64 \<times> u32) list option"
  lb_symbols :: "(string \<times> u64) list"

datatype lief_outcome = LiefNull | LiefThrows string | LiefThrowsOther | LiefBinary lief_binary

type_synonym lief = "string \<Rightarrow> lief_outcome"

section \<open>The parser\<close>

definition kPermExec :: u8 where "kPermExec = 0x1"
definition kPermWrite :: u8 where "kPermWrite = 0x2"
definition kPermRead :: u8 where "kPermRead = 0x4"

definition map_perms :: "lief_section \<Rightarrow> u8" where
  "map_perms s =
     (let p0 = 0;
          p1 = (if ls_mem_read s then p0 OR kPermRead else p0);
          p2 = (if ls_mem_write s then p1 OR kPermWrite else p1)
      in if ls_mem_execute s then p2 OR kPermExec else p2)"

definition map_section :: "lief_section \<Rightarrow> bin_section" where
  "map_section s =
     \<lparr>sec_name = ls_name s, sec_vaddr = ls_virtual_address s, sec_vsize = ls_virtual_size s,
      sec_offset = ls_pointerto_raw_data s, sec_size = ls_sizeof_raw_data s, sec_perms = map_perms s\<rparr>"

definition collect_imports :: "lief_binary \<Rightarrow> bin_import list" where
  "collect_imports b =
     concat (map (\<lambda>i. map (\<lambda>(n, a). \<lparr>imp_name = n, imp_library = li_name i, imp_iat_addr = a\<rparr>) (li_entries i))
       (lb_imports b))"

definition collect_exports :: "lief_binary \<Rightarrow> bin_export list" where
  "collect_exports b =
     (if \<not> lb_has_exports b then []
      else
        case lb_export b of
          None \<Rightarrow> []
        | Some es \<Rightarrow> map (\<lambda>(n, a, o'). \<lparr>exp_name = n, exp_addr = a, exp_ordinal = o'\<rparr>) es)"

definition collect_symbols :: "lief_binary \<Rightarrow> bin_symbol list" where
  "collect_symbols b = map (\<lambda>(n, a). \<lparr>sym_name = n, sym_addr = a, sym_kind = ''coff''\<rparr>) (lb_symbols b)"

text \<open>The relative addresses LIEF reports become absolute, like the entry point.\<close>

definition rebase_info :: "u64 \<Rightarrow> binary_info \<Rightarrow> binary_info" where
  "rebase_info base info =
     info\<lparr>bi_sections := map (\<lambda>s. s\<lparr>sec_vaddr := sec_vaddr s + base\<rparr>) (bi_sections info),
          bi_imports := map (\<lambda>i. i\<lparr>imp_iat_addr := imp_iat_addr i + base\<rparr>) (bi_imports info),
          bi_exports := map (\<lambda>e. e\<lparr>exp_addr := exp_addr e + base\<rparr>) (bi_exports info),
          bi_symbols := map (\<lambda>y. y\<lparr>sym_addr := sym_addr y + base\<rparr>) (bi_symbols info)\<rparr>"

definition binary_of_lief :: "string \<Rightarrow> lief_binary \<Rightarrow> binary_info" where
  "binary_of_lief path b =
     rebase_info (lb_imagebase b)
       \<lparr>bi_path = path, bi_format = ''PE'', bi_entry_point = lb_entrypoint b,
        bi_image_base = lb_imagebase b, bi_is_64bit = lb_pe32_plus b,
        bi_sections = map map_section (lb_sections b), bi_imports = collect_imports b,
        bi_exports = collect_exports b, bi_symbols = collect_symbols b\<rparr>"

definition parse_file :: "lief \<Rightarrow> string \<Rightarrow> binary_info result" where
  "parse_file parse path =
     (case parse path of
        LiefNull \<Rightarrow> Err (''failed to parse PE file: '' @ path)
      | LiefThrows what \<Rightarrow> Err (''LIEF exception: '' @ what)
      | LiefThrowsOther \<Rightarrow> Err (''LIEF exception: unknown error parsing '' @ path)
      | LiefBinary b \<Rightarrow> Ok (binary_of_lief path b))"

section \<open>The map of names\<close>

type_synonym symbol_map = "(u64, string) omap"

text \<open>A loop of assignments \<open>map[key] = value\<close>.\<close>

definition assign_all :: "(u64 \<times> string) list \<Rightarrow> symbol_map \<Rightarrow> symbol_map" where
  "assign_all kvs m = fold (\<lambda>(k, v). om_put k v) kvs m"

text \<open>
  The value a key gets from a list of assignments is the last one; later lists win over
  earlier ones.
\<close>

lemma assign_all_append: "assign_all (xs @ ys) m = assign_all ys (assign_all xs m)"
  by (simp add: assign_all_def)

lemma assign_all_ok: "om_ok m \<Longrightarrow> om_ok (assign_all kvs m)"
  unfolding assign_all_def by (induction kvs arbitrary: m) (auto simp: om.ok_put)

lemma map_of_assign_all:
  "om_ok m \<Longrightarrow> map_of (assign_all kvs m) a =
     (case map_of (rev kvs) a of Some v \<Rightarrow> Some v | None \<Rightarrow> map_of m a)"
proof (induction kvs arbitrary: m)
  case (Cons kv kvs)
  obtain k v where kv: "kv = (k, v)" by fastforce
  have "map_of (assign_all (kv # kvs) m) a = map_of (assign_all kvs (om_put k v m)) a"
    by (simp add: assign_all_def kv)
  also have "\<dots> = (case map_of (rev kvs) a of Some w \<Rightarrow> Some w | None \<Rightarrow> map_of (om_put k v m) a)"
    by (rule Cons.IH) (rule om.ok_put [OF Cons.prems])
  finally show ?case
    by (auto simp: kv om.find_put [OF Cons.prems] map_add_Some_iff split: option.splits)
qed (simp add: assign_all_def)

lemma keys_assign_all: "fst ` set (assign_all kvs m) = fst ` set kvs \<union> fst ` set m"
proof (induction kvs arbitrary: m)
  case (Cons kv kvs)
  have "assign_all (kv # kvs) m = assign_all kvs (om_put (fst kv) (snd kv) m)"
    by (simp add: assign_all_def case_prod_beta)
  then show ?case by (simp only: Cons.IH keys_om_put) auto
qed (simp add: assign_all_def)

definition last_match :: "('a \<Rightarrow> u64) \<Rightarrow> ('a \<Rightarrow> string) \<Rightarrow> u64 \<Rightarrow> 'a list \<Rightarrow> string option" where
  "last_match key name a xs = map_option name (find (\<lambda>x. key x = a) (rev xs))"

lemma map_of_find: "map_of (map (\<lambda>x. (f x, g x)) xs) a = map_option g (find (\<lambda>x. f x = a) xs)"
  by (induction xs) auto

text \<open>The name an image gives an address: an import's, else an export's, else a symbol's, the last one.\<close>

definition image_name :: "binary_info \<Rightarrow> u64 \<Rightarrow> string option" where
  "image_name bin a =
     (case last_match imp_iat_addr (\<lambda>i. ''sym.imp.'' @ imp_name i) a (bi_imports bin) of Some n \<Rightarrow> Some n
      | None \<Rightarrow>
     (case last_match exp_addr (\<lambda>e. ''sym.'' @ exp_name e) a (bi_exports bin) of Some n \<Rightarrow> Some n
      | None \<Rightarrow> last_match sym_addr sym_name a (bi_symbols bin)))"

end
