(* ===== verification/Strings.thy ===== *)
theory Strings
  imports Prelude
begin

text \<open>
  binfmt/src/strings.cpp: the scan for printable ASCII and UTF-16LE strings.

  Both passes are loops over an index; each function here is one of the loops.  The lemmas
  give the list each pass produces in closed form, and with it that the scan finds exactly
  the longest runs of printable characters, each once.
\<close>

record found_string =
  fs_addr :: u64
  fs_text :: string
  fs_utf16 :: bool

definition is_printable :: "byte \<Rightarrow> bool" where
  "is_printable c \<longleftrightarrow> 0x20 \<le> c \<and> c \<le> 0x7E"

section \<open>The two passes\<close>

function ascii_end :: "bytes \<Rightarrow> nat \<Rightarrow> nat" where
  "ascii_end data i =
     (if i < length data \<and> is_printable (data ! i) then ascii_end data (Suc i) else i)"
  by pat_completeness auto
termination by (relation "measure (\<lambda>(data, i). length data - i)") auto

declare ascii_end.simps [simp del]

definition ascii_string :: "bytes \<Rightarrow> u64 \<Rightarrow> nat \<Rightarrow> nat \<Rightarrow> found_string" where
  "ascii_string data base start len =
     \<lparr>fs_addr = base + word_of_nat start, fs_text = map char_of_byte (take len (drop start data)),
      fs_utf16 = False\<rparr>"

lemma ascii_end_ge: "i \<le> ascii_end data i"
proof (induction data i rule: ascii_end.induct)
  case (1 data i)
  then show ?case
    by (cases "i < length data \<and> is_printable (data ! i)") (auto simp: ascii_end.simps [of data i])
qed

function ascii_loop :: "bytes \<Rightarrow> u64 \<Rightarrow> nat \<Rightarrow> nat \<Rightarrow> found_string list \<Rightarrow> found_string list" where
  "ascii_loop data base min_len i out =
     (if i < length data then
        let j = ascii_end data i; len = j - i;
            out1 = (if len \<ge> min_len then out @ [ascii_string data base i len] else out)
        in ascii_loop data base min_len (Suc j) out1
      else out)"
  by pat_completeness auto
termination
  by (relation "measure (\<lambda>(data, base, m, i, out). length data - i)")
    (use ascii_end_ge in \<open>auto intro!: diff_less_mono2 simp: less_Suc_eq_le\<close>)

declare ascii_loop.simps [simp del]

text \<open>One UTF-16LE character: a printable low byte and a zero high byte.\<close>

definition wide_char :: "bytes \<Rightarrow> nat \<Rightarrow> bool" where
  "wide_char data j \<longleftrightarrow> j + 1 < length data \<and> \<not> (data ! (j + 1) \<noteq> 0 \<or> \<not> is_printable (data ! j))"

function wide_run :: "bytes \<Rightarrow> nat \<Rightarrow> string \<Rightarrow> string \<times> nat" where
  "wide_run data j acc =
     (if wide_char data j then wide_run data (j + 2) (acc @ [char_of_byte (data ! j)]) else (acc, j))"
  by pat_completeness auto
termination by (relation "measure (\<lambda>(data, j, acc). length data - j)") (auto simp: wide_char_def)

declare wide_run.simps [simp del]

lemma wide_run_ge: "wide_run data j acc = (t, e) \<Longrightarrow> j \<le> e"
proof (induction data j acc rule: wide_run.induct)
  case (1 data j acc)
  then show ?case
    by (cases "wide_char data j") (auto simp: wide_run.simps [of data j acc])
qed

function utf16_loop :: "bytes \<Rightarrow> u64 \<Rightarrow> nat \<Rightarrow> nat \<Rightarrow> found_string list \<Rightarrow> found_string list" where
  "utf16_loop data base min_len i out =
     (if i + 1 < length data then
        (case wide_run data i [] of
           (text, j) \<Rightarrow>
             let out1 = (if length text \<ge> min_len
                         then out @ [\<lparr>fs_addr = base + word_of_nat i, fs_text = text, fs_utf16 = True\<rparr>]
                         else out)
             in utf16_loop data base min_len (if j > i then j else i + 1) out1)
      else out)"
  by pat_completeness auto
termination by (relation "measure (\<lambda>(data, base, m, i, out). length data - i)") auto

declare utf16_loop.simps [simp del]

definition scan_strings :: "bytes \<Rightarrow> u64 \<Rightarrow> nat \<Rightarrow> found_string list" where
  "scan_strings data base_addr min_len =
     utf16_loop data base_addr min_len 0 (ascii_loop data base_addr min_len 0 [])"

section \<open>The ASCII pass\<close>

definition ascii_at :: "bytes \<Rightarrow> nat \<Rightarrow> bool" where
  "ascii_at data i \<longleftrightarrow> i < length data \<and> is_printable (data ! i)"

lemma ascii_end_step: "ascii_end data i = (if ascii_at data i then ascii_end data (Suc i) else i)"
  by (subst ascii_end.simps) (simp add: ascii_at_def)

text \<open>The end of the run: every position before it is printable, it is not.\<close>

lemma ascii_end_run: "i \<le> k \<Longrightarrow> k < ascii_end data i \<Longrightarrow> ascii_at data k"
proof (induction data i rule: ascii_end.induct)
  case (1 data i)
  then show ?case
    by (cases "k = i"; cases "ascii_at data i") (auto simp: ascii_end_step [of data i] ascii_at_def)
qed

lemma ascii_end_stop: "\<not> ascii_at data (ascii_end data i)"
proof (induction data i rule: ascii_end.induct)
  case (1 data i)
  then show ?case
    by (cases "ascii_at data i") (auto simp: ascii_end_step [of data i] ascii_at_def)
qed

lemma ascii_end_unique:
  assumes "s \<le> e" "\<forall>k. s \<le> k \<and> k < e \<longrightarrow> ascii_at data k" "\<not> ascii_at data e"
  shows "ascii_end data s = e"
proof (rule antisym)
  show "ascii_end data s \<le> e"
    using ascii_end_run [of s e data] assms(1,3) by (meson leI)
  show "e \<le> ascii_end data s"
    using assms(2) ascii_end_stop [of data s] ascii_end_ge [of s data] by (meson leI)
qed

definition ascii_start :: "bytes \<Rightarrow> nat \<Rightarrow> nat \<Rightarrow> bool" where
  "ascii_start data m s \<longleftrightarrow> (s = 0 \<or> \<not> ascii_at data (s - 1)) \<and> m \<le> ascii_end data s - s"

lemma filter_upt_head:
  assumes "i < j" "\<And>s. i < s \<Longrightarrow> s < j \<Longrightarrow> s < n \<Longrightarrow> \<not> P s" "i < n"
  shows "filter P [i..<n] = (if P i then [i] else []) @ filter P [j..<n]"
proof (cases "j \<le> n")
  case True
  then obtain k where "n = j + k" by (auto simp: le_iff_add)
  then have "[i..<n] = [i] @ [Suc i..<j] @ [j..<n]"
    using assms(1,3) upt_add_eq_append [of "Suc i" j k] by (simp add: upt_conv_Cons)
  moreover have "filter P [Suc i..<j] = []"
    using assms(2) True by (auto simp: filter_empty_conv)
  ultimately show ?thesis by simp
next
  case False
  then have "filter P [Suc i..<n] = []"
    using assms(2) by (auto simp: filter_empty_conv)
  with False assms(3) show ?thesis by (simp add: upt_conv_Cons)
qed

lemma ascii_loop_closed:
  assumes "0 < m" "i = 0 \<or> \<not> ascii_at data (i - 1)"
  shows "ascii_loop data base m i out =
    out @ map (\<lambda>s. ascii_string data base s (ascii_end data s - s)) (filter (ascii_start data m) [i..<length data])"
  using assms
proof (induction data base m i out rule: ascii_loop.induct)
  case (1 data base m i out)
  show ?case
  proof (cases "i < length data")
    case False
    then show ?thesis by (simp add: ascii_loop.simps)
  next
    case True
    let ?j = "ascii_end data i"
    have "\<not> ascii_start data m s" if "i < s" "s < Suc ?j" for s
      using that ascii_end_run [of i "s - 1" data] by (auto simp: ascii_start_def)
    then have f: "filter (ascii_start data m) [i..<length data] =
        (if ascii_start data m i then [i] else []) @ filter (ascii_start data m) [Suc ?j..<length data]"
      by (intro filter_upt_head) (use True ascii_end_ge [of i data] in auto)
    have p: "ascii_start data m i \<longleftrightarrow> m \<le> ?j - i"
      using "1.prems"(2) by (auto simp: ascii_start_def)
    note IH = "1.IH" [OF True refl refl refl "1.prems"(1)]
    show ?thesis
      by (subst ascii_loop.simps) (use True IH ascii_end_stop [of data i] f p in \<open>auto simp: Let_def\<close>)
  qed
qed

section \<open>The UTF-16LE pass\<close>

definition wide_len :: "bytes \<Rightarrow> nat \<Rightarrow> nat" where
  "wide_len data s = (snd (wide_run data s []) - s) div 2"

definition wide_text :: "bytes \<Rightarrow> nat \<Rightarrow> nat \<Rightarrow> string" where
  "wide_text data s k = map (\<lambda>t. char_of_byte (data ! (s + 2 * t))) [0..<k]"

lemma wide_run_form:
  "\<exists>k. wide_run data j acc = (acc @ wide_text data j k, j + 2 * k) \<and>
     (\<forall>t < k. wide_char data (j + 2 * t)) \<and> \<not> wide_char data (j + 2 * k)"
proof (induction data j acc rule: wide_run.induct)
  case (1 data j acc)
  show ?case
  proof (cases "wide_char data j")
    case False
    then show ?thesis by (intro exI [of _ 0]) (simp add: wide_run.simps [of data j] wide_text_def)
  next
    case True
    from "1.IH" [OF True] obtain k where
      k: "wide_run data (j + 2) (acc @ [char_of_byte (data ! j)]) =
          ((acc @ [char_of_byte (data ! j)]) @ wide_text data (j + 2) k, j + 2 + 2 * k)"
        "\<forall>t < k. wide_char data (j + 2 + 2 * t)" "\<not> wide_char data (j + 2 + 2 * k)"
      by blast
    have "wide_char data (j + 2 * t)" if "t < Suc k" for t
      using that True k(2) by (cases t) (auto simp: add.assoc)
    moreover have "wide_text data j (Suc k) = char_of_byte (data ! j) # wide_text data (j + 2) k"
      by (simp add: wide_text_def upt_conv_Cons del: upt_Suc) (simp add: map_Suc_upt [symmetric] comp_def del: upt_Suc)
    ultimately show ?thesis
      using True k(1,3) by (intro exI [of _ "Suc k"]) (simp add: wide_run.simps [of data j] add.assoc)
  qed
qed

lemma wide_run_eq:
  "wide_run data s [] = (wide_text data s (wide_len data s), s + 2 * wide_len data s)"
  "t < wide_len data s \<Longrightarrow> wide_char data (s + 2 * t)" "\<not> wide_char data (s + 2 * wide_len data s)"
  using wide_run_form [of data s "[]"] by (auto simp: wide_len_def)

lemma wide_len_unique:
  assumes "\<forall>t < k. wide_char data (s + 2 * t)" "\<not> wide_char data (s + 2 * k)"
  shows "wide_len data s = k"
  using wide_run_eq(2) [of _ data s] wide_run_eq(3) [of data s] assms by (metis nat_neq_iff)

text \<open>A character's high byte is no character, so runs of the two alignments never meet.\<close>

lemma wide_char_next: "wide_char data j \<Longrightarrow> \<not> wide_char data (j + 1)"
  by (auto simp: wide_char_def is_printable_def)

definition wide_start :: "bytes \<Rightarrow> nat \<Rightarrow> nat \<Rightarrow> bool" where
  "wide_start data m s \<longleftrightarrow> (s < 2 \<or> \<not> wide_char data (s - 2)) \<and> m \<le> wide_len data s"

definition wide_string :: "bytes \<Rightarrow> u64 \<Rightarrow> nat \<Rightarrow> nat \<Rightarrow> found_string" where
  "wide_string data base s k =
     \<lparr>fs_addr = base + word_of_nat s, fs_text = wide_text data s k, fs_utf16 = True\<rparr>"

lemma wide_len_0: "\<not> wide_char data s \<Longrightarrow> wide_len data s = 0"
  using wide_len_unique [of 0 data s] by simp

lemma not_wide_start_inside:
  assumes "0 < m" "i < s" "s < i + 2 * wide_len data i"
  shows "\<not> wide_start data m s"
proof (cases "even (s - i)")
  case True
  then obtain t where "s - i = 2 * t" by (elim evenE)
  then have "s = i + 2 * t" using assms(2) by simp
  then have "s - 2 = i + 2 * (t - 1)" "t - 1 < wide_len data i" "\<not> s < 2" using assms by auto
  then show ?thesis using wide_run_eq(2) [of "t - 1" data i] by (simp add: wide_start_def)
next
  case False
  then obtain t where t: "s - i = 2 * t + 1" by (elim oddE)
  then have s: "s = (i + 2 * t) + 1" "t < wide_len data i" using assms by auto
  then have "\<not> wide_char data s" using wide_char_next [OF wide_run_eq(2)] by metis
  then show ?thesis using assms(1) by (simp add: wide_start_def wide_len_0)
qed

lemma utf16_loop_closed:
  assumes "0 < m" "i < 2 \<or> \<not> wide_char data (i - 2) \<or> \<not> wide_char data i"
    "i = 0 \<or> \<not> wide_char data (i - 1)"
  shows "utf16_loop data base m i out =
    out @ map (\<lambda>s. wide_string data base s (wide_len data s)) (filter (wide_start data m) [i..<length data])"
  using assms
proof (induction data base m i out rule: utf16_loop.induct)
  case (1 data base m i out)
  show ?case
  proof (cases "i + 1 < length data")
    case False
    then have "\<not> wide_start data m s" if "i \<le> s" for s
      using that "1.prems"(1) wide_len_0 [of data s] by (auto simp: wide_start_def wide_char_def)
    then have "filter (wide_start data m) [i..<length data] = []" by (auto simp: filter_empty_conv)
    with False show ?thesis by (simp add: utf16_loop.simps)
  next
    case True
    let ?k = "wide_len data i" and ?n = "if wide_len data i > 0 then i + 2 * wide_len data i else i + 1"
    have f: "filter (wide_start data m) [i..<length data] =
        (if wide_start data m i then [i] else []) @ filter (wide_start data m) [?n..<length data]"
      by (intro filter_upt_head) (use True not_wide_start_inside [OF "1.prems"(1)] in \<open>auto split: if_splits\<close>)
    have p: "wide_start data m i \<longleftrightarrow> m \<le> ?k"
      using "1.prems"(1,2) wide_len_0 [of data i] by (auto simp: wide_start_def)
    have k0: "?k > 0 \<longleftrightarrow> wide_char data i"
      using wide_run_eq(3) [of data i] wide_len_0 [of data i] by (cases "wide_len data i = 0") auto
    have n2: "?n < 2 \<or> \<not> wide_char data (?n - 2) \<or> \<not> wide_char data ?n"
      using wide_run_eq(3) [of data i] "1.prems"(3) k0 by auto
    have n1: "?n = 0 \<or> \<not> wide_char data (?n - 1)"
    proof (cases "?k > 0")
      case True
      have "?n - 1 = (i + 2 * (?k - 1)) + 1" using True by simp
      then show ?thesis using wide_char_next [OF wide_run_eq(2) [of "?k - 1" data i]] True by simp
    qed (use k0 in simp)
    have n: "(if i < i + 2 * ?k then i + 2 * ?k else i + 1) = ?n" by simp
    have len: "length (wide_text data i ?k) = ?k" by (simp add: wide_text_def)
    note IH = "1.IH" [OF True wide_run_eq(1) [symmetric] refl "1.prems"(1),
      unfolded n len wide_string_def [of data base i ?k, symmetric], OF n2 n1]
    have "utf16_loop data base m i out = utf16_loop data base m ?n
        (if m \<le> ?k then out @ [wide_string data base i ?k] else out)"
      using True by (subst utf16_loop.simps) (simp add: Let_def wide_run_eq(1) n len wide_string_def)
    with IH show ?thesis unfolding f p by (cases "m \<le> ?k") simp_all
  qed
qed

section \<open>Properties\<close>

text \<open>The longest runs: an ASCII run from \<open>s\<close> to \<open>e\<close>, and \<open>k\<close> UTF-16LE characters from \<open>s\<close>.\<close>

definition maximal_ascii :: "bytes \<Rightarrow> nat \<Rightarrow> nat \<Rightarrow> bool" where
  "maximal_ascii data s e \<longleftrightarrow> s \<le> e \<and> (\<forall>k. s \<le> k \<and> k < e \<longrightarrow> ascii_at data k) \<and>
     \<not> ascii_at data e \<and> (s = 0 \<or> \<not> ascii_at data (s - 1))"

definition maximal_wide :: "bytes \<Rightarrow> nat \<Rightarrow> nat \<Rightarrow> bool" where
  "maximal_wide data s k \<longleftrightarrow> (\<forall>t < k. wide_char data (s + 2 * t)) \<and> \<not> wide_char data (s + 2 * k) \<and>
     (s < 2 \<or> \<not> wide_char data (s - 2))"

lemma maximal_ascii_iff:
  assumes "0 < m"
  shows "maximal_ascii data s e \<and> m \<le> e - s \<longleftrightarrow>
    s < length data \<and> ascii_start data m s \<and> e = ascii_end data s" (is "?l \<longleftrightarrow> ?r")
proof
  assume l: ?l
  then have e: "ascii_end data s = e"
    by (intro ascii_end_unique) (simp_all add: maximal_ascii_def)
  have "s < e" using l assms by linarith
  then have "ascii_at data s" using l by (simp add: maximal_ascii_def)
  with l e show ?r by (simp add: maximal_ascii_def ascii_start_def ascii_at_def)
next
  assume r: ?r
  then show ?l
    using ascii_end_ge [of s data] ascii_end_run [of s _ data] ascii_end_stop [of data s]
    unfolding maximal_ascii_def ascii_start_def by simp
qed

lemma maximal_wide_iff:
  assumes "0 < m"
  shows "maximal_wide data s k \<and> m \<le> k \<longleftrightarrow>
    s < length data \<and> wide_start data m s \<and> k = wide_len data s" (is "?l \<longleftrightarrow> ?r")
proof
  assume l: ?l
  then have k: "wide_len data s = k"
    by (intro wide_len_unique) (simp_all add: maximal_wide_def)
  have "wide_char data (s + 2 * 0)" using l assms unfolding maximal_wide_def by (metis less_le_trans)
  then have "s < length data" by (simp add: wide_char_def)
  with l k show ?r by (simp add: maximal_wide_def wide_start_def)
next
  assume r: ?r
  then show ?l
    using wide_run_eq(2) [of _ data s] wide_run_eq(3) [of data s]
    unfolding maximal_wide_def wide_start_def by simp
qed

lemma distinct_scan:
  assumes "length data \<le> 2 ^ 64" "\<And>s. fs_addr (f s) = base + word_of_nat s"
  shows "distinct (map f (filter P [0..<length data]))"
proof -
  have "s = t" if "s < length data" "t < length data" "f s = f t" for s t
  proof -
    have "(word_of_nat s :: u64) = word_of_nat t"
      using assms(2) that(3) by (metis add_left_cancel)
    then show "s = t" using that(1,2) assms(1) by (simp add: word_of_nat_eq_iff take_bit_eq_mod)
  qed
  then show ?thesis by (auto simp: distinct_map inj_on_def)
qed

text \<open>C23: The scan finds exactly the longest printable runs of at least the minimal length, in both
  encodings, each exactly once, with its address and its text; nothing is missed and nothing
  else is reported.\<close>

theorem scan_strings_exact:
  assumes "0 < min_len" "length data \<le> 2 ^ 64"
  shows "(\<forall>f. f \<in> set (scan_strings data base min_len) \<longleftrightarrow>
      (\<exists>s e. maximal_ascii data s e \<and> min_len \<le> e - s \<and>
         f = \<lparr>fs_addr = base + word_of_nat s, fs_text = map (\<lambda>i. char_of_byte (data ! i)) [s..<e],
              fs_utf16 = False\<rparr>) \<or>
      (\<exists>s k. maximal_wide data s k \<and> min_len \<le> k \<and>
         f = \<lparr>fs_addr = base + word_of_nat s,
              fs_text = map (\<lambda>t. char_of_byte (data ! (s + 2 * t))) [0..<k], fs_utf16 = True\<rparr>)) \<and>
    distinct (scan_strings data base min_len)"
proof -
  let ?A = "map (\<lambda>s. ascii_string data base s (ascii_end data s - s))
      (filter (ascii_start data min_len) [0..<length data])"
  let ?W = "map (\<lambda>s. wide_string data base s (wide_len data s))
      (filter (wide_start data min_len) [0..<length data])"
  have scan: "scan_strings data base min_len = ?A @ ?W"
    using assms(1) by (simp add: scan_strings_def ascii_loop_closed utf16_loop_closed)
  have chars: "map char_of_byte (take (e - s) (drop s data)) = map (\<lambda>i. char_of_byte (data ! i)) [s..<e]"
    if "maximal_ascii data s e" "min_len \<le> e - s" for s e
  proof -
    have "ascii_at data (e - 1)" using that assms(1) unfolding maximal_ascii_def by (simp add: less_eq_Suc_le)
    then have "e \<le> length data" unfolding ascii_at_def by linarith
    then show ?thesis by (simp add: list_eq_iff_nth_eq)
  qed
  have A: "f \<in> set ?A \<longleftrightarrow> (\<exists>s e. (maximal_ascii data s e \<and> min_len \<le> e - s) \<and>
      f = ascii_string data base s (e - s))" for f
    unfolding maximal_ascii_iff [OF assms(1)] by auto
  have W: "f \<in> set ?W \<longleftrightarrow> (\<exists>s k. (maximal_wide data s k \<and> min_len \<le> k) \<and>
      f = wide_string data base s k)" for f
    unfolding maximal_wide_iff [OF assms(1)] by auto
  have "set ?A \<inter> set ?W = {}" by (auto simp: ascii_string_def wide_string_def)
  then have "distinct (?A @ ?W)"
    using distinct_scan [OF assms(2), of "\<lambda>s. ascii_string data base s (ascii_end data s - s)" base]
      distinct_scan [OF assms(2), of "\<lambda>s. wide_string data base s (wide_len data s)" base]
    by (simp add: ascii_string_def wide_string_def)
  then show ?thesis
    unfolding scan set_append Un_iff A W
    using chars by (simp add: ascii_string_def wide_string_def wide_text_def conj_assoc cong: conj_cong)
qed

theorem scan_strings_exact_witness:
  "\<lparr>fs_addr = 0x1001, fs_text = ''ABCD'', fs_utf16 = False\<rparr> \<in>
     set (scan_strings [0, 0x41, 0x42, 0x43, 0x44, 0] 0x1000 4)"
proof -
  let ?data = "[0, 0x41, 0x42, 0x43, 0x44, 0] :: bytes"
  have "ascii_at ?data 1" "ascii_at ?data 2" "ascii_at ?data 3" "ascii_at ?data 4"
    "\<not> ascii_at ?data 5" "\<not> ascii_at ?data (1 - 1)"
    by (simp_all add: ascii_at_def is_printable_def)
  moreover have "k = 1 \<or> k = 2 \<or> k = 3 \<or> k = 4" if "1 \<le> k" "k < 5" for k :: nat
    using that by linarith
  ultimately have "maximal_ascii ?data 1 5" unfolding maximal_ascii_def by fastforce
  moreover have "map (\<lambda>i. char_of_byte (?data ! i)) [1..<5] = ''ABCD''" by code_simp
  ultimately show ?thesis
    by (intro scan_strings_exact [where min_len = 4 and data = ?data and base = "0x1000",
        THEN conjunct1, THEN spec, THEN iffD2] disjI1 exI [of _ 1] exI [of _ 5]) simp_all
qed

end
