(* ===== verification/Disasm.thy ===== *)
theory Disasm
  imports Prelude
begin

text \<open>
  disasm/include/irida/disasm/instruction.hpp and disasm/src/zydis_disassembler.cpp: the
  instruction vocabulary and the disassembler.

  Zydis is a third-party library and the parameter \<open>zydis\<close>: decoding of one instruction,
  names of registers and mnemonics, the formatter, and the absolute address of an operand.
  What the sources read of its structures is \<open>z_operand\<close> and \<open>z_insn\<close>; register 0 is
  \<open>ZYDIS_REGISTER_NONE\<close>.  The lemmas show how the operands and the flow class come out, and
  that linear decoding tiles the buffer.
\<close>

unbundle bit_operations_syntax

datatype operand_kind = RegisterOp | MemoryOp | ImmediateOp | PointerOp | UnknownOp

datatype flow = Sequential | Jump | CondJump | Call | Return

record memory_operand =
  mo_base :: string
  mo_index :: string
  mo_scale :: u8
  mo_disp :: u64
  mo_rip_relative :: bool

definition memory_operand_init :: memory_operand where
  "memory_operand_init = \<lparr>mo_base = [], mo_index = [], mo_scale = 1, mo_disp = 0, mo_rip_relative = False\<rparr>"

record operand =
  op_kind :: operand_kind
  op_reg :: string
  op_mem :: memory_operand
  op_imm :: u64
  op_text :: string

definition operand_init :: operand where
  "operand_init =
     \<lparr>op_kind = UnknownOp, op_reg = [], op_mem = memory_operand_init, op_imm = 0, op_text = []\<rparr>"

record instruction =
  in_address :: u64
  in_length :: u32
  in_mnemonic :: string
  in_text :: string
  in_operands :: "operand list"
  in_flow :: flow
  in_branch_target :: u64

section \<open>The decoder library\<close>

datatype z_category = ZCategoryCall | ZCategoryRet | ZCategoryUncondBr | ZCategoryCondBr | ZCategoryOther

datatype z_operand =
    ZRegister nat
  | ZMemory nat nat u8 "u64 option"
  | ZImmediate u64
  | ZPointer u16 u32
  | ZUnused

record z_insn =
  zi_length :: u8
  zi_mnemonic :: nat
  zi_category :: z_category
  zi_visible :: nat

record zydis =
  z_decode_full :: "bytes \<Rightarrow> (z_insn \<times> z_operand list) option"
  z_register_string :: "nat \<Rightarrow> string option"
  z_mnemonic_string :: "nat \<Rightarrow> string option"
  z_format :: "z_insn \<Rightarrow> z_operand list \<Rightarrow> u64 \<Rightarrow> string option"
  z_calc_absolute :: "z_insn \<Rightarrow> z_operand \<Rightarrow> u64 \<Rightarrow> u64 option"
  z_register_rip :: nat

section \<open>The disassembler\<close>

definition register_name :: "zydis \<Rightarrow> nat \<Rightarrow> string" where
  "register_name Z reg = (case z_register_string Z reg of Some n \<Rightarrow> n | None \<Rightarrow> [])"

definition map_operand :: "zydis \<Rightarrow> z_operand \<Rightarrow> operand" where
  "map_operand Z zop =
     (case zop of
        ZRegister r \<Rightarrow> operand_init\<lparr>op_kind := RegisterOp, op_reg := register_name Z r\<rparr>
      | ZMemory base index scale disp \<Rightarrow>
          operand_init\<lparr>op_kind := MemoryOp,
            op_mem := \<lparr>mo_base = (if base \<noteq> 0 then register_name Z base else []),
                       mo_index = (if index \<noteq> 0 then register_name Z index else []),
                       mo_scale = (if index \<noteq> 0 then scale else 1),
                       mo_disp = (case disp of Some d \<Rightarrow> d | None \<Rightarrow> 0),
                       mo_rip_relative = (base = z_register_rip Z)\<rparr>\<rparr>
      | ZImmediate v \<Rightarrow> operand_init\<lparr>op_kind := ImmediateOp, op_imm := v\<rparr>
      | ZPointer seg off \<Rightarrow>
          operand_init\<lparr>op_kind := PointerOp, op_imm := push_bit 32 (ucast seg) OR ucast off\<rparr>
      | ZUnused \<Rightarrow> operand_init)"

definition classify_flow :: "z_insn \<Rightarrow> flow" where
  "classify_flow insn =
     (case zi_category insn of
        ZCategoryCall \<Rightarrow> Call
      | ZCategoryRet \<Rightarrow> Return
      | ZCategoryUncondBr \<Rightarrow> Jump
      | ZCategoryCondBr \<Rightarrow> CondJump
      | ZCategoryOther \<Rightarrow> Sequential)"

fun is_immediate :: "z_operand \<Rightarrow> bool" where
  "is_immediate (ZImmediate v) = True"
| "is_immediate _ = False"

text \<open>The loop over the visible operands: the first immediate one decides.\<close>

fun branch_target_of :: "zydis \<Rightarrow> z_insn \<Rightarrow> u64 \<Rightarrow> z_operand list \<Rightarrow> u64" where
  "branch_target_of Z insn address [] = 0"
| "branch_target_of Z insn address (zop # zops) =
     (if is_immediate zop then
        (case z_calc_absolute Z insn zop address of Some t \<Rightarrow> t | None \<Rightarrow> 0)
      else branch_target_of Z insn address zops)"

definition decode_one :: "zydis \<Rightarrow> bytes \<Rightarrow> u64 \<Rightarrow> instruction result" where
  "decode_one Z bs address =
     (case z_decode_full Z bs of
        None \<Rightarrow> Err ''failed to decode instruction''
      | Some (insn, zops) \<Rightarrow>
          let visible = take (zi_visible insn) zops; f = classify_flow insn in
          Ok \<lparr>in_address = address,
              in_length = ucast (zi_length insn),
              in_mnemonic = (case z_mnemonic_string Z (zi_mnemonic insn) of Some m \<Rightarrow> m | None \<Rightarrow> []),
              in_text = (case z_format Z insn visible address of Some t \<Rightarrow> t | None \<Rightarrow> []),
              in_operands = map (map_operand Z) visible,
              in_flow = f,
              in_branch_target =
                (if f = Jump \<or> f = CondJump \<or> f = Call
                 then branch_target_of Z insn address visible else 0)\<rparr>)"

text \<open>The loop of \<open>decode_linear\<close>; the number counts the instructions that may still be added.\<close>

fun linear_loop :: "zydis \<Rightarrow> nat \<Rightarrow> bytes \<Rightarrow> u64 \<Rightarrow> nat \<Rightarrow> instruction list \<Rightarrow> instruction list" where
  "linear_loop Z 0 bs address offset out = out"
| "linear_loop Z (Suc left) bs address offset out =
     (if offset < length bs then
        (case decode_one Z (drop offset bs) (address + word_of_nat offset) of
           Err e \<Rightarrow> out
         | Ok insn \<Rightarrow> linear_loop Z left bs address (offset + unat (in_length insn)) (out @ [insn]))
      else out)"

definition decode_linear :: "zydis \<Rightarrow> bytes \<Rightarrow> u64 \<Rightarrow> nat \<Rightarrow> instruction list" where
  "decode_linear Z bs address maxn = linear_loop Z maxn bs address 0 []"

section \<open>Linear decoding tiles the buffer\<close>

lemma decode_one_address: "decode_one Z bs a = Ok i \<Longrightarrow> in_address i = a"
  by (auto simp: decode_one_def Let_def split: option.splits)

definition span :: "instruction list \<Rightarrow> nat" where
  "span is = (\<Sum>i\<leftarrow>is. unat (in_length i))"

lemma span_simps [simp]: "span [] = 0" "span (i # is) = unat (in_length i) + span is"
  "span (xs @ ys) = span xs + span ys"
  by (simp_all add: span_def)

lemma linear_loop_tiles:
  "linear_loop Z left bs address offset out = out @ new \<Longrightarrow>
   length new \<le> left \<and>
   (\<forall>k < length new. offset + span (take k new) < length bs \<and>
      decode_one Z (drop (offset + span (take k new)) bs)
        (address + word_of_nat (offset + span (take k new))) = Ok (new ! k)) \<and>
   (length new < left \<longrightarrow> offset + span new < length bs \<longrightarrow>
      \<not> has_value (decode_one Z (drop (offset + span new) bs) (address + word_of_nat (offset + span new))))"
proof (induction left arbitrary: offset out new)
  case (Suc left)
  let ?r = "decode_one Z (drop offset bs) (address + word_of_nat offset)"
  show ?case
  proof (cases "offset < length bs \<and> has_value ?r")
    case False
    then have "new = []"
      using Suc.prems by (cases ?r) (auto split: if_splits)
    with False show ?thesis by auto
  next
    case True
    then obtain insn where i: "?r = Ok insn" by (cases ?r) auto
    have loop: "linear_loop Z left bs address (offset + unat (in_length insn)) (out @ [insn]) = out @ new"
      using Suc.prems True i by simp
    have "\<exists>n. linear_loop Z m bs a o2 out2 = out2 @ n" for m a o2 out2
      by (induction m arbitrary: o2 out2) (auto split: result.split, metis append.assoc)
    then obtain n2 where "linear_loop Z left bs address (offset + unat (in_length insn)) (out @ [insn]) =
        (out @ [insn]) @ n2" by blast
    with loop have new: "new = insn # n2" by simp
    from Suc.IH [of "offset + unat (in_length insn)" "out @ [insn]" n2] loop
    have ih: "length n2 \<le> left"
      "\<And>k. k < length n2 \<Longrightarrow> offset + unat (in_length insn) + span (take k n2) < length bs \<and>
         decode_one Z (drop (offset + unat (in_length insn) + span (take k n2)) bs)
           (address + word_of_nat (offset + unat (in_length insn) + span (take k n2))) = Ok (n2 ! k)"
      "length n2 < left \<longrightarrow> offset + unat (in_length insn) + span n2 < length bs \<longrightarrow>
         \<not> has_value (decode_one Z (drop (offset + unat (in_length insn) + span n2) bs)
           (address + word_of_nat (offset + unat (in_length insn) + span n2)))"
      unfolding new by auto
    show ?thesis
    proof (intro conjI allI impI)
      fix k assume k: "k < length new"
      show "offset + span (take k new) < length bs"
        using True ih(2) k new by (cases k) (auto simp: add.assoc)
      show "decode_one Z (drop (offset + span (take k new)) bs)
          (address + word_of_nat (offset + span (take k new))) = Ok (new ! k)"
      proof (cases k)
        case 0
        then show ?thesis using i new by simp
      next
        case (Suc j)
        then show ?thesis using ih(2) [of j] k new by (simp only: take_Suc_Cons span_simps nth_Cons_Suc add.assoc) auto
      qed
    qed (use ih(1,3) new in \<open>auto simp only: span_simps add.assoc list.size\<close>)
  qed
qed simp

text \<open>C21: Linear decoding tiles the buffer: instruction \<open>k\<close> is what decoding yields at the offset where
  the ones before it end, with the matching address; decoding only stops at the limit, at the
  end of the buffer, or at bytes that do not decode.\<close>

theorem decode_linear_tiles:
  assumes "decode_linear Z bs address maxn = out"
  shows "length out \<le> maxn \<and>
    (\<forall>k < length out. span (take k out) < length bs \<and>
       in_address (out ! k) = address + word_of_nat (span (take k out)) \<and>
       decode_one Z (drop (span (take k out)) bs) (address + word_of_nat (span (take k out))) = Ok (out ! k)) \<and>
    (length out = maxn \<or> length bs \<le> span out \<or>
       (\<exists>e. decode_one Z (drop (span out) bs) (address + word_of_nat (span out)) = Err e))"
proof -
  have "linear_loop Z maxn bs address 0 [] = [] @ out" using assms by (simp add: decode_linear_def)
  note t = linear_loop_tiles [OF this, simplified]
  have "\<exists>e. decode_one Z b a = Err e" if "\<not> has_value (decode_one Z b a)" for b a
    using that by (cases "decode_one Z b a") auto
  then have stop: "length out = maxn \<or> length bs \<le> span out \<or>
      (\<exists>e. decode_one Z (drop (span out) bs) (address + word_of_nat (span out)) = Err e)"
    using t by (meson le_neq_implies_less not_le)
  have "in_address (out ! k) = address + word_of_nat (span (take k out))" if "k < length out" for k
    using t that by (intro decode_one_address [of Z "drop (span (take k out)) bs"]) blast
  with t stop show ?thesis by blast
qed

theorem decode_linear_tiles_witness:
  "\<forall>Z :: zydis. let Z1 = Z\<lparr>z_decode_full := \<lambda>b. if b = [] \<or> hd b \<noteq> 0x90 then None
        else Some (\<lparr>zi_length = 1, zi_mnemonic = 0, zi_category = ZCategoryOther, zi_visible = 0\<rparr>, [])\<rparr>
     in length (decode_linear Z1 [0x90, 0x90, 0xFF] 0x1000 8) = 2 \<and>
        in_address (decode_linear Z1 [0x90, 0x90, 0xFF] 0x1000 8 ! 1) = 0x1001"
proof
  fix Z :: zydis
  let ?Z = "Z\<lparr>z_decode_full := \<lambda>b. if b = [] \<or> hd b \<noteq> 0x90 then None
        else Some (\<lparr>zi_length = 1, zi_mnemonic = 0, zi_category = ZCategoryOther, zi_visible = 0\<rparr>, [])\<rparr>"
  obtain out where out: "decode_linear ?Z [0x90, 0x90, 0xFF] 0x1000 8 = out" "length out = 2"
    "unat (in_length (out ! 0)) = 1"
  proof -
    define mk where "mk a = (case decode_one ?Z [0x90] a of Ok i \<Rightarrow> i | Err e \<Rightarrow> undefined)" for a
    have d: "decode_one ?Z (0x90 # r) a = Ok (mk a)" "in_length (mk a) = 1" for r a
      by (simp_all add: mk_def decode_one_def Let_def)
    have e: "decode_one ?Z [0xFF] a = Err ''failed to decode instruction''" for a
      by (simp add: decode_one_def)
    have "linear_loop ?Z (Suc (Suc (Suc n))) [0x90, 0x90, 0xFF] 0x1000 0 [] = [mk 0x1000, mk 0x1001]" for n
      by (simp add: d e)
    from this [of 5] have "decode_linear ?Z [0x90, 0x90, 0xFF] 0x1000 8 = [mk 0x1000, mk 0x1001]"
      by (simp add: decode_linear_def)
    with that d(2) show thesis by simp
  qed
  have "take 1 out = [out ! 0]" using out(2) by (cases out) auto
  then have "in_address (out ! 1) = 0x1001"
    using decode_linear_tiles [OF out(1)] out(2,3) by (auto dest: spec [of _ 1])
  with out show "let Z1 = ?Z in length (decode_linear Z1 [0x90, 0x90, 0xFF] 0x1000 8) = 2 \<and>
        in_address (decode_linear Z1 [0x90, 0x90, 0xFF] 0x1000 8 ! 1) = 0x1001"
    by (simp add: Let_def)
qed

end
