(* ===== verification/Analysis.thy ===== *)
theory Analysis
  imports Disasm Ordered_Map
begin

text \<open>
  analysis/src/analysis.cpp: the recursive-descent analyzer.  It sees the program through
  two callbacks, both parameters here: \<open>dis\<close> is \<open>Disassembler::decode_one\<close>, and
  \<open>reader\<close> is the \<open>ByteReader\<close>, which takes the address and the window's size and returns the
  bytes it filled.  Reading may act on the session behind it (a live session fills its cache),
  so it passes on a state \<open>'s\<close>, which the builder carries in \<open>fb_io\<close>.

  \<open>fbuilder\<close> is the state of a \<open>FunctionBuilder\<close> with its two output parameters; \<open>std::set\<close>
  is a sorted list, \<open>std::unordered_set\<close> a list used for membership only.  The run of one
  basic block can be endless (a readable address space without control flow), so
  \<open>trace_loop\<close> counts fuel; the work lists and the splitting of blocks always end.
\<close>

record basic_block =
  bb_addr :: u64
  bb_size :: u64
  bb_jump :: u64
  bb_fail :: u64
  bb_instrs :: "u64 list"

record func =
  fn_addr :: u64
  fn_size :: u64
  fn_name :: string
  fn_blocks :: "basic_block list"
  fn_callees :: "u64 list"

datatype xref_kind = XrefCall | XrefJump | XrefData

record xref =
  xr_from :: u64
  xr_to :: u64
  xr_kind :: xref_kind

record analysis_result =
  ar_functions :: "func list"
  ar_xrefs :: "xref list"

type_synonym decoder = "bytes \<Rightarrow> u64 \<Rightarrow> instruction result"
type_synonym 's byte_reader = "u64 \<Rightarrow> nat \<Rightarrow> 's \<Rightarrow> bytes \<times> 's"

record 's fbuilder =
  fb_leaders :: "u64 list"
  fb_blocks :: "(u64, basic_block) omap"
  fb_callees :: "u64 list"
  fb_xrefs :: "xref list"
  fb_io :: 's

definition kReadWindow :: nat where "kReadWindow = 256"

definition default_name :: "u64 \<Rightarrow> string" where
  "default_name addr = ''fcn.'' @ hex_digits (unat addr)"

section \<open>Tracing one block\<close>

definition add_leader :: "u64 \<Rightarrow> 's fbuilder \<Rightarrow> 's fbuilder" where
  "add_leader addr fb = fb\<lparr>fb_leaders := insort_insert addr (fb_leaders fb)\<rparr>"

definition add_xref :: "u64 \<Rightarrow> u64 \<Rightarrow> xref_kind \<Rightarrow> 's fbuilder \<Rightarrow> 's fbuilder" where
  "add_xref src dst k fb = fb\<lparr>fb_xrefs := fb_xrefs fb @ [\<lparr>xr_from = src, xr_to = dst, xr_kind = k\<rparr>]\<rparr>"

definition add_callee :: "u64 \<Rightarrow> 's fbuilder \<Rightarrow> 's fbuilder" where
  "add_callee c fb = fb\<lparr>fb_callees := fb_callees fb @ [c]\<rparr>"

definition next_pc :: "instruction \<Rightarrow> u64" where
  "next_pc insn = in_address insn + ucast (in_length insn)"

definition push_instr :: "instruction \<Rightarrow> basic_block \<Rightarrow> basic_block" where
  "push_instr insn bb =
     bb\<lparr>bb_instrs := bb_instrs bb @ [in_address insn], bb_size := bb_size bb + ucast (in_length insn)\<rparr>"

text \<open>What a taken branch adds: the reference, the leader and the edge.\<close>

definition take_branch :: "instruction \<Rightarrow> basic_block \<Rightarrow> 's fbuilder \<Rightarrow> basic_block \<times> 's fbuilder" where
  "take_branch insn bb fb =
     (let t = in_branch_target insn in
      if t \<noteq> 0 then
        (bb\<lparr>bb_jump := t\<rparr>, add_leader t (add_xref (in_address insn) t XrefJump fb))
      else (bb, fb))"

text \<open>The call of the reader on the window of one turn.\<close>

definition fill_window :: "'s byte_reader \<Rightarrow> u64 \<Rightarrow> 's fbuilder \<Rightarrow> bytes \<times> 's fbuilder" where
  "fill_window reader pc fb =
     (case reader pc kReadWindow (fb_io fb) of (window, io) \<Rightarrow> (window, fb\<lparr>fb_io := io\<rparr>))"

fun trace_loop ::
    "decoder \<Rightarrow> 's byte_reader \<Rightarrow> nat \<Rightarrow> u64 \<Rightarrow> u64 \<Rightarrow> basic_block \<Rightarrow> 's fbuilder \<Rightarrow> (basic_block \<times> 's fbuilder) option" where
  "trace_loop dis reader 0 start pc bb fb = None"
| "trace_loop dis reader (Suc fuel) start pc bb fb =
     (if pc \<noteq> start \<and> pc \<in> set (fb_leaders fb) then Some (bb\<lparr>bb_fail := pc\<rparr>, fb)
      else
        case fill_window reader pc fb of (window, fb1) \<Rightarrow>
        if window = [] then Some (bb, fb1)
        else
          case dis window pc of
            Err e \<Rightarrow> Some (bb, fb1)
          | Ok insn \<Rightarrow>
              let bb1 = push_instr insn bb; nxt = next_pc insn in
              (case in_flow insn of
                 Jump \<Rightarrow> Some (take_branch insn bb1 fb1)
               | CondJump \<Rightarrow>
                   let (bb2, fb2) = take_branch insn bb1 fb1 in
                   Some (bb2\<lparr>bb_fail := nxt\<rparr>, add_leader nxt fb2)
               | Call \<Rightarrow>
                   let t = in_branch_target insn;
                       fb2 = (if t \<noteq> 0 then add_callee t (add_xref (in_address insn) t XrefCall fb1) else fb1)
                   in trace_loop dis reader fuel start nxt bb1 fb2
               | Return \<Rightarrow> Some (bb1, fb1)
               | Sequential \<Rightarrow> trace_loop dis reader fuel start nxt bb1 fb1))"

definition trace_block ::
    "decoder \<Rightarrow> 's byte_reader \<Rightarrow> nat \<Rightarrow> u64 \<Rightarrow> 's fbuilder \<Rightarrow> (basic_block \<times> 's fbuilder) option" where
  "trace_block dis reader fuel start fb =
     trace_loop dis reader fuel start start
       \<lparr>bb_addr = start, bb_size = 0, bb_jump = 0, bb_fail = 0, bb_instrs = []\<rparr> fb"

section \<open>Discovering the blocks of a function\<close>

definition enqueue :: "u64 \<Rightarrow> u64 list \<times> u64 list \<Rightarrow> u64 list \<times> u64 list" where
  "enqueue s wq =
     (if s \<noteq> 0 \<and> s \<notin> set (snd wq) then (fst wq @ [s], s # snd wq) else wq)"

lemma enqueue_measure:
  "card (UNIV - set (snd (enqueue s wq))) < card (UNIV - set (snd wq)) \<or> enqueue s wq = wq"
proof (cases "s \<noteq> 0 \<and> s \<notin> set (snd wq)")
  case True
  have "card (UNIV - set (s # snd wq)) < card (UNIV - set (snd wq))"
    by (rule psubset_card_mono) (use True in auto)
  with True show ?thesis by (simp add: enqueue_def)
qed (auto simp: enqueue_def)

lemma enqueue_shrinks:
  "enqueue a (enqueue b (w, q)) = (w', q') \<Longrightarrow>
   card (UNIV - set q') < card (UNIV - set q) \<or> w' = w \<and> q' = q"
  using enqueue_measure [of b "(w, q)"] enqueue_measure [of a "enqueue b (w, q)"] by fastforce

text \<open>The work list ends: an address is queued at most once.\<close>

function build_loop ::
    "decoder \<Rightarrow> 's byte_reader \<Rightarrow> nat \<Rightarrow> u64 list \<Rightarrow> u64 list \<Rightarrow> 's fbuilder \<Rightarrow> 's fbuilder option" where
  "build_loop dis reader fuel [] queued fb = Some fb"
| "build_loop dis reader fuel (start # work) queued fb =
     (if map_of (fb_blocks fb) start \<noteq> None then build_loop dis reader fuel work queued fb
      else
        case trace_block dis reader fuel start fb of
          None \<Rightarrow> None
        | Some (bb, fb1) \<Rightarrow>
            (case enqueue (bb_fail bb) (enqueue (bb_jump bb) (work, queued)) of
               (work2, queued2) \<Rightarrow>
                 build_loop dis reader fuel work2 queued2
                   (fb1\<lparr>fb_blocks := om_emplace (bb_addr bb) bb (fb_blocks fb1)\<rparr>)))"
  by pat_completeness auto
termination
  by (relation "(\<lambda>(dis, reader, fuel, work, queued, fb). card (UNIV - set queued)) <*mlex*>
      measure (\<lambda>(dis, reader, fuel, work, queued, fb). length work)")
    (auto simp: mlex_prod_def dest!: enqueue_shrinks [OF sym])

section \<open>Splitting blocks\<close>

definition is_instr_boundary :: "basic_block \<Rightarrow> u64 \<Rightarrow> bool" where
  "is_instr_boundary bb addr \<longleftrightarrow> addr \<in> set (bb_instrs bb)"

definition split_head :: "basic_block \<Rightarrow> u64 \<Rightarrow> basic_block" where
  "split_head bb leader =
     bb\<lparr>bb_size := leader - bb_addr bb, bb_instrs := filter (\<lambda>ia. ia < leader) (bb_instrs bb),
        bb_jump := 0, bb_fail := leader\<rparr>"

definition split_tail :: "basic_block \<Rightarrow> u64 \<Rightarrow> basic_block" where
  "split_tail bb leader =
     \<lparr>bb_addr = leader, bb_size = bb_size bb - (leader - bb_addr bb), bb_jump = bb_jump bb,
      bb_fail = bb_fail bb, bb_instrs = filter (\<lambda>ia. \<not> ia < leader) (bb_instrs bb)\<rparr>"

definition inside :: "basic_block \<Rightarrow> u64 \<Rightarrow> bool" where
  "inside bb leader \<longleftrightarrow> \<not> (leader \<le> bb_addr bb \<or> leader \<ge> bb_addr bb + bb_size bb)"

text \<open>The inner loop over the leaders: the first one inside the block, on an instruction.\<close>

fun first_leader :: "basic_block \<Rightarrow> u64 list \<Rightarrow> u64 option" where
  "first_leader bb [] = None"
| "first_leader bb (l # ls) =
     (if inside bb l \<and> is_instr_boundary bb l then Some l else first_leader bb ls)"

text \<open>The loop over the blocks: cut the first block that needs it, in place.\<close>

fun split_first ::
    "u64 list \<Rightarrow> (u64, basic_block) omap \<Rightarrow> ((u64, basic_block) omap \<times> basic_block) option" where
  "split_first leaders [] = None"
| "split_first leaders ((k, bb) # rest) =
     (case first_leader bb leaders of
        Some l \<Rightarrow> Some ((k, split_head bb l) # rest, split_tail bb l)
      | None \<Rightarrow> (case split_first leaders rest of
                   Some (r, t) \<Rightarrow> Some ((k, bb) # r, t) | None \<Rightarrow> None))"

text \<open>Every cut uses up a leader inside a block: the measure of the outer loop.\<close>

definition interior :: "u64 list \<Rightarrow> basic_block \<Rightarrow> u64 list" where
  "interior leaders bb = filter (\<lambda>ia. ia \<in> set leaders \<and> inside bb ia) (bb_instrs bb)"

definition cuts_left :: "u64 list \<Rightarrow> (u64, basic_block) omap \<Rightarrow> nat" where
  "cuts_left leaders m = (\<Sum>e\<leftarrow>m. length (interior leaders (snd e)))"

lemma first_leader_Some:
  "first_leader bb ls = Some l \<Longrightarrow> l \<in> set ls \<and> inside bb l \<and> is_instr_boundary bb l"
  by (induction bb ls rule: first_leader.induct) (auto split: if_splits)

lemma first_leader_None:
  "first_leader bb ls = None \<longleftrightarrow> (\<forall>l \<in> set ls. \<not> (inside bb l \<and> is_instr_boundary bb l))"
  by (induction bb ls rule: first_leader.induct) auto

lemma interior_split:
  assumes "inside bb l" "is_instr_boundary bb l" "l \<in> set ls"
  shows "length (interior ls (split_head bb l)) + length (interior ls (split_tail bb l))
    < length (interior ls bb)"
proof -
  let ?P = "\<lambda>ia. ia \<in> set ls \<and> inside bb ia"
  have l: "bb_addr bb < l" "l < bb_addr bb + bb_size bb" using assms(1) by (auto simp: inside_def)
  have tail_end: "l + (bb_size bb - (l - bb_addr bb)) = bb_addr bb + bb_size bb" by simp
  have head: "interior ls (split_head bb l) = filter (\<lambda>ia. ia < l) (interior ls bb)"
    using l by (auto simp: interior_def split_head_def inside_def intro!: filter_cong)
  have tail: "interior ls (split_tail bb l) = filter (\<lambda>ia. l < ia) (interior ls bb)"
    using l unfolding interior_def split_tail_def inside_def basic_block.select_convs tail_end
    by (auto intro!: filter_cong)
  have "l \<in> set (interior ls bb)"
    using assms by (simp add: interior_def is_instr_boundary_def)
  then have "0 < length (filter (\<lambda>ia. ia = l) (interior ls bb))"
    by (auto simp: length_greater_0_conv filter_empty_conv)
  moreover have "length (filter (\<lambda>ia. ia < l) xs) + length (filter (\<lambda>ia. l < ia) xs) +
      length (filter (\<lambda>ia. ia = l) xs) = length xs" for xs
    by (induction xs) auto
  ultimately show ?thesis unfolding head tail by (metis add_less_cancel_left less_add_same_cancel1)
qed

lemma split_first_shrinks:
  "split_first ls m = Some (m1, t) \<Longrightarrow> cuts_left ls m1 + length (interior ls t) < cuts_left ls m"
proof (induction ls m arbitrary: m1 rule: split_first.induct)
  case (2 ls k bb rest)
  show ?case
  proof (cases "first_leader bb ls")
    case None
    with "2.prems" obtain r where r: "split_first ls rest = Some (r, t)" "m1 = (k, bb) # r"
      by (auto split: option.splits prod.splits)
    then show ?thesis using "2.IH" [OF None r(1)] by (simp add: cuts_left_def)
  next
    case (Some l)
    then show ?thesis
      using "2.prems" first_leader_Some [OF Some] interior_split [of bb l ls] by (auto simp: cuts_left_def)
  qed
qed simp

lemma cuts_left_emplace: "cuts_left ls (om_emplace k bb m) \<le> cuts_left ls m + length (interior ls bb)"
proof (cases "map_of m k")
  case None
  have "cuts_left ls (om_put k bb m) = (\<Sum>e\<in>#mset (om_put k bb m). length (interior ls (snd e)))"
    by (simp add: cuts_left_def flip: sum_mset_sum_list mset_map)
  also have "\<dots> = length (interior ls bb) + cuts_left ls m"
    unfolding mset_om_put_fresh [OF None] by (simp add: cuts_left_def flip: sum_mset_sum_list mset_map)
  finally show ?thesis using None by (simp add: om_emplace_def)
qed (simp add: om_emplace_def)

function split_loop :: "u64 list \<Rightarrow> (u64, basic_block) omap \<Rightarrow> (u64, basic_block) omap" where
  "split_loop leaders m =
     (case split_first leaders m of
        None \<Rightarrow> m
      | Some (m1, t) \<Rightarrow> split_loop leaders (om_emplace (bb_addr t) t m1))"
  by pat_completeness auto
termination
proof (relation "measure (\<lambda>(leaders, m). cuts_left leaders m)", goal_cases)
  case (2 leaders m p m1 t)
  then show ?case
    using split_first_shrinks [of leaders m m1 t] cuts_left_emplace [of leaders "bb_addr t" t m1] by simp
qed simp

declare split_loop.simps [simp del]

definition finalize :: "u64 \<Rightarrow> 's fbuilder \<Rightarrow> func" where
  "finalize entry fb =
     (let blocks = map snd (split_loop (fb_leaders fb) (fb_blocks fb)) in
      \<lparr>fn_addr = entry, fn_size = (\<Sum>bb\<leftarrow>blocks. bb_size bb), fn_name = default_name entry,
       fn_blocks = sort_key bb_addr blocks, fn_callees = []\<rparr>)"

text \<open>
  \<open>build\<close> returns the function, its call targets, the references with the new ones added and the
  state behind the reader.
\<close>

definition build ::
    "decoder \<Rightarrow> 's byte_reader \<Rightarrow> nat \<Rightarrow> u64 \<Rightarrow> xref list \<Rightarrow> 's \<Rightarrow>
     (func \<times> u64 list \<times> xref list \<times> 's) option" where
  "build dis reader fuel entry xrefs io =
     (case build_loop dis reader fuel [entry] [entry]
             \<lparr>fb_leaders = [entry], fb_blocks = [], fb_callees = [], fb_xrefs = xrefs, fb_io = io\<rparr> of
        None \<Rightarrow> None
      | Some fb \<Rightarrow> Some (finalize entry fb, fb_callees fb, fb_xrefs fb, fb_io fb))"

section \<open>The analyzer\<close>

fun enqueue_callees :: "u64 list \<Rightarrow> u64 list \<times> u64 list \<Rightarrow> u64 list \<times> u64 list" where
  "enqueue_callees [] wq = wq"
| "enqueue_callees (c # cs) (work, queued) =
     (if c \<notin> set queued then enqueue_callees cs (work @ [c], c # queued)
      else enqueue_callees cs (work, queued))"

lemma enqueue_callees_grows:
  "enqueue_callees cs (w, q) = (w', q') \<Longrightarrow>
   set q' = set q \<union> set cs \<and> (\<exists>new. w' = w @ new \<and> set new = set cs - set q)"
proof (induction cs arbitrary: w q)
  case (Cons c cs)
  show ?case
  proof (cases "c \<in> set q")
    case True
    with Cons.IH [of w q] Cons.prems show ?thesis by auto
  next
    case False
    with Cons.IH [of "w @ [c]" "c # q"] Cons.prems obtain new where
      "set q' = set (c # q) \<union> set cs" "w' = (w @ [c]) @ new" "set new = set cs - set (c # q)" by auto
    with False show ?thesis by (intro conjI exI [of _ "c # new"]) auto
  qed
qed simp

lemma enqueue_callees_shrinks:
  "enqueue_callees cs (w, q) = (w', q') \<Longrightarrow>
   card (UNIV - set q') < card (UNIV - set q) \<or> w' = w \<and> card (UNIV - set q') = card (UNIV - set q)"
proof -
  assume e: "enqueue_callees cs (w, q) = (w', q')"
  note g = enqueue_callees_grows [OF e]
  show ?thesis
  proof (cases "set cs \<subseteq> set q")
    case True
    then have "set cs - set q = {}" by blast
    with g have "set q' = set q" "w' = w" by auto
    then show ?thesis by simp
  next
    case False
    then have "card (UNIV - set q') < card (UNIV - set q)"
      using g by (intro psubset_card_mono) auto
    then show ?thesis by simp
  qed
qed

function analyze_loop ::
    "decoder \<Rightarrow> 's byte_reader \<Rightarrow> nat \<Rightarrow> (u64 \<Rightarrow> string option) option \<Rightarrow>
     u64 list \<Rightarrow> u64 list \<Rightarrow> u64 list \<Rightarrow> analysis_result \<Rightarrow> 's \<Rightarrow> (analysis_result \<times> 's) option" where
  "analyze_loop dis reader fuel symbols [] queued analyzed result io = Some (result, io)"
| "analyze_loop dis reader fuel symbols (entry # work) queued analyzed result io =
     (if entry = 0 \<or> entry \<in> set analyzed
      then analyze_loop dis reader fuel symbols work queued analyzed result io
      else
        case build dis reader fuel entry (ar_xrefs result) io of
          None \<Rightarrow> None
        | Some (fn, callees, xrefs, io1) \<Rightarrow>
            let result1 = result\<lparr>ar_xrefs := xrefs\<rparr> in
            if fn_blocks fn = [] then
              analyze_loop dis reader fuel symbols work queued (entry # analyzed) result1 io1
            else
              let cs = remdups_adj (sort callees);
                  name = (case symbols of None \<Rightarrow> fn_name fn
                          | Some look \<Rightarrow> (case look entry of Some n \<Rightarrow> n | None \<Rightarrow> fn_name fn));
                  fn1 = fn\<lparr>fn_callees := cs, fn_name := name\<rparr>
              in (case enqueue_callees cs (work, queued) of
                    (work2, queued2) \<Rightarrow>
                      analyze_loop dis reader fuel symbols work2 queued2 (entry # analyzed)
                        (result1\<lparr>ar_functions := ar_functions result1 @ [fn1]\<rparr>) io1))"
  by pat_completeness auto
termination
  by (relation "(\<lambda>(dis, reader, fuel, symbols, work, queued, analyzed, result, io). card (UNIV - set queued)) <*mlex*>
      measure (\<lambda>(dis, reader, fuel, symbols, work, queued, analyzed, result, io). length work)")
    (auto simp: mlex_prod_def dest!: enqueue_callees_shrinks [OF sym])

definition analyze ::
    "decoder \<Rightarrow> 's byte_reader \<Rightarrow> nat \<Rightarrow> (u64 \<Rightarrow> string option) option \<Rightarrow> u64 list \<Rightarrow> 's \<Rightarrow>
     (analysis_result \<times> 's) option" where
  "analyze dis reader fuel symbols entry_points io =
     (case analyze_loop dis reader fuel symbols entry_points entry_points []
             \<lparr>ar_functions = [], ar_xrefs = []\<rparr> io of
        None \<Rightarrow> None
      | Some (r, io1) \<Rightarrow> Some (r\<lparr>ar_functions := sort_key fn_addr (ar_functions r)\<rparr>, io1))"

section \<open>The blocks of a function\<close>

text \<open>What the tracer leaves alone, and the edges it adds: their targets are leaders.\<close>

lemma set_insort_insert [simp]: "set (insort_insert a xs) = insert a (set xs)"
  by (simp add: set_insort_insert)

lemma trace_loop_block:
  "trace_loop dis reader fuel start pc bb fb = Some (bb1, fb1) \<Longrightarrow>
   bb_jump bb = 0 \<Longrightarrow> bb_fail bb = 0 \<Longrightarrow>
   bb_addr bb1 = bb_addr bb \<and> fb_blocks fb1 = fb_blocks fb \<and>
   set (fb_leaders fb) \<subseteq> set (fb_leaders fb1) \<and>
   set (fb_leaders fb1) \<subseteq> set (fb_leaders fb) \<union> {bb_jump bb1, bb_fail bb1} \<and>
   {bb_jump bb1, bb_fail bb1} \<subseteq> set (fb_leaders fb1) \<union> {0}"
proof (induction fuel arbitrary: pc bb fb)
  case (Suc fuel)
  obtain window fb0 where w: "fill_window reader pc fb = (window, fb0)" by fastforce
  then have same: "fb_blocks fb0 = fb_blocks fb" "fb_leaders fb0 = fb_leaders fb"
    by (auto simp: fill_window_def split: prod.splits)
  show ?case
  proof (cases "pc \<noteq> start \<and> pc \<in> set (fb_leaders fb) \<or> window = []")
    case True
    then show ?thesis using Suc.prems w same by (auto simp: Let_def split: if_splits)
  next
    case False
    show ?thesis
    proof (cases "dis window pc")
      case (Err e)
      then show ?thesis using Suc.prems False w same by (auto simp: Let_def split: if_splits)
    next
      case (Ok insn)
      show ?thesis
      proof (cases "in_flow insn = Sequential \<or> in_flow insn = Call")
        case True
        define fb2 where "fb2 = (if in_flow insn = Call \<and> in_branch_target insn \<noteq> 0
          then add_callee (in_branch_target insn) (add_xref (in_address insn) (in_branch_target insn) XrefCall fb0)
          else fb0)"
        have "trace_loop dis reader fuel start (next_pc insn) (push_instr insn bb) fb2 = Some (bb1, fb1)"
          using Suc.prems(1) False Ok True w by (auto simp: Let_def fb2_def split: if_splits)
        moreover have "bb_addr (push_instr insn bb) = bb_addr bb" "bb_jump (push_instr insn bb) = 0"
          "bb_fail (push_instr insn bb) = 0" "fb_blocks fb2 = fb_blocks fb" "fb_leaders fb2 = fb_leaders fb"
          using Suc.prems(2,3) same by (auto simp: push_instr_def fb2_def add_callee_def add_xref_def)
        ultimately show ?thesis using Suc.IH by metis
      next
        case flow: False
        then show ?thesis
          using Suc.prems False Ok w same
          by (auto simp: Let_def take_branch_def push_instr_def add_leader_def add_xref_def
              split: if_splits flow.splits)
      qed
    qed
  qed
qed simp

lemma trace_block_block:
  assumes "trace_block dis reader fuel start fb = Some (bb, fb1)"
  shows "bb_addr bb = start" "fb_blocks fb1 = fb_blocks fb" "set (fb_leaders fb) \<subseteq> set (fb_leaders fb1)"
    "set (fb_leaders fb1) \<subseteq> set (fb_leaders fb) \<union> {bb_jump bb, bb_fail bb}"
    "{bb_jump bb, bb_fail bb} \<subseteq> set (fb_leaders fb1) \<union> {0}"
  using trace_loop_block [OF assms [unfolded trace_block_def]] by auto

section \<open>Every edge leads to a block\<close>

abbreviation keys :: "(u64, basic_block) omap \<Rightarrow> u64 set" where
  "keys m \<equiv> fst ` set m"

definition edges :: "basic_block \<Rightarrow> u64 set" where
  "edges bb = {bb_jump bb, bb_fail bb} - {0}"

text \<open>Blocks sit at their own address, and their edges lead into \<open>S\<close>.\<close>

definition blocks_ok :: "u64 set \<Rightarrow> (u64, basic_block) omap \<Rightarrow> bool" where
  "blocks_ok S m \<longleftrightarrow> om_ok m \<and> (\<forall>(k, bb) \<in> set m. bb_addr bb = k \<and> edges bb \<subseteq> S)"

lemma blocks_ok_mono: "blocks_ok S m \<Longrightarrow> S \<subseteq> T \<Longrightarrow> blocks_ok T m"
  unfolding blocks_ok_def by blast

lemma blocks_ok_emplace:
  "blocks_ok S m \<Longrightarrow> edges bb \<subseteq> S \<Longrightarrow> blocks_ok S (om_emplace (bb_addr bb) bb m)"
  unfolding blocks_ok_def by (auto simp: set_om_emplace om.ok_emplace)

lemma enqueue_sets:
  assumes "enqueue a (enqueue b (w, q)) = (w', q')"
  shows "set q' = set q \<union> ({a, b} - {0})" "set w' = set w \<union> ({a, b} - {0} - set q)"
  using assms by (auto simp: enqueue_def split: if_splits)

definition build_inv :: "u64 list \<Rightarrow> u64 list \<Rightarrow> 's fbuilder \<Rightarrow> bool" where
  "build_inv work queued fb \<longleftrightarrow>
     blocks_ok (set queued) (fb_blocks fb) \<and>
     keys (fb_blocks fb) \<subseteq> set queued \<and> set work \<subseteq> set queued \<and>
     set queued \<subseteq> set work \<union> keys (fb_blocks fb) \<and>
     set queued \<subseteq> set (fb_leaders fb) \<and> set (fb_leaders fb) \<subseteq> set queued \<union> {0}"

lemma build_inv_step:
  assumes "build_inv (start # work) queued fb"
    and t: "trace_block dis reader fuel start fb = Some (bb, fb1)"
    and e: "enqueue (bb_fail bb) (enqueue (bb_jump bb) (work, queued)) = (work2, queued2)"
  shows "build_inv work2 queued2 (fb1\<lparr>fb_blocks := om_emplace (bb_addr bb) bb (fb_blocks fb1)\<rparr>)"
proof -
  note t = trace_block_block [OF t]
  note q = enqueue_sets [OF e]
  have ed: "edges bb \<subseteq> set queued2" using q(1) by (auto simp: edges_def)
  have "blocks_ok (set queued2) (om_emplace (bb_addr bb) bb (fb_blocks fb1))"
  proof (rule blocks_ok_emplace [OF blocks_ok_mono ed])
    show "blocks_ok (set queued) (fb_blocks fb1)" using assms(1) t(2) by (simp add: build_inv_def)
    show "set queued \<subseteq> set queued2" using q(1) by blast
  qed
  moreover have "keys (om_emplace (bb_addr bb) bb (fb_blocks fb1)) = insert start (keys (fb_blocks fb))"
    using t(1,2) by simp
  ultimately show ?thesis
    using assms(1) t(3-5) q unfolding build_inv_def by auto
qed

lemma build_loop_inv:
  "build_loop dis reader fuel work queued fb = Some fb1 \<Longrightarrow> build_inv work queued fb \<Longrightarrow>
   \<exists>queued1. build_inv [] queued1 fb1 \<and> set queued \<subseteq> set queued1"
proof (induction dis reader fuel work queued fb rule: build_loop.induct)
  case (2 dis reader fuel start work queued fb)
  show ?case
  proof (cases "map_of (fb_blocks fb) start = None")
    case False
    then have "start \<in> keys (fb_blocks fb)" by (simp add: map_of_eq_None_iff)
    then have "build_inv work queued fb" using "2.prems"(2) by (auto simp: build_inv_def)
    with "2.IH"(1) False "2.prems"(1) show ?thesis by simp
  next
    case True
    then obtain bb fb2 where t: "trace_block dis reader fuel start fb = Some (bb, fb2)"
      using "2.prems"(1) by (auto split: option.splits)
    obtain work2 queued2 where e: "enqueue (bb_fail bb) (enqueue (bb_jump bb) (work, queued)) = (work2, queued2)"
      by fastforce
    let ?fb = "fb2\<lparr>fb_blocks := om_emplace (bb_addr bb) bb (fb_blocks fb2)\<rparr>"
    have "build_loop dis reader fuel work2 queued2 ?fb = Some fb1"
      using "2.prems"(1) True t e by simp
    then obtain queued1 where "build_inv [] queued1 fb1" "set queued2 \<subseteq> set queued1"
      using "2.IH"(2) [OF _ t refl e [symmetric]] build_inv_step [OF "2.prems"(2) t e] True by blast
    moreover have "set queued \<subseteq> set queued2" using enqueue_sets(1) [OF e] by blast
    ultimately show ?thesis by blast
  qed
qed auto

lemma split_loop_cases:
  obtains (cut) m1 t where "split_first ls m = Some (m1, t)"
      "split_loop ls m = split_loop ls (om_emplace (bb_addr t) t m1)"
  | (whole) "split_first ls m = None" "split_loop ls m = m"
proof (cases "split_first ls m")
  case None
  then show thesis using whole split_loop.simps [of ls m] by simp
next
  case (Some p)
  then show thesis using cut by (cases p) (simp add: split_loop.simps)
qed

lemma split_first_Some:
  "split_first ls m = Some (m1, t) \<Longrightarrow>
   \<exists>pre k bb post l. m = pre @ (k, bb) # post \<and> m1 = pre @ (k, split_head bb l) # post \<and>
     t = split_tail bb l \<and> l \<in> set ls \<and> inside bb l \<and> is_instr_boundary bb l"
proof (induction ls m arbitrary: m1 rule: split_first.induct)
  case (2 ls k bb rest)
  show ?case
  proof (cases "first_leader bb ls")
    case None
    with "2.prems" obtain r where r: "split_first ls rest = Some (r, t)" "m1 = (k, bb) # r"
      by (auto split: option.splits prod.splits)
    from "2.IH" [OF None r(1)] obtain pre k' bb' post l where
      "rest = pre @ (k', bb') # post \<and> r = pre @ (k', split_head bb' l) # post \<and>
       t = split_tail bb' l \<and> l \<in> set ls \<and> inside bb' l \<and> is_instr_boundary bb' l" by blast
    with r(2) show ?thesis by (intro exI [of _ "(k, bb) # pre"]) auto
  next
    case (Some l)
    with first_leader_Some [OF Some] "2.prems" show ?thesis
      by (intro exI [of _ "[]"] exI [of _ k] exI [of _ bb] exI [of _ rest] exI [of _ l]) auto
  qed
qed simp

lemma split_first_None:
  "split_first ls m = None \<Longrightarrow> (k, bb) \<in> set m \<Longrightarrow> l \<in> set ls \<Longrightarrow> inside bb l \<Longrightarrow> \<not> is_instr_boundary bb l"
  by (induction ls m rule: split_first.induct) (auto simp: first_leader_None split: option.splits prod.splits)

text \<open>Cutting keeps every edge on a block: the new edge leads to the tail, whose address is now a key.\<close>

lemma split_step_ok:
  assumes ok: "blocks_ok (keys m) m" and ls: "keys m \<subseteq> set ls"
    and cut: "split_first ls m = Some (m1, t)"
  defines "m2 \<equiv> om_emplace (bb_addr t) t m1"
  shows "blocks_ok (keys m2) m2" "keys m2 \<subseteq> set ls" "keys m \<subseteq> keys m2"
proof -
  obtain pre k bb post l where c: "m = pre @ (k, bb) # post" "m1 = pre @ (k, split_head bb l) # post"
    "t = split_tail bb l" "l \<in> set ls"
    using split_first_Some [OF cut] by blast
  have km: "keys m1 = keys m" "map fst m1 = map fst m" using c(1,2) by simp_all
  have k2: "keys m2 = insert l (keys m)" unfolding m2_def c(3) by (simp add: split_tail_def km)
  show "keys m2 \<subseteq> set ls" "keys m \<subseteq> keys m2" using k2 c(4) ls by auto
  have bb: "bb_addr bb = k" "edges bb \<subseteq> keys m" using ok c(1) by (auto simp: blocks_ok_def)
  have "om_ok m1" using ok km(2) by (simp add: blocks_ok_def om_ok_def)
  moreover have "bb_addr b = j \<and> edges b \<subseteq> keys m2" if "(j, b) \<in> set m1" for j b
  proof -
    consider "(j, b) \<in> set m" | "j = k" "b = split_head bb l" using \<open>(j, b) \<in> set m1\<close> c(1,2) by auto
    then show ?thesis
    proof cases
      case 1
      then show ?thesis using ok k2 by (auto simp: blocks_ok_def)
    next
      case 2
      then show ?thesis using bb(1) k2 by (auto simp: split_head_def edges_def)
    qed
  qed
  moreover have "edges t \<subseteq> keys m2" using bb(2) k2 c(3) by (auto simp: split_tail_def edges_def)
  ultimately show "blocks_ok (keys m2) m2"
    unfolding m2_def by (intro blocks_ok_emplace) (auto simp: blocks_ok_def m2_def)
qed

lemma split_loop_ok:
  "blocks_ok (keys m) m \<Longrightarrow> keys m \<subseteq> set ls \<Longrightarrow>
   blocks_ok (keys (split_loop ls m)) (split_loop ls m) \<and> keys m \<subseteq> keys (split_loop ls m) \<and>
   keys (split_loop ls m) \<subseteq> set ls \<and> split_first ls (split_loop ls m) = None"
proof (induction ls m rule: split_loop.induct)
  case (1 ls m)
  show ?case
  proof (cases rule: split_loop_cases [of ls m])
    case whole
    then show ?thesis using "1.prems" by simp
  next
    case (cut m1 t)
    note s = split_step_ok [OF "1.prems" cut(1)]
    note r = "1.IH" [OF cut(1) refl s(1,2)]
    show ?thesis
      unfolding cut(2)
    proof (intro conjI)
      show "keys m \<subseteq> keys (split_loop ls (om_emplace (bb_addr t) t m1))"
        by (rule subset_trans [OF s(3)]) (use r in blast)
    qed (use r in blast)+
  qed
qed

section \<open>The function that is built\<close>

definition block_starts :: "func \<Rightarrow> u64 set" where
  "block_starts fn = bb_addr ` set (fn_blocks fn)"

lemma map_snd_addr: "blocks_ok S m \<Longrightarrow> map bb_addr (map snd m) = map fst m"
  by (auto simp: blocks_ok_def)

lemma build_inv_init:
  "build_inv [entry] [entry] \<lparr>fb_leaders = [entry], fb_blocks = [], fb_callees = [], fb_xrefs = xrefs, fb_io = io\<rparr>"
  by (simp add: build_inv_def blocks_ok_def)

lemma build_blocks:
  assumes "build dis reader fuel entry xrefs io = Some (fn, callees, xrefs1, io1)"
  obtains m ls where "blocks_ok (keys m) m" "entry \<in> keys m" "keys m \<subseteq> set ls" "split_first ls m = None"
    "fn = \<lparr>fn_addr = entry, fn_size = (\<Sum>bb\<leftarrow>map snd m. bb_size bb), fn_name = default_name entry,
       fn_blocks = map snd m, fn_callees = []\<rparr>"
proof -
  obtain fb where b: "build_loop dis reader fuel [entry] [entry]
      \<lparr>fb_leaders = [entry], fb_blocks = [], fb_callees = [], fb_xrefs = xrefs, fb_io = io\<rparr> = Some fb"
    "fn = finalize entry fb"
    using assms by (auto simp: build_def split: option.splits)
  obtain queued where inv: "build_inv [] queued fb" "entry \<in> set queued"
    using build_loop_inv [OF b(1) build_inv_init] by auto
  then have "keys (fb_blocks fb) = set queued" by (auto simp: build_inv_def)
  then have "blocks_ok (keys (fb_blocks fb)) (fb_blocks fb)" "keys (fb_blocks fb) \<subseteq> set (fb_leaders fb)"
    "entry \<in> keys (fb_blocks fb)"
    using inv by (auto simp: build_inv_def)
  note s = split_loop_ok [OF this(1,2)] this(3)
  let ?m = "split_loop (fb_leaders fb) (fb_blocks fb)"
  have "sorted (map bb_addr (map snd ?m))"
    unfolding map_snd_addr [OF conjunct1 [OF s(1)]]
    using s(1) by (intro om_ok_sorted) (simp add: blocks_ok_def)
  then have "sort_key bb_addr (map snd ?m) = map snd ?m" by (rule sort_key_id_if_sorted)
  then have fn: "fn = \<lparr>fn_addr = entry, fn_size = (\<Sum>bb\<leftarrow>map snd ?m. bb_size bb), fn_name = default_name entry,
       fn_blocks = map snd ?m, fn_callees = []\<rparr>"
    using b(2) by (simp add: finalize_def)
  show thesis
    by (rule that [of ?m "fb_leaders fb"]) (use s fn in blast)+
qed

text \<open>A control-flow graph as the rest of the program expects it.\<close>

definition cfg_ok :: "func \<Rightarrow> bool" where
  "cfg_ok fn \<longleftrightarrow>
     fn_addr fn \<in> block_starts fn \<and>
     sorted (map bb_addr (fn_blocks fn)) \<and> distinct (map bb_addr (fn_blocks fn)) \<and>
     (\<forall>bb \<in> set (fn_blocks fn). edges bb \<subseteq> block_starts fn \<and>
        (\<forall>ia \<in> set (bb_instrs bb). inside bb ia \<longrightarrow> ia \<notin> block_starts fn)) \<and>
     fn_size fn = (\<Sum>bb\<leftarrow>fn_blocks fn. bb_size bb)"

lemma build_cfg_ok:
  assumes "build dis reader fuel entry xrefs io = Some (fn, callees, xrefs1, io1)"
  shows "cfg_ok fn \<and> fn_addr fn = entry \<and> fn_blocks fn \<noteq> []"
proof -
  from assms obtain m ls where m: "blocks_ok (keys m) m" "entry \<in> keys m" "keys m \<subseteq> set ls"
    "split_first ls m = None"
    "fn = \<lparr>fn_addr = entry, fn_size = (\<Sum>bb\<leftarrow>map snd m. bb_size bb), fn_name = default_name entry,
       fn_blocks = map snd m, fn_callees = []\<rparr>"
    by (rule build_blocks)
  have addrs: "map bb_addr (fn_blocks fn) = map fst m" using map_snd_addr [OF m(1)] m(5) by simp
  have starts: "block_starts fn = keys m"
    using arg_cong [OF addrs, of set] by (simp add: block_starts_def)
  define good where "good bb \<longleftrightarrow> edges bb \<subseteq> keys m \<and>
      (\<forall>ia \<in> set (bb_instrs bb). inside bb ia \<longrightarrow> ia \<notin> keys m)" for bb
  have "good (snd e)" if "e \<in> set m" for e
  proof -
    obtain k bb where e: "e = (k, bb)" by (cases e)
    show ?thesis
      using m(1,3) that split_first_None [OF m(4) that [unfolded e]]
      unfolding e good_def by (auto simp: blocks_ok_def is_instr_boundary_def)
  qed
  then have "\<forall>bb \<in> set (fn_blocks fn). good bb"
    by (simp add: m(5))
  moreover have "sorted (map fst m)" "distinct (map fst m)"
    using m(1) by (simp_all add: blocks_ok_def om_ok_sorted om_ok_distinct)
  moreover have "m \<noteq> []" using m(2) by auto
  ultimately show ?thesis
    unfolding cfg_ok_def starts addrs good_def using m(2,5) by simp
qed

section \<open>The whole program\<close>

definition analysis_inv ::
    "u64 list \<Rightarrow> u64 list \<Rightarrow> u64 list \<Rightarrow> u64 list \<Rightarrow> func list \<Rightarrow> bool" where
  "analysis_inv entries work queued analyzed fs \<longleftrightarrow>
     distinct (map fn_addr fs) \<and> fn_addr ` set fs = set analyzed \<and>
     (\<forall>f \<in> set fs. cfg_ok f \<and> set (fn_callees f) \<subseteq> set queued \<and>
        sorted (fn_callees f) \<and> distinct (fn_callees f)) \<and>
     set entries \<subseteq> set queued \<and> set queued \<subseteq> set work \<union> set analyzed \<union> {0}"

lemma cfg_ok_update: "cfg_ok (fn\<lparr>fn_callees := cs, fn_name := n\<rparr>) = cfg_ok fn"
  by (simp add: cfg_ok_def block_starts_def)

lemma remdups_adj_sort: "sorted (remdups_adj (sort xs))" "distinct (remdups_adj (sort xs))"
  for xs :: "u64 list"
proof -
  have "sorted ys \<Longrightarrow> distinct (remdups_adj ys)" for ys :: "u64 list"
    by (induction ys rule: remdups_adj.induct) auto
  then show "sorted (remdups_adj (sort xs))" "distinct (remdups_adj (sort xs))"
    by (simp_all add: sorted_remdups_adj)
qed

lemma analysis_inv_skip:
  "analysis_inv entries (entry # work) queued analyzed fs \<Longrightarrow> entry = 0 \<or> entry \<in> set analyzed \<Longrightarrow>
   analysis_inv entries work queued analyzed fs"
  unfolding analysis_inv_def by auto

lemma analysis_inv_step:
  assumes inv: "analysis_inv entries (entry # work) queued analyzed fs" and new: "entry \<notin> set analyzed"
    and b: "build dis reader fuel entry xs io = Some (fn, callees, xs1, io1)"
    and e: "enqueue_callees (remdups_adj (sort callees)) (work, queued) = (work2, queued2)"
  shows "analysis_inv entries work2 queued2 (entry # analyzed)
    (fs @ [fn\<lparr>fn_callees := remdups_adj (sort callees), fn_name := n\<rparr>])"
proof -
  note fn = build_cfg_ok [OF b]
  obtain w where g: "set queued2 = set queued \<union> set callees" "work2 = work @ w" "set w = set callees - set queued"
    using enqueue_callees_grows [OF e] by auto
  define f where "f = fn\<lparr>fn_callees := remdups_adj (sort callees), fn_name := n\<rparr>"
  have f: "cfg_ok f" "fn_addr f = entry" "set (fn_callees f) \<subseteq> set queued2"
    "sorted (fn_callees f)" "distinct (fn_callees f)"
    using fn g(1) remdups_adj_sort [of callees] by (simp_all add: f_def cfg_ok_update)
  from inv have i: "distinct (map fn_addr fs)" "fn_addr ` set fs = set analyzed"
    "\<forall>f \<in> set fs. cfg_ok f \<and> set (fn_callees f) \<subseteq> set queued \<and> sorted (fn_callees f) \<and> distinct (fn_callees f)"
    "set entries \<subseteq> set queued" "set queued \<subseteq> set (entry # work) \<union> set analyzed \<union> {0}"
    unfolding analysis_inv_def by - (elim conjE, assumption)+
  show ?thesis
    unfolding analysis_inv_def f_def [symmetric]
  proof (intro conjI)
    show "distinct (map fn_addr (fs @ [f]))" "fn_addr ` set (fs @ [f]) = set (entry # analyzed)"
      using i(1,2) f(2) new by auto
    show "\<forall>f \<in> set (fs @ [f]). cfg_ok f \<and> set (fn_callees f) \<subseteq> set queued2 \<and>
        sorted (fn_callees f) \<and> distinct (fn_callees f)"
      using i(3) f g(1) by auto
    show "set entries \<subseteq> set queued2" "set queued2 \<subseteq> set work2 \<union> set (entry # analyzed) \<union> {0}"
      using i(4,5) g by auto
  qed
qed

lemma analyze_loop_inv:
  "analyze_loop dis reader fuel symbols work queued analyzed result io = Some (r, io1) \<Longrightarrow>
   analysis_inv entries work queued analyzed (ar_functions result) \<Longrightarrow>
   \<exists>queued1 analyzed1. analysis_inv entries [] queued1 analyzed1 (ar_functions r)"
proof (induction dis reader fuel symbols work queued analyzed result io rule: analyze_loop.induct)
  case (2 dis reader fuel symbols entry work queued analyzed result io)
  show ?case
  proof (cases "entry = 0 \<or> entry \<in> set analyzed")
    case True
    then show ?thesis using "2.IH"(1) [OF True] "2.prems" analysis_inv_skip by auto
  next
    case False
    obtain fn callees xs io2 where b: "build dis reader fuel entry (ar_xrefs result) io = Some (fn, callees, xs, io2)"
      using "2.prems"(1) False by (auto split: option.splits)
    let ?cs = "remdups_adj (sort callees)"
    obtain work2 queued2 where e: "enqueue_callees ?cs (work, queued) = (work2, queued2)" by fastforce
    have ne: "fn_blocks fn \<noteq> []" using build_cfg_ok [OF b] by blast
    let ?name = "case symbols of None \<Rightarrow> fn_name fn
      | Some look \<Rightarrow> (case look entry of Some n \<Rightarrow> n | None \<Rightarrow> fn_name fn)"
    have rec: "analyze_loop dis reader fuel symbols work2 queued2 (entry # analyzed)
        (result\<lparr>ar_xrefs := xs, ar_functions := ar_functions (result\<lparr>ar_xrefs := xs\<rparr>) @
          [fn\<lparr>fn_callees := ?cs, fn_name := ?name\<rparr>]\<rparr>) io2 = Some (r, io1)"
      using "2.prems"(1) False b e ne by (simp add: Let_def)
    show ?thesis
      by (rule "2.IH"(3) [OF False b refl refl refl refl ne refl refl refl e [symmetric] rec])
        (use analysis_inv_step [OF "2.prems"(2) _ b e, of ?name] False in simp)
  qed
qed auto

text \<open>The invariant survives the final sort.\<close>

lemma analyze_inv:
  assumes "analyze dis reader fuel symbols entries io = Some (r, io1)"
  shows "sorted (map fn_addr (ar_functions r)) \<and> (\<exists>q a. analysis_inv entries [] q a (ar_functions r))"
proof -
  obtain r0 where r0: "analyze_loop dis reader fuel symbols entries entries [] \<lparr>ar_functions = [], ar_xrefs = []\<rparr> io = Some (r0, io1)"
    "r = r0\<lparr>ar_functions := sort_key fn_addr (ar_functions r0)\<rparr>"
    using assms by (auto simp: analyze_def split: option.splits)
  have "analysis_inv entries entries entries [] (ar_functions \<lparr>ar_functions = [], ar_xrefs = []\<rparr>)"
    by (auto simp: analysis_inv_def)
  from analyze_loop_inv [OF r0(1) this] obtain q a where "analysis_inv entries [] q a (ar_functions r0)"
    by blast
  then have "analysis_inv entries [] q a (ar_functions r)"
    using r0(2) by (simp add: analysis_inv_def distinct_map)
  with r0(2) show ?thesis by auto
qed

definition name_of :: "(u64 \<Rightarrow> string option) option \<Rightarrow> u64 \<Rightarrow> string" where
  "name_of symbols entry =
     (case symbols of None \<Rightarrow> default_name entry
      | Some look \<Rightarrow> (case look entry of Some n \<Rightarrow> n | None \<Rightarrow> default_name entry))"

lemma build_name: "build dis reader fuel entry xs io = Some (fn, callees, xs1, io1) \<Longrightarrow> fn_name fn = default_name entry"
  by (auto simp: build_def finalize_def Let_def split: option.splits)

lemma analyze_loop_names:
  "analyze_loop dis reader fuel symbols work queued analyzed result io = Some (r, io1) \<Longrightarrow>
   \<forall>f \<in> set (ar_functions result). fn_name f = name_of symbols (fn_addr f) \<Longrightarrow>
   \<forall>f \<in> set (ar_functions r). fn_name f = name_of symbols (fn_addr f)"
proof (induction dis reader fuel symbols work queued analyzed result io rule: analyze_loop.induct)
  case (2 dis reader fuel symbols entry work queued analyzed result io)
  show ?case
  proof (cases "entry = 0 \<or> entry \<in> set analyzed")
    case True
    then show ?thesis using "2.IH"(1) [OF True] "2.prems" by auto
  next
    case False
    obtain fn callees xs io2 where b: "build dis reader fuel entry (ar_xrefs result) io = Some (fn, callees, xs, io2)"
      using "2.prems"(1) False by (auto split: option.splits)
    let ?cs = "remdups_adj (sort callees)"
    obtain work2 queued2 where e: "enqueue_callees ?cs (work, queued) = (work2, queued2)" by fastforce
    have fn: "fn_blocks fn \<noteq> []" "fn_addr fn = entry" "fn_name fn = default_name entry"
      using build_cfg_ok [OF b] build_name [OF b] by blast+
    let ?name = "case symbols of None \<Rightarrow> fn_name fn
      | Some look \<Rightarrow> (case look entry of Some n \<Rightarrow> n | None \<Rightarrow> fn_name fn)"
    have rec: "analyze_loop dis reader fuel symbols work2 queued2 (entry # analyzed)
        (result\<lparr>ar_xrefs := xs, ar_functions := ar_functions (result\<lparr>ar_xrefs := xs\<rparr>) @
          [fn\<lparr>fn_callees := ?cs, fn_name := ?name\<rparr>]\<rparr>) io2 = Some (r, io1)"
      using "2.prems"(1) False b e fn(1) by (simp add: Let_def)
    have "?name = name_of symbols entry" unfolding name_of_def fn(3) ..
    then show ?thesis
      by (intro "2.IH"(3) [OF False b refl refl refl refl fn(1) refl refl refl e [symmetric] rec])
        (use "2.prems"(2) fn(2) in simp)
  qed
qed auto

lemma analyze_names:
  "analyze dis reader fuel symbols entries io = Some (r, io1) \<Longrightarrow> f \<in> set (ar_functions r) \<Longrightarrow>
   fn_name f = name_of symbols (fn_addr f)"
  by (auto simp: analyze_def split: option.splits dest!: analyze_loop_names)

section \<open>What the analysis does to the state behind the reader\<close>

text \<open>An invariant of the reader's state that every read keeps is kept by the analysis.\<close>

definition keeps :: "('s \<Rightarrow> bool) \<Rightarrow> 's byte_reader \<Rightarrow> bool" where
  "keeps I reader \<longleftrightarrow> (\<forall>pc n io. I io \<longrightarrow> I (snd (reader pc n io)))"

lemma trace_loop_io:
  assumes "keeps I reader"
  shows "trace_loop dis reader fuel start pc bb fb = Some (bb1, fb1) \<Longrightarrow> I (fb_io fb) \<Longrightarrow> I (fb_io fb1)"
proof (induction fuel arbitrary: pc bb fb)
  case (Suc fuel)
  obtain window fb0 where w: "fill_window reader pc fb = (window, fb0)" by fastforce
  have io0: "I (fb_io fb0)"
    using assms Suc.prems(2) w by (auto simp: keeps_def fill_window_def split: prod.splits) (metis snd_conv)
  show ?case
  proof (cases "\<exists>insn. dis window pc = Ok insn \<and> (in_flow insn = Sequential \<or> in_flow insn = Call) \<and>
      window \<noteq> [] \<and> \<not> (pc \<noteq> start \<and> pc \<in> set (fb_leaders fb))")
    case True
    then obtain insn where insn: "dis window pc = Ok insn" "in_flow insn = Sequential \<or> in_flow insn = Call"
      "window \<noteq> []" "\<not> (pc \<noteq> start \<and> pc \<in> set (fb_leaders fb))" by blast
    define fb2 where "fb2 = (if in_flow insn = Call \<and> in_branch_target insn \<noteq> 0
      then add_callee (in_branch_target insn) (add_xref (in_address insn) (in_branch_target insn) XrefCall fb0)
      else fb0)"
    have "trace_loop dis reader fuel start (next_pc insn) (push_instr insn bb) fb2 = Some (bb1, fb1)"
      using Suc.prems(1) insn w by (auto simp: Let_def fb2_def split: if_splits)
    moreover have "fb_io fb2 = fb_io fb0" by (simp add: fb2_def add_callee_def add_xref_def)
    ultimately show ?thesis using Suc.IH io0 by metis
  next
    case False
    then have "fb_io fb1 = fb_io fb \<or> fb_io fb1 = fb_io fb0"
      using Suc.prems(1) w
      by (auto simp: Let_def take_branch_def add_leader_def add_xref_def
          split: if_splits result.splits flow.splits)
    with Suc.prems(2) io0 show ?thesis by metis
  qed
qed simp

lemma build_loop_io:
  "keeps I reader \<Longrightarrow> build_loop dis reader fuel work queued fb = Some fb1 \<Longrightarrow> I (fb_io fb) \<Longrightarrow> I (fb_io fb1)"
proof (induction dis reader fuel work queued fb rule: build_loop.induct)
  case (2 dis reader fuel start work queued fb)
  show ?case
  proof (cases "map_of (fb_blocks fb) start = None")
    case False
    with "2.IH"(1) "2.prems" show ?thesis by simp
  next
    case True
    then obtain bb fb2 where t: "trace_block dis reader fuel start fb = Some (bb, fb2)"
      using "2.prems"(2) by (auto split: option.splits)
    obtain work2 queued2 where e: "enqueue (bb_fail bb) (enqueue (bb_jump bb) (work, queued)) = (work2, queued2)"
      by fastforce
    have io2: "I (fb_io fb2)"
      by (rule trace_loop_io [OF "2.prems"(1) t [unfolded trace_block_def] "2.prems"(3)])
    show ?thesis
      by (rule "2.IH"(2) [OF _ t refl e [symmetric] "2.prems"(1)]) (use "2.prems"(2) True t e io2 in simp_all)
  qed
qed simp

lemma build_io:
  assumes "keeps I reader" "build dis reader fuel entry xs io = Some (fn, cs, xs1, io1)" "I io"
  shows "I io1"
proof -
  obtain fb where "build_loop dis reader fuel [entry] [entry] \<lparr>fb_leaders = [entry], fb_blocks = [],
      fb_callees = [], fb_xrefs = xs, fb_io = io\<rparr> = Some fb" "io1 = fb_io fb"
    using assms(2) unfolding build_def by (auto simp del: build_loop.simps split: option.splits)
  with build_loop_io [OF assms(1)] assms(3) show ?thesis by (metis fbuilder.select_convs(5))
qed

lemma analyze_loop_io:
  "keeps I reader \<Longrightarrow>
   analyze_loop dis reader fuel symbols work queued analyzed result io = Some (r, io1) \<Longrightarrow> I io \<Longrightarrow> I io1"
proof (induction dis reader fuel symbols work queued analyzed result io rule: analyze_loop.induct)
  case (2 dis reader fuel symbols entry work queued analyzed result io)
  show ?case
  proof (cases "entry = 0 \<or> entry \<in> set analyzed")
    case True
    then show ?thesis using "2.IH"(1) [OF True] "2.prems" by auto
  next
    case False
    obtain fn callees xs io2 where b: "build dis reader fuel entry (ar_xrefs result) io = Some (fn, callees, xs, io2)"
      using "2.prems"(2) False by (auto split: option.splits)
    let ?cs = "remdups_adj (sort callees)"
    obtain work2 queued2 where e: "enqueue_callees ?cs (work, queued) = (work2, queued2)" by fastforce
    have ne: "fn_blocks fn \<noteq> []" using build_cfg_ok [OF b] by blast
    have io2: "I io2" using build_io [OF "2.prems"(1) b "2.prems"(3)] .
    show ?thesis
      by (rule "2.IH"(3) [OF False b refl refl refl refl ne refl refl refl e [symmetric] "2.prems"(1)])
        (use "2.prems"(2) False b e ne io2 in \<open>simp_all add: Let_def\<close>)
  qed
qed simp

lemma analyze_io:
  assumes "keeps I reader" "analyze dis reader fuel symbols entries io = Some (r, io1)" "I io"
  shows "I io1"
  using analyze_loop_io [OF assms(1)] assms(2,3) by (auto simp: analyze_def split: option.splits)

section \<open>Termination\<close>

text \<open>
  What the disassembler promises of an instruction, and an image that ends at \<open>hi\<close> in every
  state of the reader that satisfies \<open>ok\<close>: under
  these a block is traced in at most as many turns as the image has bytes, and one more.
\<close>

definition decodes_forward :: "decoder \<Rightarrow> bool" where
  "decodes_forward dis \<longleftrightarrow>
     (\<forall>bs pc insn. dis bs pc = Ok insn \<longrightarrow>
        in_address insn = pc \<and> 0 < unat (in_length insn) \<and> unat (in_length insn) \<le> 15)"

definition image_ends_at :: "('s \<Rightarrow> bool) \<Rightarrow> 's byte_reader \<Rightarrow> nat \<Rightarrow> bool" where
  "image_ends_at ok reader hi \<longleftrightarrow> hi + 16 \<le> 2 ^ 64 \<and>
     (\<forall>pc io bs io1. ok io \<longrightarrow> reader pc kReadWindow io = (bs, io1) \<longrightarrow> ok io1 \<and> (hi \<le> unat pc \<longrightarrow> bs = []))"

lemma unat_next_pc:
  assumes "in_address insn = pc" "unat (in_length insn) \<le> 15" "unat pc < hi" "hi + 16 \<le> 2 ^ 64"
  shows "unat (next_pc insn) = unat pc + unat (in_length insn)"
proof -
  have "unat (ucast (in_length insn) :: u64) = unat (in_length insn)"
    by (simp add: unsigned_ucast_eq take_bit_nat_eq_self_iff)
      (use unsigned_less [of "in_length insn", where ?'a = nat] in simp)
  then show ?thesis
    using assms by (simp add: next_pc_def unat_word_ariths)
qed

lemma fill_window_ok:
  assumes "image_ends_at ok reader hi" "ok (fb_io fb)" "fill_window reader pc fb = (window, fb1)"
  shows "ok (fb_io fb1)" "hi + 16 \<le> 2 ^ 64" "window \<noteq> [] \<Longrightarrow> unat pc < hi"
  using assms unfolding image_ends_at_def fill_window_def
  by (auto split: prod.splits simp: not_le [symmetric])

definition returns :: "('s \<Rightarrow> bool) \<Rightarrow> ('r \<Rightarrow> 's) \<Rightarrow> 'r option \<Rightarrow> bool" where
  "returns ok io r \<longleftrightarrow> (\<exists>x. r = Some x \<and> ok (io x))"

lemma trace_loop_total:
  assumes dec: "decodes_forward dis" and img: "image_ends_at ok reader hi"
  shows "ok (fb_io fb) \<Longrightarrow> hi - unat pc < fuel \<Longrightarrow>
    returns ok (fb_io \<circ> snd) (trace_loop dis reader fuel start pc bb fb)"
proof (induction fuel arbitrary: pc bb fb)
  case (Suc fuel)
  obtain window fb0 where w: "fill_window reader pc fb = (window, fb0)" by fastforce
  note ok0 = fill_window_ok [OF img Suc.prems(1) w]
  show ?case
  proof (cases "window = [] \<or> (pc \<noteq> start \<and> pc \<in> set (fb_leaders fb))")
    case True
    then show ?thesis using w ok0(1) Suc.prems(1) by (auto simp: returns_def)
  next
    case False
    then have pc: "unat pc < hi" using ok0(3) by blast
    show ?thesis
    proof (cases "dis window pc")
      case (Err e)
      then show ?thesis using False w ok0(1) by (auto simp: returns_def)
    next
      case (Ok insn)
      then have i: "in_address insn = pc" "0 < unat (in_length insn)" "unat (in_length insn) \<le> 15"
        using dec by (auto simp: decodes_forward_def)
      have "unat (next_pc insn) = unat pc + unat (in_length insn)"
        by (rule unat_next_pc [OF i(1,3) pc ok0(2)])
      then have "hi - unat (next_pc insn) < fuel" using Suc.prems(2) i(2) pc by linarith
      then have "returns ok (fb_io \<circ> snd) (trace_loop dis reader fuel start (next_pc insn) b f)"
        if "ok (fb_io f)" for b f
        using that Suc.IH by blast
      moreover have "fb_io (add_callee c (add_xref a c k fb0)) = fb_io fb0" for a c k
        by (simp add: add_callee_def add_xref_def)
      moreover obtain b2 f2 where "take_branch insn (push_instr insn bb) fb0 = (b2, f2)" "fb_io f2 = fb_io fb0"
        by (cases "in_branch_target insn = 0")
          (simp_all add: take_branch_def add_leader_def add_xref_def Let_def)
      moreover have "fb_io (add_leader a f) = fb_io f" for a and f :: "'a fbuilder"
        by (simp add: add_leader_def)
      ultimately show ?thesis
        using Ok False w ok0(1)
        by (auto simp: Let_def returns_def case_prod_beta split: flow.split)
    qed
  qed
qed simp

lemma build_loop_total:
  assumes dec: "decodes_forward dis" and img: "image_ends_at ok reader hi" and "hi < fuel"
  shows "ok (fb_io fb) \<Longrightarrow> returns ok fb_io (build_loop dis reader fuel work queued fb)"
proof -
  have t: "\<exists>bb f1. trace_block dis reader fuel s f = Some (bb, f1) \<and> ok (fb_io f1)" if "ok (fb_io f)" for s f
    using trace_loop_total [OF dec img that, of s fuel s] assms(3)
    unfolding trace_block_def returns_def by fastforce
  show "ok (fb_io fb) \<Longrightarrow> returns ok fb_io (build_loop dis reader fuel work queued fb)"
    using t
  proof (induction dis reader fuel work queued fb rule: build_loop.induct)
    case (2 dis reader fuel start work queued fb)
    show ?case
    proof (cases "map_of (fb_blocks fb) start = None")
      case False
      with "2.IH"(1) "2.prems" show ?thesis by simp
    next
      case True
      obtain bb fb1 where t: "trace_block dis reader fuel start fb = Some (bb, fb1)" "ok (fb_io fb1)"
        using "2.prems" by blast
      obtain work2 queued2 where e:
        "enqueue (bb_fail bb) (enqueue (bb_jump bb) (work, queued)) = (work2, queued2)" by fastforce
      have "returns ok fb_io (build_loop dis reader fuel work2 queued2
          (fb1\<lparr>fb_blocks := om_emplace (bb_addr bb) bb (fb_blocks fb1)\<rparr>))"
        by (rule "2.IH"(2) [OF _ t(1) refl e [symmetric]]) (use True t(2) "2.prems"(2) in simp_all)
      with True t e show ?thesis by simp
    qed
  qed (simp add: returns_def)
qed

lemma build_total:
  assumes "decodes_forward dis" "image_ends_at ok reader hi" "hi < fuel" "ok io"
  shows "\<exists>fn cs xs1 io1. build dis reader fuel entry xs io = Some (fn, cs, xs1, io1) \<and> ok io1"
  using build_loop_total [OF assms(1-3), of
      "\<lparr>fb_leaders = [entry], fb_blocks = [], fb_callees = [], fb_xrefs = xs, fb_io = io\<rparr>" "[entry]" "[entry]"]
    assms(4)
  by (auto simp: build_def returns_def)

lemma analyze_loop_total:
  assumes "\<And>entry xs io. ok io \<Longrightarrow>
      \<exists>fn cs xs1 io1. build dis reader fuel entry xs io = Some (fn, cs, xs1, io1) \<and> ok io1"
  shows "ok io \<Longrightarrow> returns ok snd (analyze_loop dis reader fuel symbols work queued analyzed result io)"
  using assms
proof (induction dis reader fuel symbols work queued analyzed result io rule: analyze_loop.induct)
  case (2 dis reader fuel symbols entry work queued analyzed result io)
  show ?case
  proof (cases "entry = 0 \<or> entry \<in> set analyzed")
    case True
    with "2.IH"(1) [OF True "2.prems"] show ?thesis by simp
  next
    case False
    obtain fn callees xs io1 where
      b: "build dis reader fuel entry (ar_xrefs result) io = Some (fn, callees, xs, io1)" "ok io1"
      using "2.prems"(2) [OF "2.prems"(1)] by blast
    have ne: "fn_blocks fn \<noteq> []" using build_cfg_ok [OF b(1)] by blast
    obtain work2 queued2 where e: "enqueue_callees (remdups_adj (sort callees)) (work, queued) = (work2, queued2)"
      by fastforce
    note "2.IH"(3) [OF False b(1) refl refl refl refl ne refl refl refl e [symmetric] b(2) "2.prems"(2)]
    with False b ne e show ?thesis by (simp add: Let_def)
  qed
qed (simp add: returns_def)

section \<open>Properties\<close>

text \<open>A small program for the witnesses: a call, a branch to itself and two returns.\<close>

definition small_insn :: "u64 \<Rightarrow> u32 \<Rightarrow> flow \<Rightarrow> u64 \<Rightarrow> instruction" where
  "small_insn a n f t = \<lparr>in_address = a, in_length = n, in_mnemonic = [], in_text = [], in_operands = [],
     in_flow = f, in_branch_target = t\<rparr>"

definition small_dis :: decoder where
  "small_dis bs pc =
     (if pc = 0x10 then Ok (small_insn pc 5 Call 0x20)
      else if pc = 0x15 then Ok (small_insn pc 2 CondJump 0x15)
      else if pc = 0x17 \<or> pc = 0x20 then Ok (small_insn pc 1 Return 0)
      else Err ''failed to decode instruction'')"

definition small_reader :: "unit byte_reader" where
  "small_reader pc n io = (if pc \<le> 0x20 then [0x90] else [], ())"

text \<open>C6: The result of an analysis is a closed call graph of well-formed control-flow graphs: every
  entry point and every callee is among the functions, which are sorted and distinct; in each
  function the blocks are sorted and distinct, the entry is a block, every edge leads to a
  block, no block contains the start of another one on one of its instructions, and the size is
  the sum of the block sizes.\<close>

theorem analysis_is_closed:
  assumes "analyze dis reader fuel symbols entries io = Some (r, io1)"
  shows "sorted (map fn_addr (ar_functions r)) \<and> distinct (map fn_addr (ar_functions r)) \<and>
    (\<forall>a \<in> set entries. a \<noteq> 0 \<longrightarrow> a \<in> fn_addr ` set (ar_functions r)) \<and>
    (\<forall>f \<in> set (ar_functions r). cfg_ok f \<and> sorted (fn_callees f) \<and> distinct (fn_callees f) \<and>
       (\<forall>c \<in> set (fn_callees f). c \<noteq> 0 \<longrightarrow> c \<in> fn_addr ` set (ar_functions r)))"
proof -
  obtain q a where inv: "analysis_inv entries [] q a (ar_functions r)" and sorted: "sorted (map fn_addr (ar_functions r))"
    using analyze_inv [OF assms] by blast
  have d: "distinct (map fn_addr (ar_functions r))"
    using inv by (simp add: analysis_inv_def)
  have q: "c \<in> fn_addr ` set (ar_functions r)" if "c \<in> set q" "c \<noteq> 0" for c
    using inv that by (auto simp: analysis_inv_def)
  have e: "set entries \<subseteq> set q" using inv by (simp add: analysis_inv_def)
  have f: "cfg_ok f \<and> set (fn_callees f) \<subseteq> set q \<and> sorted (fn_callees f) \<and> distinct (fn_callees f)"
    if "f \<in> set (ar_functions r)" for f
    using inv that by (auto simp: analysis_inv_def)
  show ?thesis
    using d sorted q e f by (intro conjI ballI impI) (assumption | simp add: subset_iff)+
qed

theorem analysis_is_closed_witness:
  "\<exists>r f g. analyze small_dis small_reader 40 None [0x10] () = Some (r, ()) \<and> ar_functions r = [f, g] \<and>
     map bb_addr (fn_blocks f) = [0x10, 0x15, 0x17] \<and> fn_callees f = [0x20] \<and> cfg_ok f \<and> cfg_ok g"
proof -
  have "map_option (\<lambda>(r, io). map (\<lambda>f. (map bb_addr (fn_blocks f), fn_callees f)) (ar_functions r))
      (analyze small_dis small_reader 40 None [0x10] ()) = Some [([0x10, 0x15, 0x17], [0x20]), ([0x20], [])]"
    by code_simp
  then obtain r f g where r: "analyze small_dis small_reader 40 None [0x10] () = Some (r, ())" "ar_functions r = [f, g]"
    "map bb_addr (fn_blocks f) = [0x10, 0x15, 0x17]" "fn_callees f = [0x20]" by auto
  have "cfg_ok f \<and> cfg_ok g" using analysis_is_closed [OF r(1)] r(2) by auto
  then show ?thesis using r by (intro exI [of _ r] exI [of _ f] exI [of _ g]) simp
qed

text \<open>C7: Analysis always returns: for a program image that ends below the top of the address space in every state of the reader, and a
  disassembler whose instructions take 1 to 15 bytes, one turn per byte of the image is enough
  fuel for every block, whatever the code does.\<close>

theorem analysis_terminates:
  assumes "decodes_forward dis" "image_ends_at ok reader hi" "hi < fuel" "ok io"
  shows "\<exists>r io1. analyze dis reader fuel symbols entries io = Some (r, io1) \<and> ok io1"
  using analyze_loop_total [OF build_total [OF assms(1-3)], of io symbols entries entries "[]"
      "\<lparr>ar_functions = [], ar_xrefs = []\<rparr>"] assms(4)
  by (auto simp: analyze_def returns_def)

theorem analysis_terminates_witness:
  "\<exists>r io. analyze small_dis small_reader 40 None [0x10] () = Some (r, io) \<and> True"
proof (rule analysis_terminates [where ok = "\<lambda>_. True"])
  show "decodes_forward small_dis" by (auto simp: decodes_forward_def small_dis_def small_insn_def split: if_splits)
  show "image_ends_at (\<lambda>_. True) small_reader 0x21" by (auto simp: image_ends_at_def small_reader_def word_le_nat_alt)
qed simp_all

end
