(* ===== verification/Session_Rows.thy ===== *)
theory Session_Rows
  imports Api Binfmt Strings Analysis
begin

text \<open>
  What the two kinds of sessions of irida-api share: how images, strings, instructions and
  analysis results become rows of the C interface.  The sources have these functions twice
  (capi_static.cpp and capi_target.cpp), with the same text.
\<close>

unbundle bit_operations_syntax

definition kMaxInsnBytes :: u64 where "kMaxInsnBytes = 15"

section \<open>Rows of an image\<close>

definition section_row :: "bin_section \<Rightarrow> api_section" where
  "section_row s =
     \<lparr>asec_name = sec_name s, asec_vaddr = sec_vaddr s, asec_vsize = sec_vsize s, asec_perms = sec_perms s\<rparr>"

definition import_row :: "bin_import \<Rightarrow> api_import" where
  "import_row i = \<lparr>ai_name = imp_name i, ai_library = imp_library i, ai_addr = imp_iat_addr i\<rparr>"

definition export_row :: "bin_export \<Rightarrow> api_export" where
  "export_row e = \<lparr>ae_name = exp_name e, ae_addr = exp_addr e, ae_ordinal = exp_ordinal e\<rparr>"

definition symbol_row :: "bin_symbol \<Rightarrow> api_symbol" where
  "symbol_row y = \<lparr>ay_name = sym_name y, ay_addr = sym_addr y, ay_kind = sym_kind y\<rparr>"

definition string_row :: "found_string \<Rightarrow> api_string" where
  "string_row f = \<lparr>ag_addr = fs_addr f, ag_text = fs_text f\<rparr>"

section \<open>Rows of an analysis\<close>

definition function_row :: "func \<Rightarrow> api_function" where
  "function_row fn =
     \<lparr>afn_addr = fn_addr fn, afn_size = fn_size fn, afn_name = fn_name fn,
      afn_block_count = length (fn_blocks fn)\<rparr>"

definition block_row :: "basic_block \<Rightarrow> api_block" where
  "block_row bb = \<lparr>ab_addr = bb_addr bb, ab_size = bb_size bb, ab_jump = bb_jump bb, ab_fail = bb_fail bb\<rparr>"

text \<open>The loop over the functions: the blocks of the first one at the address.\<close>

fun function_blocks_rows :: "u64 \<Rightarrow> func list \<Rightarrow> api_block list" where
  "function_blocks_rows addr [] = []"
| "function_blocks_rows addr (fn # fns) =
     (if fn_addr fn \<noteq> addr then function_blocks_rows addr fns else map block_row (fn_blocks fn))"

fun xref_code :: "xref_kind \<Rightarrow> int" where
  "xref_code XrefCall = 0" | "xref_code XrefJump = 1" | "xref_code XrefData = 2"

definition xref_row :: "xref \<Rightarrow> api_xref" where
  "xref_row x = \<lparr>ax_from = xr_from x, ax_to = xr_to x, ax_kind = xref_code (xr_kind x)\<rparr>"

definition xrefs_to_rows :: "u64 \<Rightarrow> xref list \<Rightarrow> api_xref list" where
  "xrefs_to_rows addr xs = map xref_row (filter (\<lambda>x. \<not> xr_to x \<noteq> addr) xs)"

section \<open>Rows of instructions\<close>

definition hex_upper :: "byte \<Rightarrow> char" where
  "hex_upper v = ''0123456789ABCDEF'' ! unat v"

fun format_loop :: "nat \<Rightarrow> bytes \<Rightarrow> string \<Rightarrow> string" where
  "format_loop i [] out = out"
| "format_loop i (v # vs) out =
     format_loop (Suc i) vs
       ((if i \<noteq> 0 then out @ '' '' else out) @ [hex_upper (drop_bit 4 v AND 0xF), hex_upper (v AND 0xF)])"

definition format_bytes :: "bytes \<Rightarrow> string" where
  "format_bytes bs = format_loop 0 bs []"

definition direct_operand :: "operand \<Rightarrow> bool" where
  "direct_operand o' \<longleftrightarrow> (op_kind o' = ImmediateOp \<or> op_kind o' = PointerOp) \<and> op_imm o' \<noteq> 0"

definition relative_operand :: "operand \<Rightarrow> bool" where
  "relative_operand o' \<longleftrightarrow> op_kind o' = MemoryOp \<and> mo_rip_relative (op_mem o')"

text \<open>The two loops over the operands, each up to its first match.\<close>

definition operand_target :: "instruction \<Rightarrow> u64 option" where
  "operand_target insn =
     (case find direct_operand (in_operands insn) of
        Some o' \<Rightarrow> Some (op_imm o')
      | None \<Rightarrow>
          (case find relative_operand (in_operands insn) of
             Some o' \<Rightarrow> Some (in_address insn + ucast (in_length insn) + mo_disp (op_mem o'))
           | None \<Rightarrow> None))"

text \<open>The bytes of one instruction out of the buffer, cut off at its end.\<close>

definition insn_chunk :: "bytes \<Rightarrow> u64 \<Rightarrow> instruction \<Rightarrow> bytes" where
  "insn_chunk bs addr insn =
     (let offset = unat (in_address insn - addr); len = unat (in_length insn);
          len1 = (if offset + len \<le> length bs then len else length bs - offset)
      in take len1 (drop offset bs))"

definition insn_row_of :: "bytes \<Rightarrow> u64 \<Rightarrow> string option \<Rightarrow> instruction \<Rightarrow> insn_row" where
  "insn_row_of bs addr annot insn =
     \<lparr>ir_address = in_address insn, ir_text = in_text insn, ir_annotation = annot,
      ir_bytes = format_bytes (insn_chunk bs addr insn)\<rparr>"

section \<open>The instructions' bytes tile the code\<close>

text \<open>What Zydis promises: a decoded instruction takes at least one byte and lies in the buffer.\<close>

definition zydis_in_buffer :: "zydis \<Rightarrow> bool" where
  "zydis_in_buffer Z \<longleftrightarrow>
     (\<forall>bs insn zops. z_decode_full Z bs = Some (insn, zops) \<longrightarrow>
        0 < unat (zi_length insn) \<and> unat (zi_length insn) \<le> length bs)"

lemma decode_one_length:
  assumes "decode_one Z bs a = Ok i"
  shows "\<exists>insn zops. z_decode_full Z bs = Some (insn, zops) \<and> unat (in_length i) = unat (zi_length insn)"
proof -
  have "unat (ucast v :: u32) = unat v" for v :: u8
    using unsigned_less [of v, where ?'a = nat] by (simp add: unsigned_ucast_eq take_bit_nat_eq_self_iff)
  with assms show ?thesis by (auto simp: decode_one_def Let_def split: option.splits)
qed

lemma decode_one_in_buffer:
  "zydis_in_buffer Z \<Longrightarrow> decode_one Z bs a = Ok insn \<Longrightarrow>
   0 < unat (in_length insn) \<and> unat (in_length insn) \<le> length bs"
  using decode_one_length [of Z bs a insn] unfolding zydis_in_buffer_def by metis

lemma chunks_tile:
  assumes "zydis_in_buffer Z" "length bs < 2 ^ 64" "decode_linear Z bs addr n = insns"
  shows "concat (map (insn_chunk bs addr) insns) = take (span insns) bs"
    "k < length insns \<Longrightarrow> in_address (insns ! k) = addr + word_of_nat (span (take k insns)) \<and>
       length (insn_chunk bs addr (insns ! k)) = unat (in_length (insns ! k)) \<and>
       decode_one Z (drop (span (take k insns)) bs) (in_address (insns ! k)) = Ok (insns ! k)"
proof -
  have "linear_loop Z n bs addr 0 [] = [] @ insns" using assms(3) by (simp add: decode_linear_def)
  note t = linear_loop_tiles [OF this, simplified]
  have chunk: "span (take k insns) < length bs \<and>
      in_address (insns ! k) = addr + word_of_nat (span (take k insns)) \<and>
      decode_one Z (drop (span (take k insns)) bs) (in_address (insns ! k)) = Ok (insns ! k) \<and>
      insn_chunk bs addr (insns ! k) = take (unat (in_length (insns ! k))) (drop (span (take k insns)) bs) \<and>
      span (take k insns) + unat (in_length (insns ! k)) \<le> length bs"
    if "k < length insns" for k
  proof -
    let ?o = "span (take k insns)"
    have d: "?o < length bs" "decode_one Z (drop ?o bs) (addr + word_of_nat ?o) = Ok (insns ! k)"
      using t that by blast+
    have a: "in_address (insns ! k) = addr + word_of_nat ?o" by (rule decode_one_address [OF d(2)])
    have len: "?o + unat (in_length (insns ! k)) \<le> length bs"
      using decode_one_in_buffer [OF assms(1) d(2)] d(1) unfolding length_drop by linarith
    have "unat (word_of_nat ?o :: u64) = ?o"
      using d(1) assms(2) by (simp add: unat_of_nat take_bit_nat_eq_self_iff)
    then have "insn_chunk bs addr (insns ! k) = take (unat (in_length (insns ! k))) (drop ?o bs)"
      using len by (simp add: insn_chunk_def a Let_def)
    with d a len show ?thesis by simp
  qed
  show "k < length insns \<Longrightarrow> in_address (insns ! k) = addr + word_of_nat (span (take k insns)) \<and>
       length (insn_chunk bs addr (insns ! k)) = unat (in_length (insns ! k)) \<and>
       decode_one Z (drop (span (take k insns)) bs) (in_address (insns ! k)) = Ok (insns ! k)"
    using chunk [of k] by auto
  have "concat (map (insn_chunk bs addr) (take k insns)) = take (span (take k insns)) bs"
    if "k \<le> length insns" for k
    using that
  proof (induction k)
    case (Suc k)
    then have k: "k < length insns" by simp
    have s: "span (take (Suc k) insns) = span (take k insns) + unat (in_length (insns ! k))"
      using k by (simp add: take_Suc_conv_app_nth)
    have "concat (map (insn_chunk bs addr) (take (Suc k) insns)) =
        take (span (take k insns)) bs @ insn_chunk bs addr (insns ! k)"
      using Suc k by (simp add: take_Suc_conv_app_nth)
    also have "\<dots> = take (span (take (Suc k) insns)) bs"
      using chunk [OF k] by (simp only: s take_add)
    finally show ?case .
  qed simp
  from this [of "length insns"] show "concat (map (insn_chunk bs addr) insns) = take (span insns) bs" by simp
qed

end
