(* ===== verification/Static_Session.thy ===== *)
theory Static_Session
  imports Session_Rows
begin

text \<open>
  irida-api/src/capi_static.cpp: the session on a file without a process.  Everything is
  served from the bytes of the file; commands of a live session are inert.

  Parameters: the file system \<open>files\<close> (\<open>None\<close> when a file cannot be opened or read), LIEF,
  Zydis, and \<open>order\<close>, the order in which an \<open>std::unordered_map\<close> is visited, some
  permutation of the keys.  Rows are answered by value here; the vectors behind the borrowed
  arrays are the subject of \<open>Lent_Sessions\<close>.
\<close>

record static_ctx =
  sc_bin :: binary_info
  sc_image :: bytes
  sc_symbol_map :: symbol_map
  sc_analysis :: analysis_result

section \<open>Reading the image\<close>

text \<open>The loop over the sections: the first one that contains the address decides.\<close>

fun read_sections :: "bytes \<Rightarrow> bin_section list \<Rightarrow> u64 \<Rightarrow> nat \<Rightarrow> bytes" where
  "read_sections img [] vaddr len = []"
| "read_sections img (sec # secs) vaddr len =
     (if vaddr < sec_vaddr sec \<or> vaddr \<ge> sec_vaddr sec + sec_vsize sec
      then read_sections img secs vaddr len
      else
        let within = vaddr - sec_vaddr sec in
        if within \<ge> sec_size sec then []
        else
          let file_off = sec_offset sec + within in
          if unat file_off \<ge> length img then []
          else
            let avail = length img - unat file_off;
                sec_avail = unat (sec_size sec - within);
                n1 = (if len < avail then len else avail);
                n2 = (if n1 < sec_avail then n1 else sec_avail)
            in take n2 (drop (unat file_off) img))"

definition read_at :: "static_ctx \<Rightarrow> u64 \<Rightarrow> nat \<Rightarrow> bytes" where
  "read_at c vaddr len = read_sections (sc_image c) (bi_sections (sc_bin c)) vaddr len"

definition resolve_symbol :: "static_ctx \<Rightarrow> u64 \<Rightarrow> string option" where
  "resolve_symbol c addr = map_of (sc_symbol_map c) addr"

section \<open>Loading and analyzing\<close>

definition static_names :: "binary_info \<Rightarrow> (u64 \<times> string) list" where
  "static_names bin =
     map (\<lambda>y. (sym_addr y, sym_name y)) (bi_symbols bin) @
     map (\<lambda>e. (exp_addr e, ''sym.'' @ exp_name e)) (bi_exports bin) @
     map (\<lambda>i. (imp_iat_addr i, ''sym.imp.'' @ imp_name i)) (bi_imports bin)"

definition static_load :: "(string \<Rightarrow> bytes option) \<Rightarrow> lief \<Rightarrow> string \<Rightarrow> static_ctx option" where
  "static_load files parse path =
     (case files path of
        None \<Rightarrow> None
      | Some img \<Rightarrow>
          if length img = 0 then None
          else
            case parse_file parse path of
              Err e \<Rightarrow> None
            | Ok bin \<Rightarrow>
                Some \<lparr>sc_bin = bin, sc_image = img, sc_symbol_map = assign_all (static_names bin) [],
                      sc_analysis = \<lparr>ar_functions = [], ar_xrefs = []\<rparr>\<rparr>)"

definition static_entries :: "(u64 list \<Rightarrow> u64 list) \<Rightarrow> static_ctx \<Rightarrow> u64 list" where
  "static_entries order c =
     (if bi_entry_point (sc_bin c) \<noteq> 0 then [bi_entry_point (sc_bin c)] else []) @
     order (map fst (sc_symbol_map c))"

definition static_reader :: "static_ctx \<Rightarrow> unit byte_reader" where
  "static_reader c addr n io = (read_at c addr n, io)"

text \<open>\<open>None\<close>: the fuel of the analysis ran out.\<close>

definition static_run_analysis ::
    "zydis \<Rightarrow> (u64 list \<Rightarrow> u64 list) \<Rightarrow> nat \<Rightarrow> static_ctx \<Rightarrow> static_ctx option" where
  "static_run_analysis Z order fuel c =
     (case analyze (decode_one Z) (static_reader c) fuel (Some (resolve_symbol c)) (static_entries order c) () of
        None \<Rightarrow> None
      | Some (r, io) \<Rightarrow> Some (c\<lparr>sc_analysis := r\<rparr>))"

section \<open>The entry points\<close>

definition static_registers :: "static_ctx \<Rightarrow> api_register list \<times> static_ctx" where
  "static_registers c = ([], c)"

definition static_maps :: "static_ctx \<Rightarrow> api_map list \<times> static_ctx" where
  "static_maps c = ([], c)"

definition static_threads :: "static_ctx \<Rightarrow> api_thread list \<times> static_ctx" where
  "static_threads c = ([], c)"

definition static_run_state :: "static_ctx \<Rightarrow> run_state \<times> static_ctx" where
  "static_run_state c = (STOPPED, c)"

definition static_pc :: "static_ctx \<Rightarrow> u64 \<times> static_ctx" where
  "static_pc c = (bi_entry_point (sc_bin c), c)"

definition static_epoch :: "static_ctx \<Rightarrow> u64 \<times> static_ctx" where
  "static_epoch c = (1, c)"

definition static_noop :: "static_ctx \<Rightarrow> static_ctx" where
  "static_noop c = c"

definition static_backtrace :: "static_ctx \<Rightarrow> api_frame list \<times> static_ctx" where
  "static_backtrace c = ([], c)"

definition static_breakpoints :: "static_ctx \<Rightarrow> api_breakpoint list \<times> static_ctx" where
  "static_breakpoints c = ([], c)"

definition static_bp_toggle :: "u64 \<Rightarrow> static_ctx \<Rightarrow> static_ctx" where
  "static_bp_toggle addr c = c"

definition static_bp_set_enabled :: "u64 \<Rightarrow> bool \<Rightarrow> static_ctx \<Rightarrow> static_ctx" where
  "static_bp_set_enabled addr on c = c"

definition static_read_memory :: "u64 \<Rightarrow> u64 \<Rightarrow> static_ctx \<Rightarrow> bytes \<times> static_ctx" where
  "static_read_memory addr len c = (read_at c addr (unat len), c)"

text \<open>The end of the image: the largest section end of the loop.\<close>

definition image_span :: "bin_section list \<Rightarrow> u64" where
  "image_span secs =
     fold (\<lambda>s sp. if sec_vaddr s + sec_vsize s > sp then sec_vaddr s + sec_vsize s else sp) secs 0"

definition static_modules :: "static_ctx \<Rightarrow> api_module list \<times> static_ctx" where
  "static_modules c =
     (let span = image_span (bi_sections (sc_bin c)); base = bi_image_base (sc_bin c);
          size = (if span > base then span - base else span)
      in ([\<lparr>am_name = bi_path (sc_bin c), am_base = base, am_size = size\<rparr>], c))"

definition static_annotation :: "static_ctx \<Rightarrow> instruction \<Rightarrow> string option" where
  "static_annotation c insn =
     (case operand_target insn of None \<Rightarrow> None | Some t \<Rightarrow> resolve_symbol c t)"

definition static_disasm :: "zydis \<Rightarrow> u64 \<Rightarrow> u64 \<Rightarrow> static_ctx \<Rightarrow> insn_row list \<times> static_ctx" where
  "static_disasm Z addr n c =
     (if n = 0 then ([], c)
      else
        let bs = read_at c addr (unat (n * kMaxInsnBytes)) in
        if length bs = 0 then ([], c)
        else
          let insns = decode_linear Z bs addr (unat n) in
          (map (\<lambda>insn. insn_row_of bs addr (static_annotation c insn) insn) insns, c))"

definition static_sections :: "static_ctx \<Rightarrow> api_section list \<times> static_ctx" where
  "static_sections c = (map section_row (bi_sections (sc_bin c)), c)"

definition static_imports :: "static_ctx \<Rightarrow> api_import list \<times> static_ctx" where
  "static_imports c = (map import_row (bi_imports (sc_bin c)), c)"

definition static_exports :: "static_ctx \<Rightarrow> api_export list \<times> static_ctx" where
  "static_exports c = (map export_row (bi_exports (sc_bin c)), c)"

definition static_symbols :: "static_ctx \<Rightarrow> api_symbol list \<times> static_ctx" where
  "static_symbols c = (map symbol_row (bi_symbols (sc_bin c)), c)"

definition static_strings :: "static_ctx \<Rightarrow> api_string list \<times> static_ctx" where
  "static_strings c = (map string_row (scan_strings (sc_image c) (bi_image_base (sc_bin c)) 4), c)"

text \<open>A run that does not return, which enough fuel rules out, is left without effect here.\<close>

definition static_analyze :: "zydis \<Rightarrow> (u64 list \<Rightarrow> u64 list) \<Rightarrow> nat \<Rightarrow> static_ctx \<Rightarrow> static_ctx" where
  "static_analyze Z order fuel c =
     (case static_run_analysis Z order fuel c of None \<Rightarrow> c | Some c1 \<Rightarrow> c1)"

definition static_functions :: "static_ctx \<Rightarrow> api_function list \<times> static_ctx" where
  "static_functions c = (map function_row (ar_functions (sc_analysis c)), c)"

definition static_function_blocks :: "u64 \<Rightarrow> static_ctx \<Rightarrow> api_block list \<times> static_ctx" where
  "static_function_blocks addr c = (function_blocks_rows addr (ar_functions (sc_analysis c)), c)"

definition static_xrefs_to :: "u64 \<Rightarrow> static_ctx \<Rightarrow> api_xref list \<times> static_ctx" where
  "static_xrefs_to addr c = (xrefs_to_rows addr (ar_xrefs (sc_analysis c)), c)"

definition kStaticVTable :: "zydis \<Rightarrow> (u64 list \<Rightarrow> u64 list) \<Rightarrow> nat \<Rightarrow> static_ctx vtable" where
  "kStaticVTable Z order fuel =
     \<lparr>vt_registers = Some static_registers, vt_modules = Some static_modules, vt_maps = Some static_maps,
      vt_threads = Some static_threads, vt_disasm = Some (static_disasm Z),
      vt_run_state = Some static_run_state, vt_pc = Some static_pc, vt_state_epoch = Some static_epoch,
      vt_step_into = Some static_noop, vt_step_over = Some static_noop, vt_step_out = Some static_noop,
      vt_cont = Some static_noop, vt_brk = Some static_noop, vt_restart = Some static_noop,
      vt_stop = Some static_noop, vt_read_memory = Some static_read_memory,
      vt_breakpoints = Some static_breakpoints, vt_bp_toggle = Some static_bp_toggle,
      vt_bp_set_enabled = Some static_bp_set_enabled, vt_backtrace = Some static_backtrace,
      vt_sections = Some static_sections, vt_imports = Some static_imports,
      vt_get_exports = Some static_exports, vt_symbols = Some static_symbols,
      vt_strings = Some static_strings, vt_analyze = Some (static_analyze Z order fuel),
      vt_functions = Some static_functions, vt_function_blocks = Some static_function_blocks,
      vt_xrefs_to = Some static_xrefs_to\<rparr>"

definition irida_session_create_file ::
    "(string \<Rightarrow> bytes option) \<Rightarrow> lief \<Rightarrow> zydis \<Rightarrow> (u64 list \<Rightarrow> u64 list) \<Rightarrow> nat \<Rightarrow> string option \<Rightarrow>
     static_ctx handle" where
  "irida_session_create_file files parse Z order fuel path =
     (case path of
        None \<Rightarrow> None
      | Some p \<Rightarrow>
          (case static_load files parse p of
             None \<Rightarrow> None
           | Some c \<Rightarrow> irida_session_create (Some (kStaticVTable Z order fuel)) c))"

definition irida_session_destroy_static :: "static_ctx handle \<Rightarrow> static_ctx handle" where
  "irida_session_destroy_static s = (case s of None \<Rightarrow> s | Some _ \<Rightarrow> irida_session_destroy s)"

section \<open>The epoch protocol\<close>

lemmas static_query_defs =
  static_registers_def static_modules_def static_maps_def static_threads_def static_disasm_def
  static_run_state_def static_pc_def static_epoch_def static_read_memory_def static_breakpoints_def
  static_backtrace_def static_sections_def static_imports_def static_exports_def static_symbols_def
  static_strings_def static_functions_def static_function_blocks_def static_xrefs_to_def

lemma static_analyze_bin [simp]: "sc_bin (static_analyze Z order fuel c) = sc_bin c"
  by (simp add: static_analyze_def static_run_analysis_def split: option.split prod.split)

interpretation static: epoch_frontend "kStaticVTable Z order fuel" "\<lambda>_. True"
proof (unfold_locales, goal_cases)
  case (1 c a)
  show ?case
    by (cases a) (auto simp: api_defs kStaticVTable_def static_noop_def static_bp_toggle_def
        static_bp_set_enabled_def static_registers_def static_pc_def static_epoch_def moves_or_keeps_def)
next
  case (2 c q)
  have "do_query q (session_on (kStaticVTable Z order fuel) c) = session_on (kStaticVTable Z order fuel) c"
    by (cases q) (simp_all add: api_defs kStaticVTable_def static_query_defs Let_def)
  then show ?case by auto
qed

section \<open>Reads\<close>

text \<open>Section tables as linkers write them: no section wraps around, and no two overlap.\<close>

definition sec_range :: "bin_section \<Rightarrow> nat set" where
  "sec_range s = {unat (sec_vaddr s) ..< unat (sec_vaddr s) + unat (sec_vsize s)}"

definition sections_ok :: "bin_section list \<Rightarrow> bool" where
  "sections_ok secs \<longleftrightarrow> (\<forall>s \<in> set secs. unat (sec_vaddr s) + unat (sec_vsize s) < 2 ^ 64) \<and>
     sorted_wrt (\<lambda>s t. sec_range s \<inter> sec_range t = {}) secs"

lemma in_sec_range:
  assumes "unat (sec_vaddr s) + unat (sec_vsize s) < 2 ^ 64"
  shows "(a < sec_vaddr s \<or> a \<ge> sec_vaddr s + sec_vsize s) \<longleftrightarrow> unat a \<notin> sec_range s"
proof -
  have "unat (sec_vaddr s + sec_vsize s) = unat (sec_vaddr s) + unat (sec_vsize s)"
    using assms by (simp add: unat_word_ariths)
  then show ?thesis by (auto simp: sec_range_def word_less_nat_alt word_le_nat_alt)
qed

lemma sections_ok_Cons:
  "sections_ok (s # secs) \<longleftrightarrow> unat (sec_vaddr s) + unat (sec_vsize s) < 2 ^ 64 \<and>
     (\<forall>t \<in> set secs. sec_range s \<inter> sec_range t = {}) \<and> sections_ok secs"
  by (auto simp: sections_ok_def)

text \<open>What the loop answers from the section it stops at.\<close>

definition section_bytes :: "bytes \<Rightarrow> bin_section \<Rightarrow> nat \<Rightarrow> nat \<Rightarrow> bytes" where
  "section_bytes img s i n =
     (if i < unat (sec_size s) then take (min n (unat (sec_size s) - i)) (drop (unat (sec_offset s) + i) img) else [])"

lemma read_sections_hit:
  assumes "unat (sec_vaddr s) + unat (sec_vsize s) < 2 ^ 64" "i < unat (sec_vsize s)"
    "unat (sec_offset s) + unat (sec_size s) < 2 ^ 64"
  shows "read_sections img (s # secs) (sec_vaddr s + word_of_nat i) n = section_bytes img s i n"
proof -
  let ?a = "sec_vaddr s + word_of_nat i"
  have i: "unat (word_of_nat i :: u64) = i"
    using assms(1,2) by (simp add: unat_of_nat take_bit_nat_eq_self_iff)
  then have "unat ?a = unat (sec_vaddr s) + i"
    using assms(1,2) by (simp add: unat_word_ariths)
  then have hit: "\<not> (?a < sec_vaddr s \<or> ?a \<ge> sec_vaddr s + sec_vsize s)"
    using assms(2) in_sec_range [OF assms(1), of ?a] by (auto simp: sec_range_def)
  have within: "?a - sec_vaddr s = word_of_nat i" by simp
  have size: "word_of_nat i \<ge> sec_size s \<longleftrightarrow> \<not> i < unat (sec_size s)"
    using i by (simp add: word_le_nat_alt not_less)
  show ?thesis
  proof (cases "i < unat (sec_size s)")
    case False
    then show ?thesis using hit within size by (simp add: section_bytes_def Let_def)
  next
    case True
    have off: "unat (sec_offset s + word_of_nat i) = unat (sec_offset s) + i"
      using i True assms(3) by (simp add: unat_word_ariths)
    have avail: "unat (sec_size s - word_of_nat i) = unat (sec_size s) - i"
      using i True by (simp add: unat_sub word_le_nat_alt)
    show ?thesis
      using hit within size True
      by (simp add: section_bytes_def Let_def off avail)
  qed
qed

lemma read_sections_miss:
  "sections_ok secs \<Longrightarrow> \<forall>s \<in> set secs. unat a \<notin> sec_range s \<Longrightarrow> read_sections img secs a n = []"
  by (induction secs) (simp_all add: sections_ok_Cons in_sec_range)

lemma read_sections_at:
  assumes "sections_ok secs" "s \<in> set secs" "i < unat (sec_vsize s)"
    "unat (sec_offset s) + unat (sec_size s) < 2 ^ 64"
  shows "read_sections img secs (sec_vaddr s + word_of_nat i) n = section_bytes img s i n"
  using assms(1,2)
proof (induction secs)
  case (Cons t secs)
  let ?a = "sec_vaddr s + word_of_nat i"
  show ?case
  proof (cases "s = t")
    case True
    then show ?thesis
      using Cons.prems assms(3,4) by (simp only: read_sections_hit sections_ok_Cons)
  next
    case False
    have fit: "unat (sec_vaddr s) + unat (sec_vsize s) < 2 ^ 64"
      using Cons.prems by (auto simp: sections_ok_def)
    have "unat ?a = unat (sec_vaddr s) + i"
      using assms(3) fit by (simp add: unat_word_ariths unat_of_nat take_bit_nat_eq_self_iff)
    then have "unat ?a \<in> sec_range s" using assms(3) by (simp add: sec_range_def)
    then have "unat ?a \<notin> sec_range t"
      using Cons.prems False by (auto simp: sections_ok_Cons)
    then have "read_sections img (t # secs) ?a n = read_sections img secs ?a n"
      using Cons.prems in_sec_range [of t ?a] by (simp add: sections_ok_Cons)
    with Cons False show ?thesis by (simp add: sections_ok_Cons)
  qed
qed simp

section \<open>Names\<close>

lemma map_of_static_names: "map_of (assign_all (static_names bin) []) = image_name bin"
proof
  fix a
  have "map_of (rev (static_names bin)) a = image_name bin a"
    unfolding static_names_def rev_append map_of_append map_add_def rev_map map_of_find image_name_def last_match_def
    by (auto split: option.splits)
  then show "map_of (assign_all (static_names bin) []) a = image_name bin a"
    by (simp add: map_of_assign_all split: option.split)
qed

text \<open>The map of a session is the one its image gives.\<close>

definition static_ok :: "static_ctx \<Rightarrow> bool" where
  "static_ok c \<longleftrightarrow> map_of (sc_symbol_map c) = image_name (sc_bin c) \<and> om_ok (sc_symbol_map c)"

lemma static_load_ok: "static_load files parse path = Some c \<Longrightarrow> static_ok c"
  by (auto simp: static_load_def static_ok_def map_of_static_names assign_all_ok split: option.splits result.splits if_splits)

section \<open>Properties\<close>

text \<open>C24: Reads of a static session serve each section from its own range of the file, whatever the order
  of the section table, cut off at the end of the section's data and of the file; an address in
  no section reads nothing.\<close>

theorem static_reads_serve_sections:
  assumes "sections_ok (bi_sections (sc_bin c))"
  shows "(\<forall>s i n. s \<in> set (bi_sections (sc_bin c)) \<longrightarrow> i < unat (sec_vsize s) \<longrightarrow>
       unat (sec_offset s) + unat (sec_size s) < 2 ^ 64 \<longrightarrow>
       static_read_memory (sec_vaddr s + word_of_nat i) n c =
         (if i < unat (sec_size s)
          then take (min (unat n) (unat (sec_size s) - i)) (drop (unat (sec_offset s) + i) (sc_image c))
          else [], c)) \<and>
    (\<forall>a n. (\<forall>s \<in> set (bi_sections (sc_bin c)). unat a \<notin> sec_range s) \<longrightarrow> static_read_memory a n c = ([], c))"
  using read_sections_at [OF assms] read_sections_miss [OF assms]
  by (auto simp: static_read_memory_def read_at_def section_bytes_def)

text \<open>A small file with one section for the witnesses.\<close>

definition small_file :: "symbol_map \<Rightarrow> static_ctx" where
  "small_file m =
     \<lparr>sc_bin = \<lparr>bi_path = ''a.exe'', bi_format = ''PE'', bi_entry_point = 0x2000, bi_image_base = 0x1000,
        bi_is_64bit = True,
        bi_sections = [\<lparr>sec_name = ''.text'', sec_vaddr = 0x2000, sec_vsize = 4, sec_offset = 2, sec_size = 4,
          sec_perms = 5\<rparr>],
        bi_imports = [], bi_exports = [], bi_symbols = []\<rparr>,
      sc_image = [0x4D, 0x5A, 0x41, 0x42, 0x43, 0x44], sc_symbol_map = m,
      sc_analysis = \<lparr>ar_functions = [], ar_xrefs = []\<rparr>\<rparr>"

lemma small_file_sections: "sections_ok (bi_sections (sc_bin (small_file m)))"
  by (simp add: sections_ok_def small_file_def)

theorem static_reads_serve_sections_witness:
  "fst (static_read_memory 0x2001 8 (small_file [])) = [0x42, 0x43, 0x44]"
  using conjunct1 [OF static_reads_serve_sections [OF small_file_sections [of "[]"]], rule_format, of _ 1 8]
  by (simp add: small_file_def)

text \<open>The strings a static session lists carry addresses that count from the image base as if the file
  were mapped as it lies on disk: in a file whose sections are mapped elsewhere, reading at the
  address of a string does not give the string, and the address where it is mapped is not listed.\<close>

theorem static_strings_misplaced:
  "\<exists>c. sections_ok (bi_sections (sc_bin c)) \<and>
     fst (static_strings c) = [\<lparr>ag_addr = 0x1000, ag_text = ''MZABCD''\<rparr>] \<and>
     fst (static_read_memory 0x1000 6 c) = [] \<and>
     map char_of_byte (fst (static_read_memory 0x2000 4 c)) = ''ABCD''"
proof (intro exI conjI)
  show "sections_ok (bi_sections (sc_bin (small_file [])))" by (rule small_file_sections)
  show "fst (static_strings (small_file [])) = [\<lparr>ag_addr = 0x1000, ag_text = ''MZABCD''\<rparr>]" by code_simp
  show "fst (static_read_memory 0x1000 6 (small_file [])) = []" by code_simp
  show "map char_of_byte (fst (static_read_memory 0x2000 4 (small_file []))) = ''ABCD''" by code_simp
qed

lemma read_sections_length: "length (read_sections img secs a n) \<le> n"
  by (induction img secs a n rule: read_sections.induct) (simp_all add: Let_def)

text \<open>A static disassembly tiles the file: the byte columns of the rows are the dumps of consecutive
  nonempty pieces of what reading at the address gives, and each row's address is where its
  piece starts; at most the requested number of rows is listed.\<close>

theorem static_disasm_tiles:
  assumes "zydis_in_buffer Z"
  shows "\<exists>chunks. map ir_bytes (fst (static_disasm Z addr n c)) = map format_bytes chunks \<and>
     concat chunks = take (length (concat chunks)) (fst (static_read_memory addr (n * kMaxInsnBytes) c)) \<and>
     length chunks \<le> unat n \<and>
     (\<forall>k < length chunks. chunks ! k \<noteq> [] \<and>
        ir_address (fst (static_disasm Z addr n c) ! k) = addr + word_of_nat (length (concat (take k chunks))))"
proof (cases "n = 0 \<or> read_at c addr (unat (n * kMaxInsnBytes)) = []")
  case True
  then have "fst (static_disasm Z addr n c) = []" by (auto simp: static_disasm_def Let_def)
  then show ?thesis by (intro exI [of _ "[]"]) simp
next
  case False
  define bs where "bs = read_at c addr (unat (n * kMaxInsnBytes))"
  define insns where "insns = decode_linear Z bs addr (unat n)"
  define chunks where "chunks = map (insn_chunk bs addr) insns"
  have rows: "fst (static_disasm Z addr n c) =
      map (\<lambda>insn. insn_row_of bs addr (static_annotation c insn) insn) insns"
    using False by (simp add: static_disasm_def Let_def bs_def insns_def)
  have "length bs < 2 ^ 64"
    using read_sections_length [of "sc_image c" "bi_sections (sc_bin c)" addr "unat (n * kMaxInsnBytes)"]
      unsigned_less [of "n * kMaxInsnBytes", where ?'a = nat]
    by (simp add: bs_def read_at_def)
  note tile = chunks_tile [OF assms this insns_def [symmetric], folded chunks_def]
  have len: "length (concat (take k chunks)) = span (take k insns)" if "k \<le> length insns" for k
    using that
  proof (induction k)
    case (Suc k)
    then have k: "k < length insns" by simp
    then show ?case
      using Suc.IH tile(2) [OF k] by (simp add: chunks_def take_Suc_conv_app_nth)
  qed simp
  have "length insns \<le> unat n"
    using linear_loop_tiles [of Z "unat n" bs addr 0 "[]" insns] by (simp add: insns_def decode_linear_def)
  moreover have "chunks ! k \<noteq> []" if "k < length insns" for k
    using tile(2) [OF that] decode_one_in_buffer [OF assms, of _ _ "insns ! k"] that
    by (auto simp: chunks_def)
  moreover have "concat chunks = take (length (concat chunks)) bs"
    using tile(1) len [of "length insns"] by (simp add: chunks_def)
  ultimately show ?thesis
    using tile(2) len
    by (intro exI [of _ chunks]) (simp add: rows chunks_def insn_row_of_def static_read_memory_def bs_def)
qed

definition nop_zydis :: zydis where
  "nop_zydis =
     \<lparr>z_decode_full = (\<lambda>b. if b = [] then None
        else Some (\<lparr>zi_length = 1, zi_mnemonic = 0, zi_category = ZCategoryRet, zi_visible = 0\<rparr>, [])),
      z_register_string = Map.empty, z_mnemonic_string = Map.empty, z_format = (\<lambda>_ _ _. None),
      z_calc_absolute = (\<lambda>_ _ _. None), z_register_rip = 35\<rparr>"

lemma nop_zydis_in_buffer: "zydis_in_buffer nop_zydis"
  by (auto simp: zydis_in_buffer_def nop_zydis_def Suc_le_eq)

theorem static_disasm_tiles_witness:
  "map ir_bytes (fst (static_disasm nop_zydis 0x2000 2 (small_file []))) = [''41'', ''42''] \<and>
   (\<exists>chunks. map format_bytes chunks = [''41'', ''42''] \<and> length chunks \<le> 2)"
proof -
  have "map ir_bytes (fst (static_disasm nop_zydis 0x2000 2 (small_file []))) = [''41'', ''42'']" by code_simp
  moreover obtain chunks where
    "map ir_bytes (fst (static_disasm nop_zydis 0x2000 2 (small_file []))) = map format_bytes chunks"
    "length chunks \<le> unat (2 :: u64)"
    using static_disasm_tiles [OF nop_zydis_in_buffer, where addr = "0x2000" and n = 2 and c = "small_file []"]
    by blast
  ultimately show ?thesis by (intro conjI exI [of _ chunks]) simp_all
qed

text \<open>C25: Analysing a static session returns, and then the entry point and every named address of the
  file is the start of a listed function, which carries the name: an import's before an
  export's before a symbol's.\<close>

theorem static_analysis_names_symbols:
  assumes "static_ok c" "decodes_forward (decode_one Z)" "\<forall>xs. set (order xs) = set xs"
    "\<forall>s \<in> set (bi_sections (sc_bin c)). unat (sec_vaddr s) + unat (sec_vsize s) \<le> hi"
    "hi + 16 \<le> 2 ^ 64" "hi < fuel"
  shows "\<exists>c1. static_run_analysis Z order fuel c = Some c1 \<and>
    (bi_entry_point (sc_bin c) \<noteq> 0 \<longrightarrow>
       bi_entry_point (sc_bin c) \<in> afn_addr ` set (fst (static_functions c1))) \<and>
    (\<forall>a nm. image_name (sc_bin c) a = Some nm \<and> a \<noteq> 0 \<longrightarrow>
       (\<exists>f \<in> set (fst (static_functions c1)). afn_addr f = a \<and> afn_name f = nm))"
proof -
  have miss: "read_sections img secs a n = []"
    if "\<forall>s \<in> set secs. unat (sec_vaddr s) + unat (sec_vsize s) \<le> hi" "hi \<le> unat a" for img secs a n
    using that
  proof (induction secs)
    case (Cons s secs)
    then have "unat (sec_vaddr s) + unat (sec_vsize s) < 2 ^ 64" "unat a \<notin> sec_range s"
      using assms(5) by (auto simp: sec_range_def)
    then show ?case using Cons in_sec_range [of s a] by simp
  qed simp
  then have "image_ends_at (\<lambda>_. True) (static_reader c) hi"
    using assms(4,5) by (simp add: image_ends_at_def static_reader_def read_at_def)
  from build_total [OF assms(2) this assms(6)]
  have "returns (\<lambda>_. True) snd (analyze_loop (decode_one Z) (static_reader c) fuel (Some (resolve_symbol c))
      (static_entries order c) (static_entries order c) [] \<lparr>ar_functions = [], ar_xrefs = []\<rparr> ())"
    by (intro analyze_loop_total) simp_all
  then obtain r where r: "analyze (decode_one Z) (static_reader c) fuel (Some (resolve_symbol c))
      (static_entries order c) () = Some (r, ())"
    by (auto simp: analyze_def returns_def)
  obtain q an where inv: "analysis_inv (static_entries order c) [] q an (ar_functions r)"
    using analyze_inv [OF r] by blast
  have covered: "a \<in> fn_addr ` set (ar_functions r)" if "a \<in> set (static_entries order c)" "a \<noteq> 0" for a
    using inv that by (auto simp: analysis_inv_def)
  have named: "\<exists>f \<in> set (ar_functions r). fn_addr f = a \<and> fn_name f = nm"
    if "image_name (sc_bin c) a = Some nm" "a \<noteq> 0" for a nm
  proof -
    have a: "resolve_symbol c a = Some nm" using assms(1) that(1) by (simp add: static_ok_def resolve_symbol_def)
    then have "a \<in> set (map fst (sc_symbol_map c))"
      by (auto simp: resolve_symbol_def intro: rev_image_eqI dest: map_of_SomeD)
    then have "a \<in> set (static_entries order c)" using assms(3) by (simp add: static_entries_def)
    then obtain f where "f \<in> set (ar_functions r)" "fn_addr f = a" using covered \<open>a \<noteq> 0\<close> by auto
    with analyze_names [OF r, of f] a show ?thesis by (auto simp: name_of_def)
  qed
  show ?thesis
    using r covered named
    by (auto simp: static_run_analysis_def static_functions_def function_row_def static_entries_def image_image)
qed

theorem static_analysis_names_symbols_witness:
  "\<exists>c1 f. static_run_analysis nop_zydis id 0x3000 (small_file []) = Some c1 \<and>
     f \<in> set (fst (static_functions c1)) \<and> afn_addr f = 0x2000"
proof -
  have "static_ok (small_file [])"
    by (simp add: static_ok_def small_file_def image_name_def last_match_def fun_eq_iff)
  moreover have "decodes_forward (decode_one nop_zydis)"
    by (auto simp: decodes_forward_def decode_one_def nop_zydis_def Let_def split: if_splits)
  moreover have "\<forall>s \<in> set (bi_sections (sc_bin (small_file []))).
      unat (sec_vaddr s) + unat (sec_vsize s) \<le> 0x2004"
    by (simp add: small_file_def)
  ultimately show ?thesis
    using static_analysis_names_symbols [of "small_file []" nop_zydis id "0x2004" "0x3000"]
    by (auto simp: small_file_def)
qed

text \<open>Loading a file gives a session that names addresses as the image does: an import's name wins over
  an export's and that over a symbol's, the last entry wins within a table, all at addresses
  rebased to the image base.\<close>

theorem static_symbols_resolve:
  assumes "static_load files parse path = Some c" "parse path = LiefBinary b"
  shows "sc_bin c = binary_of_lief path b \<and> resolve_symbol c = image_name (binary_of_lief path b) \<and>
    (\<forall>li \<in> set (lb_imports b). \<forall>(nm, rva) \<in> set (li_entries li).
       \<exists>nm1. resolve_symbol c (rva + lb_imagebase b) = Some (''sym.imp.'' @ nm1))"
proof -
  have bin: "sc_bin c = binary_of_lief path b"
    using assms by (auto simp: static_load_def parse_file_def split: option.splits if_splits)
  have res: "resolve_symbol c = image_name (binary_of_lief path b)"
    using static_load_ok [OF assms(1)] bin by (auto simp: static_ok_def resolve_symbol_def)
  have "\<exists>nm1. image_name (binary_of_lief path b) (rva + lb_imagebase b) = Some (''sym.imp.'' @ nm1)"
    if "li \<in> set (lb_imports b)" "(nm, rva) \<in> set (li_entries li)" for li nm rva
  proof -
    let ?i = "\<lparr>imp_name = nm, imp_library = li_name li, imp_iat_addr = rva + lb_imagebase b\<rparr>"
    have "?i \<in> set (bi_imports (binary_of_lief path b))"
      using that by (force simp: binary_of_lief_def rebase_info_def collect_imports_def)
    then have "find (\<lambda>i. imp_iat_addr i = rva + lb_imagebase b) (rev (bi_imports (binary_of_lief path b))) \<noteq> None"
      unfolding find_None_iff by (metis (mono_tags, lifting) bin_import.select_convs(3) set_rev)
    then show ?thesis by (auto simp: image_name_def last_match_def)
  qed
  with bin res show ?thesis by auto
qed

theorem static_symbols_resolve_witness:
  "\<exists>c nm. static_load (\<lambda>_. Some [0x4D]) (\<lambda>_. LiefBinary
      \<lparr>lb_entrypoint = 0, lb_imagebase = 0x1000, lb_pe32_plus = True, lb_sections = [],
       lb_imports = [\<lparr>li_name = ''k'', li_entries = [(''f'', 0x10)]\<rparr>], lb_has_exports = False,
       lb_export = None, lb_symbols = [(''f'', 0x10)]\<rparr>) ''a'' = Some c \<and>
     resolve_symbol c 0x1010 = Some (''sym.imp.'' @ nm)"
proof -
  let ?b = "\<lparr>lb_entrypoint = 0, lb_imagebase = 0x1000, lb_pe32_plus = True, lb_sections = [],
       lb_imports = [\<lparr>li_name = ''k'', li_entries = [(''f'', 0x10)]\<rparr>], lb_has_exports = False,
       lb_export = None, lb_symbols = [(''f'', 0x10)]\<rparr>"
  obtain c where c: "static_load (\<lambda>_. Some [0x4D]) (\<lambda>_. LiefBinary ?b) ''a'' = Some c"
    by (simp add: static_load_def parse_file_def)
  from static_symbols_resolve [OF c refl] c show ?thesis by auto
qed

end
