(* ===== verification/Register_Set.thy ===== *)
theory Register_Set
  imports Gdb_Backend
begin

text \<open>
  target/src/register_set.cpp: the register file decoded from a raw block.  The
  lemmas show which registers a block of a given length yields, and that each
  value is the little-endian integer at the offset the gdb profile announces.
\<close>

unbundle bit_operations_syntax

type_synonym register_set = "(string \<times> u64) list"

definition rs_kQwordRegs :: "string list" where
  "rs_kQwordRegs =
     [''rax'', ''rbx'', ''rcx'', ''rdx'', ''rsi'', ''rdi'', ''rbp'', ''rsp'', ''r8'',
      ''r9'', ''r10'', ''r11'', ''r12'', ''r13'', ''r14'', ''r15'', ''rip'']"

fun decode_le_loop :: "nat \<Rightarrow> bytes \<Rightarrow> u64 \<Rightarrow> u64" where
  "decode_le_loop i [] v = v"
| "decode_le_loop i (b # bs) v = decode_le_loop (Suc i) bs (v OR push_bit (8 * i) (ucast b))"

definition decode_le :: "bytes \<Rightarrow> u64" where
  "decode_le bs = decode_le_loop 0 bs 0"

text \<open>The first loop of \<open>decode\<close>: it stops where the block ends.\<close>

fun decode_qwords :: "string list \<Rightarrow> bytes \<Rightarrow> nat \<Rightarrow> register_set \<Rightarrow> register_set \<times> nat" where
  "decode_qwords [] blk off regs = (regs, off)"
| "decode_qwords (n # ns) blk off regs =
     (if off \<ge> length blk then (regs, off)
      else
        let tk = min 8 (length blk - off) in
        decode_qwords ns blk (off + tk) (regs @ [(n, decode_le (take tk (drop off blk)))]))"

definition rs_decode :: "bytes \<Rightarrow> register_set result" where
  "rs_decode blk =
     (let (regs, off) = decode_qwords rs_kQwordRegs blk 0 [] in
      if off < length blk then
        let tk = min 4 (length blk - off) in
        Ok (regs @ [(''eflags'', decode_le (take tk (drop off blk)))])
      else Ok regs)"

fun rs_get :: "register_set \<Rightarrow> string \<Rightarrow> u64 option" where
  "rs_get [] name = None"
| "rs_get ((n, v) # rest) name = (if n = name then Some v else rs_get rest name)"

section \<open>Little-endian decoding\<close>

lemma decode_le_loop_eq:
  "decode_le_loop i bs v = v OR push_bit (8 * i) (u64_of_bytes bs)"
proof (induction bs arbitrary: i v)
  case (Cons b bs)
  have "u64_of_bytes (b # bs) = push_bit 8 (u64_of_bytes bs) OR ucast b"
    by (simp add: u64_of_bytes_def)
  then have "push_bit (8 * i) (u64_of_bytes (b # bs)) =
      push_bit (8 * Suc i) (u64_of_bytes bs) OR push_bit (8 * i) (ucast b)"
    by (simp add: push_bit_or ac_simps)
  then show ?case by (simp add: Cons.IH ac_simps)
qed (simp add: u64_of_bytes_def)

lemma decode_le_eq: "decode_le bs = u64_of_bytes bs"
  by (simp add: decode_le_def decode_le_loop_eq)

lemma decode_le_bytes_of_u64: "decode_le (bytes_of_u64 v) = v"
  by (simp add: decode_le_eq u64_of_bytes_of_u64)

section \<open>What a block yields\<close>

lemma decode_qwords_full:
  "off + 8 * length ns \<le> length blk \<Longrightarrow>
   decode_qwords ns blk off regs =
     (regs @ map (\<lambda>i. (ns ! i, decode_le (take 8 (drop (off + 8 * i) blk)))) [0..<length ns],
      off + 8 * length ns)"
proof (induction ns arbitrary: off regs)
  case (Cons n ns)
  have m: "min 8 (length blk - off) = 8" "\<not> length blk \<le> off"
    using Cons.prems by simp_all
  have "[0..<length (n # ns)] = 0 # map Suc [0..<length ns]"
    by (simp add: upt_conv_Cons map_Suc_upt del: upt_Suc)
  with m Cons.prems Cons.IH [of "off + 8"] show ?case
    by (simp add: Let_def o_def add.assoc del: upt_Suc)
qed simp

lemma decode_qwords_names:
  "map fst (fst (decode_qwords ns blk off regs)) =
     map fst regs @ take ((length blk - off + 7) div 8) ns"
proof (induction ns arbitrary: off regs)
  case (Cons n ns)
  show ?case
  proof (cases "off \<ge> length blk")
    case False
    then obtain d where d: "length blk = off + Suc d" by (metis less_iff_Suc_add not_le add_Suc_right)
    have "(length blk - (off + min 8 (length blk - off)) + 7) div 8 = (Suc d - 8 + 7) div 8"
      using d by (simp add: min_def)
    moreover have "(Suc d + 7) div 8 = Suc ((Suc d - 8 + 7) div 8)" by presburger
    ultimately show ?thesis
      using Cons.IH False d by (simp add: Let_def)
  qed simp
qed simp

lemma rs_get_append: "rs_get (xs @ ys) n = (case rs_get xs n of None \<Rightarrow> rs_get ys n | Some v \<Rightarrow> Some v)"
  by (induction xs n rule: rs_get.induct) auto

lemma rs_get_None_iff: "rs_get rs n = None \<longleftrightarrow> n \<notin> fst ` set rs"
  by (induction rs n rule: rs_get.induct) auto

lemma rs_get_distinct: "distinct (map fst rs) \<Longrightarrow> rs_get rs n = Some v \<longleftrightarrow> (n, v) \<in> set rs"
  by (induction rs n rule: rs_get.induct) (auto simp: rev_image_eqI image_iff)

lemma rs_kQwordRegs_length [simp]: "length rs_kQwordRegs = 17"
  by (simp add: rs_kQwordRegs_def)

lemma rs_decode_full:
  assumes "140 \<le> length blk"
  shows "rs_decode blk =
     Ok (map (\<lambda>i. (rs_kQwordRegs ! i, decode_le (take 8 (drop (8 * i) blk)))) [0..<17] @
         [(''eflags'', decode_le (take 4 (drop 136 blk)))])"
  using assms decode_qwords_full [of 0 rs_kQwordRegs blk "[]"]
  by (simp add: rs_decode_def Let_def del: upt_Suc)

lemma rs_decode_never_fails: "\<exists>rs. rs_decode blk = Ok rs"
  by (simp add: rs_decode_def Let_def split: prod.splits)

lemma rs_decode_names:
  assumes "rs_decode blk = Ok rs"
  shows "map fst rs = take ((length blk + 7) div 8) (rs_kQwordRegs @ [''eflags''])"
proof -
  obtain regs off where q: "decode_qwords rs_kQwordRegs blk 0 [] = (regs, off)" by fastforce
  have names: "map fst regs = take ((length blk + 7) div 8) rs_kQwordRegs"
    using decode_qwords_names [of rs_kQwordRegs blk 0 "[]"] q by simp
  show ?thesis
  proof (cases "136 < length blk")
    case True
    then have "off = 136"
      using decode_qwords_full [of 0 rs_kQwordRegs blk "[]"] q by simp
    moreover have "18 \<le> (length blk + 7) div 8" using True by presburger
    ultimately show ?thesis
      using assms q True names by (auto simp: rs_decode_def Let_def)
  next
    case False
    have "off \<ge> length blk" if "length blk \<le> 8 * length ns + o1" "decode_qwords ns blk o1 rs1 = (regs, off)"
      for ns o1 rs1
      using that
    proof (induction ns arbitrary: o1 rs1)
      case (Cons n ns)
      show ?case
      proof (cases "o1 \<ge> length blk")
        case False
        then show ?thesis using Cons.prems
          by (intro Cons.IH [of "o1 + min 8 (length blk - o1)"]) (auto simp: Let_def min_def)
      qed (use Cons.prems in simp)
    qed simp
    from this [OF _ q] False have "off \<ge> length blk" by simp
    moreover have "(length blk + 7) div 8 \<le> 17" using False by presburger
    ultimately show ?thesis
      using assms q names by (auto simp: rs_decode_def Let_def)
  qed
qed

section \<open>Agreement with the backend's profile\<close>

lemma slot_offset: "i < 17 \<Longrightarrow> unat (8 * word_of_nat i :: u32) = 8 * i"
proof -
  assume i: "i < 17"
  have "unat (word_of_nat (8 * i) :: u32) = 8 * i"
    by (subst unat_of_nat) (use i in \<open>simp add: take_bit_eq_mod\<close>)
  then show ?thesis by simp
qed

lemma register_names_agree: "i < 17 \<Longrightarrow> fst (kQwordRegs ! i) = rs_kQwordRegs ! i"
proof -
  assume "i < 17"
  moreover have "map fst kQwordRegs = rs_kQwordRegs" "length kQwordRegs = 17"
    by (simp_all add: kQwordRegs_def rs_kQwordRegs_def)
  ultimately show ?thesis by (metis nth_map)
qed

lemma rs_full_distinct:
  "distinct (map fst (map (\<lambda>i. (rs_kQwordRegs ! i, v i)) [0..<17] @ [(''eflags'', w)]))"
proof -
  have "map (\<lambda>i. rs_kQwordRegs ! i) [0..<17] = rs_kQwordRegs"
    by (metis map_nth rs_kQwordRegs_length)
  moreover have "distinct (rs_kQwordRegs @ [''eflags''])"
    by (simp add: rs_kQwordRegs_def)
  ultimately show ?thesis by (simp add: o_def del: upt_Suc)
qed

text \<open>C5: Every register the gdb profile announces is in the decoded set of a full block, with the
  little-endian value found at the announced offset and size; decoding yields nothing else.\<close>

theorem registers_follow_profile:
  assumes "140 \<le> length blk" "f \<in> set (rp_fields make_x86_64_gdb_profile)"
  shows "\<exists>rs. rs_decode blk = Ok rs \<and>
     map fst rs = map rf_name (rp_fields make_x86_64_gdb_profile) \<and>
     rs_get rs (rf_name f) =
       Some (u64_of_bytes (take (unat (rf_size f)) (drop (unat (rf_offset f)) blk)))"
proof -
  define rs where "rs = map (\<lambda>i. (rs_kQwordRegs ! i, decode_le (take 8 (drop (8 * i) blk)))) [0..<17] @
         [(''eflags'', decode_le (take 4 (drop 136 blk)))]"
  have dec: "rs_decode blk = Ok rs" unfolding rs_def by (rule rs_decode_full [OF assms(1)])
  have d: "distinct (map fst rs)" unfolding rs_def by (rule rs_full_distinct)
  have names: "map fst rs = map rf_name (rp_fields make_x86_64_gdb_profile)"
    by (simp add: rs_def make_x86_64_gdb_profile_eq o_def register_names_agree del: upt_Suc)
  have "(rf_name f, u64_of_bytes (take (unat (rf_size f)) (drop (unat (rf_offset f)) blk))) \<in> set rs"
  proof -
    consider i where "i < 17"
        "f = \<lparr>rf_name = rs_kQwordRegs ! i, rf_offset = 8 * word_of_nat i, rf_size = 8\<rparr>"
      | "f = \<lparr>rf_name = ''eflags'', rf_offset = 136, rf_size = 4\<rparr>"
      using assms(2) by (auto simp: make_x86_64_gdb_profile_eq register_names_agree simp del: upt_Suc)
    then show ?thesis
      by cases (auto simp: rs_def decode_le_eq slot_offset simp del: upt_Suc)
  qed
  with dec names d show ?thesis by (auto simp: rs_get_distinct)
qed

theorem registers_follow_profile_witness:
  "\<exists>rs. rs_decode (replicate 140 7) = Ok rs \<and>
     map fst rs = map rf_name (rp_fields make_x86_64_gdb_profile) \<and>
     rs_get rs ''eflags'' = Some (u64_of_bytes (take 4 (drop 136 (replicate 140 7))))"
  using registers_follow_profile [of "replicate 140 7" "\<lparr>rf_name = ''eflags'', rf_offset = 136, rf_size = 4\<rparr>"]
  by (simp add: make_x86_64_gdb_profile_eq)

end
