(* ===== verification/Target.thy ===== *)
theory Target
  imports Memory_Cache Register_Set
begin

text \<open>
  target/src/target.cpp, guest_state.cpp and target_gdb_attach.cpp: the target owns a
  backend, the memory cache and the state of the current stop.  \<open>tg_state\<close> is the
  owning pointer, null before the first stop.  A guest state refers to the target's
  cache, so its reads act on the target.

  The lemmas show the stop protocol: the epoch moves by one exactly when a stop is
  complete, the registers of the state are those of that stop, the cache is empty
  and all three epochs agree; a failed operation changes nothing but the backend.
\<close>

record guest_state =
  gs_epoch :: u64
  gs_registers :: register_set

record 'b target =
  tg_backend :: 'b
  tg_cache :: mem_cache
  tg_epoch :: u64
  tg_state :: "guest_state option"

definition target_init :: "'b \<Rightarrow> 'b target" where
  "target_init b = \<lparr>tg_backend = b, tg_cache = mem_cache_init, tg_epoch = 0, tg_state = None\<rparr>"

definition refresh_state :: "'b backend_ops \<Rightarrow> 'b target \<Rightarrow> unit result \<times> 'b target" where
  "refresh_state ops t =
     (case be_read_registers ops (tg_backend t) of
        (Err e, b1) \<Rightarrow> (Err e, t\<lparr>tg_backend := b1\<rparr>)
      | (Ok raw, b1) \<Rightarrow>
          (case rs_decode raw of
             Err e \<Rightarrow> (Err e, t\<lparr>tg_backend := b1\<rparr>)
           | Ok regs \<Rightarrow>
               let e1 = tg_epoch t + 1 in
               (Ok (), t\<lparr>tg_backend := b1, tg_epoch := e1, tg_cache := set_epoch e1 (tg_cache t),
                         tg_state := Some \<lparr>gs_epoch = e1, gs_registers = regs\<rparr>\<rparr>)))"

text \<open>The second component is the object under construction; on an error it is destroyed.\<close>

definition tg_attach :: "'b backend_ops \<Rightarrow> 'b \<Rightarrow> unit result \<times> 'b target" where
  "tg_attach ops b = refresh_state ops (target_init b)"

definition to_proto_stop_reply :: "stop_reply \<Rightarrow> wire_stop" where
  "to_proto_stop_reply s =
     (let k = (case sr_kind s of
                 Breakpoint \<Rightarrow> WSignal | SingleStep \<Rightarrow> WSignal | Signal \<Rightarrow> WSignal
               | Exited \<Rightarrow> WExited | Error \<Rightarrow> WUnknown | Unknown \<Rightarrow> WUnknown)
      in wire_stop_init\<lparr>ws_kind := k, ws_code := sr_signal s, ws_output := sr_detail s\<rparr>)"

definition tg_registers :: "'b target \<Rightarrow> register_set option" where
  "tg_registers t = map_option gs_registers (tg_state t)"

text \<open>\<open>GuestState::read\<close> goes to the shared cache; without a state the call has no meaning.\<close>

definition tg_read_memory ::
    "'b backend_ops \<Rightarrow> u64 \<Rightarrow> u64 \<Rightarrow> 'b target \<Rightarrow> (bytes result \<times> 'b target) option" where
  "tg_read_memory ops addr len t =
     (case tg_state t of
        None \<Rightarrow> None
      | Some _ \<Rightarrow>
          (case mc_read ops addr len (tg_cache t) (tg_backend t) of
             (r, c1, b1) \<Rightarrow> Some (r, t\<lparr>tg_cache := c1, tg_backend := b1\<rparr>)))"

definition run_and_refresh ::
    "'b backend_ops \<Rightarrow> ('b \<Rightarrow> stop_reply result \<times> 'b) \<Rightarrow> 'b target \<Rightarrow> wire_stop result \<times> 'b target" where
  "run_and_refresh ops run t =
     (case run (tg_backend t) of
        (Err e, b1) \<Rightarrow> (Err e, t\<lparr>tg_backend := b1\<rparr>)
      | (Ok stop, b1) \<Rightarrow>
          (case refresh_state ops (t\<lparr>tg_backend := b1\<rparr>) of
             (Err e, t2) \<Rightarrow> (Err e, t2)
           | (Ok _, t2) \<Rightarrow> (Ok (to_proto_stop_reply stop), t2)))"

definition tg_cont :: "'b backend_ops \<Rightarrow> 'b target \<Rightarrow> wire_stop result \<times> 'b target" where
  "tg_cont ops t = run_and_refresh ops (be_cont ops) t"

definition tg_step :: "'b backend_ops \<Rightarrow> 'b target \<Rightarrow> wire_stop result \<times> 'b target" where
  "tg_step ops t = run_and_refresh ops (be_step ops) t"

definition tg_memory_changed ::
    "'b backend_ops \<Rightarrow> nat \<Rightarrow> u64 \<Rightarrow> u64 \<Rightarrow> 'b target \<Rightarrow> (bool \<times> 'b target) option" where
  "tg_memory_changed ops fuel addr len t =
     map_option (\<lambda>(r, c1, b1). (r, t\<lparr>tg_cache := c1, tg_backend := b1\<rparr>))
       (changed_since_last_epoch ops fuel addr len (tg_cache t) (tg_backend t))"

definition on_backend :: "('b \<Rightarrow> 'r \<times> 'b) \<Rightarrow> 'b target \<Rightarrow> 'r \<times> 'b target" where
  "on_backend f t = (let (r, b1) = f (tg_backend t) in (r, t\<lparr>tg_backend := b1\<rparr>))"

definition tg_maps :: "'b backend_ops \<Rightarrow> 'b target \<Rightarrow> mem_map list result \<times> 'b target" where
  "tg_maps ops t = on_backend (be_maps ops) t"

definition tg_modules :: "'b backend_ops \<Rightarrow> 'b target \<Rightarrow> module_info list result \<times> 'b target" where
  "tg_modules ops t = on_backend (be_modules ops) t"

definition tg_threads :: "'b backend_ops \<Rightarrow> 'b target \<Rightarrow> thread_info list result \<times> 'b target" where
  "tg_threads ops t = on_backend (be_threads ops) t"

text \<open>\<open>Target::attach (host, port)\<close>: the overload over the gdb backend.\<close>

definition gdb_client_init :: "'w \<Rightarrow> 'w gdb_client" where
  "gdb_client_init w =
     \<lparr>gc_sock = \<lparr>tcp_sock = -1, tcp_net = w\<rparr>, gc_decoder = \<lparr>fd_buf = []\<rparr>\<rparr>"

definition tg_attach_gdb ::
    "'w winsock \<Rightarrow> string \<Rightarrow> u16 \<Rightarrow> 'w \<Rightarrow> unit result \<times> 'w gdb_client target" where
  "tg_attach_gdb ws host port w =
     (let spec = \<lparr>as_method = GdbRemote, as_host = host, as_port = port, as_pid = 0\<rparr> in
      case be_attach (gdb_backend_ops ws) spec (gdb_client_init w) of
        (Err e, c1) \<Rightarrow> (Err e, target_init c1)
      | (Ok _, c1) \<Rightarrow> tg_attach (gdb_backend_ops ws) c1)"

section \<open>The stop protocol\<close>

definition stopped_ok :: "'b target \<Rightarrow> bool" where
  "stopped_ok t \<longleftrightarrow> om_ok (mc_cur (tg_cache t)) \<and> mc_epoch (tg_cache t) = tg_epoch t \<and>
     (\<exists>s. tg_state t = Some s \<and> gs_epoch s = tg_epoch t)"

lemma refresh_state_cases:
  obtains (failed) e b1 where "refresh_state ops t = (Err e, t\<lparr>tg_backend := b1\<rparr>)"
      "be_read_registers ops (tg_backend t) = (Err e, b1)"
  | (stopped) raw regs b1 where "be_read_registers ops (tg_backend t) = (Ok raw, b1)"
      "rs_decode raw = Ok regs"
      "refresh_state ops t = (Ok (), t\<lparr>tg_backend := b1, tg_epoch := tg_epoch t + 1,
         tg_cache := set_epoch (tg_epoch t + 1) (tg_cache t),
         tg_state := Some \<lparr>gs_epoch = tg_epoch t + 1, gs_registers = regs\<rparr>\<rparr>)"
proof -
  obtain r b1 where r: "be_read_registers ops (tg_backend t) = (r, b1)" by fastforce
  show thesis
  proof (cases r)
    case (Err e)
    with r failed show ?thesis by (simp add: refresh_state_def)
  next
    case (Ok raw)
    obtain regs where "rs_decode raw = Ok regs" using rs_decode_never_fails by blast
    with r Ok stopped show ?thesis by (simp add: refresh_state_def Let_def)
  qed
qed

lemma run_and_refresh_cases:
  obtains (failed) e b1 where "run_and_refresh ops run t = (Err e, t\<lparr>tg_backend := b1\<rparr>)"
  | (stopped) stop raw regs b1 b2 where "run (tg_backend t) = (Ok stop, b1)"
      "be_read_registers ops b1 = (Ok raw, b2)" "rs_decode raw = Ok regs"
      "run_and_refresh ops run t = (Ok (to_proto_stop_reply stop),
         t\<lparr>tg_backend := b2, tg_epoch := tg_epoch t + 1,
           tg_cache := set_epoch (tg_epoch t + 1) (tg_cache t),
           tg_state := Some \<lparr>gs_epoch = tg_epoch t + 1, gs_registers = regs\<rparr>\<rparr>)"
proof -
  obtain r b1 where r: "run (tg_backend t) = (r, b1)" by fastforce
  show thesis
  proof (cases r)
    case (Err e)
    with r failed show ?thesis by (simp add: run_and_refresh_def)
  next
    case (Ok stop)
    note r = r [unfolded Ok]
    show ?thesis
    proof (cases rule: refresh_state_cases [of ops "t\<lparr>tg_backend := b1\<rparr>"])
      case (failed e b2)
      then show ?thesis using r that(1) by (simp add: run_and_refresh_def)
    next
      case (stopped raw regs b2)
      then show ?thesis using r that(2) by (simp add: run_and_refresh_def)
    qed
  qed
qed

lemma om_ok_set_epoch [simp]: "om_ok (mc_cur (set_epoch e c))" "mc_epoch (set_epoch e c) = e"
  "mc_prev (set_epoch e c) = mc_cur c" "mc_cur (set_epoch e c) = []"
  by (simp_all add: set_epoch_def)

lemma run_and_refresh_ok: "stopped_ok t \<Longrightarrow> stopped_ok (snd (run_and_refresh ops run t))"
  by (cases rule: run_and_refresh_cases [of ops run t]) (simp_all add: stopped_ok_def)

lemma tg_attach_ok: "tg_attach ops b = (Ok (), t) \<Longrightarrow> stopped_ok t \<and> tg_epoch t = 1"
  by (cases rule: refresh_state_cases [of ops "target_init b"])
    (auto simp: tg_attach_def stopped_ok_def target_init_def)

lemma tg_read_memory_ok:
  "stopped_ok t \<Longrightarrow> tg_read_memory ops addr len t = Some (r, t1) \<Longrightarrow>
   stopped_ok t1 \<and> tg_epoch t1 = tg_epoch t \<and> tg_state t1 = tg_state t"
  using read_loop_grown [of "tg_cache t" ops addr len "[]" "tg_backend t"]
  by (auto simp: tg_read_memory_def stopped_ok_def mc_read_def split: option.splits prod.splits)

lemma stopped_ok_reads: "stopped_ok t \<Longrightarrow> tg_read_memory ops addr len t \<noteq> None"
  by (auto simp: stopped_ok_def tg_read_memory_def split: prod.split)

section \<open>Whole sessions\<close>

text \<open>
  The targets a client can get to from a backend state, with the number of completed
  stops: attach, then any sequence of the public operations, successful or not.
\<close>

inductive session :: "'b backend_ops \<Rightarrow> 'b \<Rightarrow> nat \<Rightarrow> 'b target \<Rightarrow> bool" for ops b where
  attach: "tg_attach ops b = (Ok (), t) \<Longrightarrow> session ops b 1 t"
| cont_stop: "session ops b n t \<Longrightarrow> tg_cont ops t = (Ok s, t1) \<Longrightarrow> session ops b (Suc n) t1"
| cont_fail: "session ops b n t \<Longrightarrow> tg_cont ops t = (Err e, t1) \<Longrightarrow> session ops b n t1"
| step_stop: "session ops b n t \<Longrightarrow> tg_step ops t = (Ok s, t1) \<Longrightarrow> session ops b (Suc n) t1"
| step_fail: "session ops b n t \<Longrightarrow> tg_step ops t = (Err e, t1) \<Longrightarrow> session ops b n t1"
| read: "session ops b n t \<Longrightarrow> tg_read_memory ops addr len t = Some (r, t1) \<Longrightarrow> session ops b n t1"
| changed: "session ops b n t \<Longrightarrow> tg_memory_changed ops fuel addr len t = Some (c, t1) \<Longrightarrow> session ops b n t1"
| maps: "session ops b n t \<Longrightarrow> tg_maps ops t = (m, t1) \<Longrightarrow> session ops b n t1"
| modules: "session ops b n t \<Longrightarrow> tg_modules ops t = (ms, t1) \<Longrightarrow> session ops b n t1"
| threads: "session ops b n t \<Longrightarrow> tg_threads ops t = (ts, t1) \<Longrightarrow> session ops b n t1"

lemma run_and_refresh_stop:
  "run_and_refresh ops run t = (Ok s, t1) \<Longrightarrow> stopped_ok t \<Longrightarrow> stopped_ok t1 \<and> tg_epoch t1 = tg_epoch t + 1"
  using run_and_refresh_ok [of t ops run]
  by (cases rule: run_and_refresh_cases [of ops run t]) auto

lemma run_and_refresh_fail:
  "run_and_refresh ops run t = (Err e, t1) \<Longrightarrow> t1 = t\<lparr>tg_backend := tg_backend t1\<rparr>"
  by (cases rule: run_and_refresh_cases [of ops run t]) auto

lemma stopped_ok_backend: "stopped_ok (t\<lparr>tg_backend := b\<rparr>) = stopped_ok t"
  by (simp add: stopped_ok_def)

lemma stopped_ok_same:
  "t1 = t\<lparr>tg_backend := b\<rparr> \<Longrightarrow> stopped_ok t \<Longrightarrow> stopped_ok t1 \<and> tg_epoch t1 = tg_epoch t"
  by (simp add: stopped_ok_def)

lemma changed_loop_grown:
  "om_ok (mc_cur c) \<Longrightarrow> changed_loop ops last_page fuel p c b = Some (r, c1, b1) \<Longrightarrow> grown c c1"
proof (induction fuel arbitrary: p c b)
  case (Suc fuel)
  obtain x c2 b2 where p: "read_page ops p c b = (x, c2, b2)" by (metis prod_cases3)
  note g = read_page_grows(1-4) [OF Suc.prems(1) p]
  show ?case
  proof (cases "c1 = c2 \<or> c1 = c")
    case True
    then show ?thesis using g Suc.prems(1) by auto
  next
    case False
    then have "changed_loop ops last_page fuel (p + kPageSize) c2 b2 = Some (r, c1, b1)"
      using Suc.prems(2) p by (auto split: if_splits result.splits option.splits)
    with Suc.IH [OF g(1)] g show ?thesis by (auto intro: map_le_trans)
  qed
qed simp

lemma on_backend_eq: "on_backend f t = (r, t1) \<Longrightarrow> t1 = t\<lparr>tg_backend := tg_backend t1\<rparr>"
  by (auto simp: on_backend_def Let_def split: prod.splits)

lemma tg_memory_changed_ok:
  "stopped_ok t \<Longrightarrow> tg_memory_changed ops fuel addr len t = Some (r, t1) \<Longrightarrow>
   stopped_ok t1 \<and> tg_epoch t1 = tg_epoch t"
  using changed_loop_grown [of "tg_cache t" ops "page_of (addr + len - 1)" fuel "page_of addr" "tg_backend t"]
  by (auto simp: tg_memory_changed_def stopped_ok_def changed_since_last_epoch_def split: if_splits)

lemma session_ok: "session ops b n t \<Longrightarrow> stopped_ok t \<and> tg_epoch t = word_of_nat n"
proof (induction rule: session.induct)
  case (attach t)
  then show ?case using tg_attach_ok [of ops b t] by simp
next
  case (cont_stop n t s t1)
  then show ?case using run_and_refresh_stop [of ops "be_cont ops" t s t1] by (simp add: tg_cont_def add.commute)
next
  case (step_stop n t s t1)
  then show ?case using run_and_refresh_stop [of ops "be_step ops" t s t1] by (simp add: tg_step_def add.commute)
next
  case (cont_fail n t e t1)
  then show ?case
    using stopped_ok_same [OF run_and_refresh_fail [of ops "be_cont ops" t e t1]] by (simp add: tg_cont_def)
next
  case (step_fail n t e t1)
  then show ?case
    using stopped_ok_same [OF run_and_refresh_fail [of ops "be_step ops" t e t1]] by (simp add: tg_step_def)
next
  case (read n t addr len r t1)
  then show ?case using tg_read_memory_ok by metis
next
  case (changed n t fuel addr len c t1)
  then show ?case using tg_memory_changed_ok by metis
qed (auto simp: tg_maps_def tg_modules_def tg_threads_def on_backend_def Let_def stopped_ok_backend
    split: prod.splits)

section \<open>Properties\<close>

text \<open>C13: In every session, whatever the order of the operations and whichever of them fail, the
  epoch of the target, of its state and of its cache all equal the number of completed stops
  (modulo the width), and a state is always there to read registers and memory from.\<close>

theorem session_epoch_counts_stops:
  assumes "session ops b n t"
  shows "tg_epoch t = word_of_nat n \<and> mc_epoch (tg_cache t) = word_of_nat n \<and>
    (\<exists>s. tg_state t = Some s \<and> gs_epoch s = word_of_nat n) \<and>
    tg_registers t \<noteq> None \<and> tg_read_memory ops addr len t \<noteq> None"
  using session_ok [OF assms] stopped_ok_reads [of t ops addr len]
  by (auto simp: stopped_ok_def tg_registers_def)

theorem session_epoch_counts_stops_witness:
  "\<forall>ops :: unit backend_ops.
     \<exists>t. tg_step (ops\<lparr>be_read_registers := \<lambda>b. (Ok [1], b), be_step := \<lambda>b. (Ok stop_reply_init, b)\<rparr>)
           (snd (tg_attach (ops\<lparr>be_read_registers := \<lambda>b. (Ok [1], b), be_step := \<lambda>b. (Ok stop_reply_init, b)\<rparr>) ())) =
         (Ok (to_proto_stop_reply stop_reply_init), t) \<and> tg_epoch t = 2 \<and> tg_registers t \<noteq> None"
proof
  fix ops :: "unit backend_ops"
  let ?ops = "ops\<lparr>be_read_registers := \<lambda>b. (Ok [1], b), be_step := \<lambda>b. (Ok stop_reply_init, b)\<rparr>"
  obtain regs where regs: "rs_decode [1] = Ok regs" using rs_decode_never_fails by blast
  obtain t where a: "tg_attach ?ops () = (Ok (), t)"
    by (simp add: tg_attach_def refresh_state_def regs Let_def)
  obtain t1 where s: "tg_step ?ops t = (Ok (to_proto_stop_reply stop_reply_init), t1)"
    by (simp add: tg_step_def run_and_refresh_def refresh_state_def regs Let_def)
  have "session ?ops () (Suc 1) t1"
    by (rule session.step_stop [OF session.attach [OF a] s])
  from session_epoch_counts_stops [OF this] a s
  show "\<exists>t. tg_step ?ops (snd (tg_attach ?ops ())) = (Ok (to_proto_stop_reply stop_reply_init), t) \<and>
      tg_epoch t = 2 \<and> tg_registers t \<noteq> None"
    by auto
qed

text \<open>C14: A step or a continuation is all or nothing above the backend.  When it succeeds the
  registers are those the backend reports after the stop, the cache holds no page of the new
  epoch and keeps the pages of the one before for comparison; when it fails, epoch, state and
  cache are what they were.\<close>

theorem stop_is_atomic:
  assumes "tg_cont ops t = (r, t1) \<or> tg_step ops t = (r, t1)"
  shows "case r of
      Ok s \<Rightarrow> tg_epoch t1 = tg_epoch t + 1 \<and> mc_cur (tg_cache t1) = [] \<and>
        mc_prev (tg_cache t1) = mc_cur (tg_cache t) \<and>
        (\<exists>run stop b1 raw. run \<in> {be_cont ops, be_step ops} \<and> run (tg_backend t) = (Ok stop, b1) \<and>
          s = to_proto_stop_reply stop \<and> be_read_registers ops b1 = (Ok raw, tg_backend t1) \<and>
          rs_decode raw = Ok (the (tg_registers t1)))
    | Err e \<Rightarrow> tg_epoch t1 = tg_epoch t \<and> tg_state t1 = tg_state t \<and> tg_cache t1 = tg_cache t"
proof -
  obtain run where run: "run \<in> {be_cont ops, be_step ops}" "run_and_refresh ops run t = (r, t1)"
    using assms unfolding tg_cont_def tg_step_def by blast
  show ?thesis
  proof (cases rule: run_and_refresh_cases [of ops run t])
    case (failed e b1)
    with run show ?thesis by auto
  next
    case (stopped stop raw regs b1 b2)
    from run(2) stopped(4) have r: "r = Ok (to_proto_stop_reply stop)"
      and t1: "tg_epoch t1 = tg_epoch t + 1" "tg_cache t1 = set_epoch (tg_epoch t + 1) (tg_cache t)"
        "tg_registers t1 = Some regs" "tg_backend t1 = b2"
      by (auto simp: tg_registers_def)
    have "be_read_registers ops b1 = (Ok raw, tg_backend t1) \<and> rs_decode raw = Ok (the (tg_registers t1))"
      using stopped(2,3) t1(3,4) by simp
    with run(1) stopped(1) show ?thesis unfolding r t1(1,2) by auto
  qed
qed

theorem stop_is_atomic_witness:
  "\<forall>ops :: unit backend_ops.
     tg_epoch (snd (tg_cont (ops\<lparr>be_cont := \<lambda>b. (Err ''gone'', b)\<rparr>) (target_init ()))) = 0"
proof
  fix ops :: "unit backend_ops"
  let ?r = "tg_cont (ops\<lparr>be_cont := \<lambda>b. (Err ''gone'', b)\<rparr>) (target_init ())"
  have e: "fst ?r = Err ''gone''"
    by (simp add: tg_cont_def run_and_refresh_def target_init_def)
  have "?r = (fst ?r, snd ?r)" by simp
  from stop_is_atomic [OF disjI1, OF this] e show "tg_epoch (snd ?r) = 0"
    by (simp add: target_init_def)
qed

text \<open>C20: Seen through a target on the gdb backend, a stop reply keeps its code, signals stay signals
  and exits stay exits, but a process killed by a signal (an \<open>X\<close> reply) is reported as unknown.\<close>

theorem wire_stop_through_target:
  "let s = to_proto_stop_reply (translate_stop (parse_stop_reply (t # fmt_02x b @ rest))) in
   (t = CHR ''S'' \<or> t = CHR ''T'' \<longrightarrow> ws_kind s = WSignal \<and> ws_code s = int (unat b)) \<and>
   (t = CHR ''W'' \<longrightarrow> ws_kind s = WExited \<and> ws_code s = int (unat b)) \<and>
   (t = CHR ''X'' \<longrightarrow> ws_kind s = WUnknown \<and> ws_code s = int (unat b))"
proof -
  have code: "parse_hex_byte (fmt_02x b @ rest) = int (unat b)" by (rule parse_hex_byte_digits)
  have sig: "scan_info i \<noteq> Exited" "scan_info i \<noteq> Error" "scan_info i \<noteq> Unknown" "scan_info i \<noteq> SingleStep" for i
    using scan_info_range [of i] by auto
  show ?thesis
    by (auto simp: parse_stop_reply_def code Let_def wire_stop_init_def to_proto_stop_reply_def
        translate_stop_kind translate_stop_fields sig split: stop_kind.split)
qed

theorem wire_stop_through_target_witness:
  "ws_kind (to_proto_stop_reply (translate_stop (parse_stop_reply ''X0b''))) = WUnknown"
  using wire_stop_through_target [of "CHR ''X''" "0x0b" "[]"]
  by (simp add: fmt_02x_def hex_digit_def Let_def)

end
