(* ===== verification/Core_Session.thy ===== *)
theory Core_Session
  imports Session_Rows Target
begin

text \<open>
  irida-api/src/capi_target.cpp: the session on a live target.  Every call goes to the
  \<open>Target\<close>, whose backend is the parameter \<open>ops\<close>; LIEF, Zydis and the order of
  \<open>std::unordered_map\<close> are parameters as in a static session.

  The file of the main module is parsed at most once.  A target that was attached always has
  a state (\<open>Target.session_epoch_counts_stops\<close>); where the sources would follow a null
  state pointer, the model answers as for a failed read or an unknown register.
\<close>

record 'b core_ctx =
  cc_target :: "'b target"
  cc_main_bin :: binary_info
  cc_parsed :: bool
  cc_symbol_map :: symbol_map
  cc_analysis :: analysis_result
  cc_bp_rows :: "api_breakpoint list"

definition binary_info_init :: binary_info where
  "binary_info_init =
     \<lparr>bi_path = [], bi_format = [], bi_entry_point = 0, bi_image_base = 0, bi_is_64bit = False,
      bi_sections = [], bi_imports = [], bi_exports = [], bi_symbols = []\<rparr>"

definition core_ctx_init :: "'b target \<Rightarrow> 'b core_ctx" where
  "core_ctx_init t =
     \<lparr>cc_target = t, cc_main_bin = binary_info_init, cc_parsed = False, cc_symbol_map = [],
      cc_analysis = \<lparr>ar_functions = [], ar_xrefs = []\<rparr>, cc_bp_rows = []\<rparr>"

definition kMaxBacktraceFrames :: nat where "kMaxBacktraceFrames = 64"
definition kStringsScanCap :: u64 where "kStringsScanCap = 1024 * 1024"

section \<open>Names\<close>

definition build_symbol_map :: "binary_info \<Rightarrow> u64 \<Rightarrow> u64 \<Rightarrow> symbol_map" where
  "build_symbol_map bin module_base file_base =
     (let rebase = (\<lambda>a. module_base + (a - file_base)) in
      assign_all (map (\<lambda>i. (rebase (imp_iat_addr i), ''sym.imp.'' @ imp_name i)) (bi_imports bin))
        (assign_all (map (\<lambda>e. (rebase (exp_addr e), ''sym.'' @ exp_name e)) (bi_exports bin))
          (assign_all (map (\<lambda>y. (rebase (sym_addr y), sym_name y)) (bi_symbols bin)) [])))"

text \<open>Whether the parsed image has anything in it: what a later call answers.\<close>

definition image_known :: "binary_info \<Rightarrow> bool" where
  "image_known bin \<longleftrightarrow>
     length (bi_sections bin) + length (bi_imports bin) + length (bi_exports bin) + length (bi_symbols bin) > 0"

definition ensure_binary_parsed :: "'b backend_ops \<Rightarrow> lief \<Rightarrow> 'b core_ctx \<Rightarrow> bool \<times> 'b core_ctx" where
  "ensure_binary_parsed ops parse c =
     (if cc_parsed c then (image_known (cc_main_bin c), c)
      else
        case tg_modules ops (cc_target c) of
          (modules, t1) \<Rightarrow>
            let c1 = c\<lparr>cc_parsed := True, cc_target := t1\<rparr> in
            (case modules of
               Err e \<Rightarrow> (False, c1)
             | Ok ms \<Rightarrow>
                 (case ms of
                    [] \<Rightarrow> (False, c1)
                  | m # rest \<Rightarrow>
                      (case parse_file parse (mod_name m) of
                         Err e \<Rightarrow> (False, c1)
                       | Ok bin \<Rightarrow>
                           (True, c1\<lparr>cc_main_bin := bin,
                              cc_symbol_map := build_symbol_map bin (mod_base m) (bi_image_base bin)\<rparr>)))))"

definition core_resolve_symbol ::
    "'b backend_ops \<Rightarrow> lief \<Rightarrow> u64 \<Rightarrow> 'b core_ctx \<Rightarrow> string option \<times> 'b core_ctx" where
  "core_resolve_symbol ops parse addr c =
     (case ensure_binary_parsed ops parse c of
        (known, c1) \<Rightarrow> (if \<not> known then None else map_of (cc_symbol_map c1) addr, c1))"

section \<open>Reads\<close>

definition live_read :: "'b backend_ops \<Rightarrow> u64 \<Rightarrow> u64 \<Rightarrow> 'b core_ctx \<Rightarrow> bytes result \<times> 'b core_ctx" where
  "live_read ops addr len c =
     (case tg_read_memory ops addr len (cc_target c) of
        None \<Rightarrow> (Err [], c)
      | Some (r, t1) \<Rightarrow> (r, c\<lparr>cc_target := t1\<rparr>))"

definition live_register :: "'b core_ctx \<Rightarrow> string \<Rightarrow> u64" where
  "live_register c name =
     (case tg_registers (cc_target c) of
        None \<Rightarrow> 0
      | Some regs \<Rightarrow> (case rs_get regs name of None \<Rightarrow> 0 | Some v \<Rightarrow> v))"

section \<open>Analysis\<close>

definition core_reader :: "'b backend_ops \<Rightarrow> 'b core_ctx byte_reader" where
  "core_reader ops addr n c =
     (case live_read ops addr (word_of_nat n) c of
        (Err e, c1) \<Rightarrow> ([], c1)
      | (Ok v, c1) \<Rightarrow> (take (if length v < n then length v else n) v, c1))"

text \<open>The names the analyzer is given: the file has been parsed by then, so looking up has no effect.\<close>

definition parsed_name :: "'b core_ctx \<Rightarrow> u64 \<Rightarrow> string option" where
  "parsed_name c addr = (if \<not> image_known (cc_main_bin c) then None else map_of (cc_symbol_map c) addr)"

definition core_entries ::
    "'b backend_ops \<Rightarrow> lief \<Rightarrow> (u64 list \<Rightarrow> u64 list) \<Rightarrow> 'b core_ctx \<Rightarrow> u64 list \<times> 'b core_ctx" where
  "core_entries ops parse order c =
     (case ensure_binary_parsed ops parse c of
        (known, c1) \<Rightarrow>
          ([live_register c ''rip''] @ (if known then order (map fst (cc_symbol_map c1)) else []), c1))"

definition run_analysis ::
    "'b backend_ops \<Rightarrow> lief \<Rightarrow> zydis \<Rightarrow> (u64 list \<Rightarrow> u64 list) \<Rightarrow> nat \<Rightarrow> 'b core_ctx \<Rightarrow> 'b core_ctx option" where
  "run_analysis ops parse Z order fuel c =
     (case core_entries ops parse order c of
        (entries, c1) \<Rightarrow>
          (case analyze (decode_one Z) (core_reader ops) fuel (Some (parsed_name c1)) entries c1 of
             None \<Rightarrow> None
           | Some (r, c2) \<Rightarrow> Some (c2\<lparr>cc_analysis := r\<rparr>)))"

section \<open>The entry points\<close>

definition core_registers :: "'b core_ctx \<Rightarrow> api_register list \<times> 'b core_ctx" where
  "core_registers c =
     (case tg_registers (cc_target c) of
        None \<Rightarrow> []
      | Some regs \<Rightarrow> map (\<lambda>(n, v). \<lparr>ar_name = n, ar_value = v, ar_hint = None\<rparr>) regs, c)"

text \<open>A query of the target whose failure is an empty answer.\<close>

definition target_rows ::
    "('b target \<Rightarrow> 'r list result \<times> 'b target) \<Rightarrow> ('r \<Rightarrow> 's) \<Rightarrow> 'b core_ctx \<Rightarrow> 's list \<times> 'b core_ctx" where
  "target_rows f row c =
     (case f (cc_target c) of
        (Err e, t1) \<Rightarrow> ([], c\<lparr>cc_target := t1\<rparr>)
      | (Ok rs, t1) \<Rightarrow> (map row rs, c\<lparr>cc_target := t1\<rparr>))"

definition core_modules :: "'b backend_ops \<Rightarrow> 'b core_ctx \<Rightarrow> api_module list \<times> 'b core_ctx" where
  "core_modules ops c =
     target_rows (tg_modules ops) (\<lambda>m. \<lparr>am_name = mod_name m, am_base = mod_base m, am_size = mod_size m\<rparr>) c"

definition core_maps :: "'b backend_ops \<Rightarrow> 'b core_ctx \<Rightarrow> api_map list \<times> 'b core_ctx" where
  "core_maps ops c =
     target_rows (tg_maps ops) (\<lambda>m. \<lparr>amm_start = mm_start m, amm_end = mm_end m, amm_perms = mm_perms m,
       amm_name = mm_name m\<rparr>) c"

definition core_threads :: "'b backend_ops \<Rightarrow> 'b core_ctx \<Rightarrow> api_thread list \<times> 'b core_ctx" where
  "core_threads ops c =
     target_rows (tg_threads ops) (\<lambda>t. \<lparr>at_tid = ti_tid t, at_pc = ti_pc t,
       at_current = (if ti_current t then 1 else 0)\<rparr>) c"

fun core_insn_rows ::
    "'b backend_ops \<Rightarrow> lief \<Rightarrow> bytes \<Rightarrow> u64 \<Rightarrow> instruction list \<Rightarrow> 'b core_ctx \<Rightarrow> insn_row list \<times> 'b core_ctx" where
  "core_insn_rows ops parse bs addr [] c = ([], c)"
| "core_insn_rows ops parse bs addr (insn # insns) c =
     (case (case operand_target insn of None \<Rightarrow> (None, c) | Some t \<Rightarrow> core_resolve_symbol ops parse t c) of
        (annot, c1) \<Rightarrow>
          (case core_insn_rows ops parse bs addr insns c1 of
             (rows, c2) \<Rightarrow> (insn_row_of bs addr annot insn # rows, c2)))"

definition core_disasm ::
    "'b backend_ops \<Rightarrow> lief \<Rightarrow> zydis \<Rightarrow> u64 \<Rightarrow> u64 \<Rightarrow> 'b core_ctx \<Rightarrow> insn_row list \<times> 'b core_ctx" where
  "core_disasm ops parse Z addr n c =
     (if n = 0 then ([], c)
      else
        case live_read ops addr (n * kMaxInsnBytes) c of
          (Err e, c1) \<Rightarrow> ([], c1)
        | (Ok bs, c1) \<Rightarrow> core_insn_rows ops parse bs addr (decode_linear Z bs addr (unat n)) c1)"

text \<open>The loop of the frame walk; the number counts the turns that are left.\<close>

fun backtrace_loop ::
    "'b backend_ops \<Rightarrow> nat \<Rightarrow> u64 \<Rightarrow> 'b core_ctx \<Rightarrow> api_frame list \<times> 'b core_ctx" where
  "backtrace_loop ops 0 fp c = ([], c)"
| "backtrace_loop ops (Suc left) fp c =
     (case live_read ops fp 16 c of
        (Err e, c1) \<Rightarrow> ([], c1)
      | (Ok bs, c1) \<Rightarrow>
          if length bs < 16 then ([], c1)
          else
            let saved_rbp = u64_of_bytes (take 8 bs);
                ret_addr = u64_of_bytes (take 8 (drop 8 bs))
            in if saved_rbp \<le> fp \<or> ret_addr = 0 then ([], c1)
               else
                 case backtrace_loop ops left saved_rbp c1 of
                   (frames, c2) \<Rightarrow> (\<lparr>af_pc = ret_addr, af_frame_ptr = saved_rbp\<rparr> # frames, c2))"

definition core_backtrace :: "'b backend_ops \<Rightarrow> 'b core_ctx \<Rightarrow> api_frame list \<times> 'b core_ctx" where
  "core_backtrace ops c =
     (let pc = live_register c ''rip''; fp = live_register c ''rbp'' in
      case backtrace_loop ops kMaxBacktraceFrames fp c of
        (frames, c1) \<Rightarrow> (\<lparr>af_pc = pc, af_frame_ptr = fp\<rparr> # frames, c1))"

definition core_run_state :: "'b core_ctx \<Rightarrow> run_state \<times> 'b core_ctx" where
  "core_run_state c = (STOPPED, c)"

definition core_pc :: "'b core_ctx \<Rightarrow> u64 \<times> 'b core_ctx" where
  "core_pc c = (live_register c ''rip'', c)"

definition core_state_epoch :: "'b core_ctx \<Rightarrow> u64 \<times> 'b core_ctx" where
  "core_state_epoch c = (tg_epoch (cc_target c), c)"

definition core_step_into :: "'b backend_ops \<Rightarrow> 'b core_ctx \<Rightarrow> 'b core_ctx" where
  "core_step_into ops c = c\<lparr>cc_target := snd (tg_step ops (cc_target c))\<rparr>"

definition core_step_over :: "'b backend_ops \<Rightarrow> 'b core_ctx \<Rightarrow> 'b core_ctx" where
  "core_step_over ops c = c\<lparr>cc_target := snd (tg_step ops (cc_target c))\<rparr>"

definition core_step_out :: "'b backend_ops \<Rightarrow> 'b core_ctx \<Rightarrow> 'b core_ctx" where
  "core_step_out ops c = c\<lparr>cc_target := snd (tg_step ops (cc_target c))\<rparr>"

definition core_cont :: "'b backend_ops \<Rightarrow> 'b core_ctx \<Rightarrow> 'b core_ctx" where
  "core_cont ops c = c\<lparr>cc_target := snd (tg_cont ops (cc_target c))\<rparr>"

definition core_brk :: "'b core_ctx \<Rightarrow> 'b core_ctx" where "core_brk c = c"
definition core_restart :: "'b core_ctx \<Rightarrow> 'b core_ctx" where "core_restart c = c"
definition core_stop :: "'b core_ctx \<Rightarrow> 'b core_ctx" where "core_stop c = c"

definition core_read_memory :: "'b backend_ops \<Rightarrow> u64 \<Rightarrow> u64 \<Rightarrow> 'b core_ctx \<Rightarrow> bytes \<times> 'b core_ctx" where
  "core_read_memory ops addr len c =
     (case live_read ops addr len c of
        (Err e, c1) \<Rightarrow> ([], c1)
      | (Ok bs, c1) \<Rightarrow> (take (if length bs < unat len then length bs else unat len) bs, c1))"

definition core_breakpoints :: "'b core_ctx \<Rightarrow> api_breakpoint list \<times> 'b core_ctx" where
  "core_breakpoints c = (cc_bp_rows c, c)"

definition core_bp_toggle :: "u64 \<Rightarrow> 'b core_ctx \<Rightarrow> 'b core_ctx" where "core_bp_toggle addr c = c"

definition core_bp_set_enabled :: "u64 \<Rightarrow> bool \<Rightarrow> 'b core_ctx \<Rightarrow> 'b core_ctx" where
  "core_bp_set_enabled addr enabled c = c"

text \<open>The tables of the main module's file, once it is parsed.\<close>

definition parsed_rows ::
    "'b backend_ops \<Rightarrow> lief \<Rightarrow> (binary_info \<Rightarrow> 'r list) \<Rightarrow> 'b core_ctx \<Rightarrow> 'r list \<times> 'b core_ctx" where
  "parsed_rows ops parse rows c =
     (case ensure_binary_parsed ops parse c of
        (known, c1) \<Rightarrow> (if \<not> known then [] else rows (cc_main_bin c1), c1))"

definition core_sections :: "'b backend_ops \<Rightarrow> lief \<Rightarrow> 'b core_ctx \<Rightarrow> api_section list \<times> 'b core_ctx" where
  "core_sections ops parse c = parsed_rows ops parse (\<lambda>b. map section_row (bi_sections b)) c"

definition core_imports :: "'b backend_ops \<Rightarrow> lief \<Rightarrow> 'b core_ctx \<Rightarrow> api_import list \<times> 'b core_ctx" where
  "core_imports ops parse c = parsed_rows ops parse (\<lambda>b. map import_row (bi_imports b)) c"

definition core_exports :: "'b backend_ops \<Rightarrow> lief \<Rightarrow> 'b core_ctx \<Rightarrow> api_export list \<times> 'b core_ctx" where
  "core_exports ops parse c = parsed_rows ops parse (\<lambda>b. map export_row (bi_exports b)) c"

definition core_symbols :: "'b backend_ops \<Rightarrow> lief \<Rightarrow> 'b core_ctx \<Rightarrow> api_symbol list \<times> 'b core_ctx" where
  "core_symbols ops parse c = parsed_rows ops parse (\<lambda>b. map symbol_row (bi_symbols b)) c"

definition core_strings :: "'b backend_ops \<Rightarrow> 'b core_ctx \<Rightarrow> api_string list \<times> 'b core_ctx" where
  "core_strings ops c =
     (case tg_modules ops (cc_target c) of
        (modules, t1) \<Rightarrow>
          let c1 = c\<lparr>cc_target := t1\<rparr> in
          (case modules of
             Err e \<Rightarrow> ([], c1)
           | Ok ms \<Rightarrow>
               (case ms of
                  [] \<Rightarrow> ([], c1)
                | m # rest \<Rightarrow>
                    let len = (if mod_size m < kStringsScanCap then mod_size m else kStringsScanCap) in
                    if len = 0 then ([], c1)
                    else
                      case live_read ops (mod_base m) len c1 of
                        (Err e, c2) \<Rightarrow> ([], c2)
                      | (Ok bs, c2) \<Rightarrow> (map string_row (scan_strings bs (mod_base m) 4), c2))))"

text \<open>As in a static session, a run out of fuel is left without effect.\<close>

definition core_analyze ::
    "'b backend_ops \<Rightarrow> lief \<Rightarrow> zydis \<Rightarrow> (u64 list \<Rightarrow> u64 list) \<Rightarrow> nat \<Rightarrow> 'b core_ctx \<Rightarrow> 'b core_ctx" where
  "core_analyze ops parse Z order fuel c =
     (case run_analysis ops parse Z order fuel c of None \<Rightarrow> c | Some c1 \<Rightarrow> c1)"

definition core_functions :: "'b core_ctx \<Rightarrow> api_function list \<times> 'b core_ctx" where
  "core_functions c = (map function_row (ar_functions (cc_analysis c)), c)"

definition core_function_blocks :: "u64 \<Rightarrow> 'b core_ctx \<Rightarrow> api_block list \<times> 'b core_ctx" where
  "core_function_blocks addr c = (function_blocks_rows addr (ar_functions (cc_analysis c)), c)"

definition core_xrefs_to :: "u64 \<Rightarrow> 'b core_ctx \<Rightarrow> api_xref list \<times> 'b core_ctx" where
  "core_xrefs_to addr c = (xrefs_to_rows addr (ar_xrefs (cc_analysis c)), c)"

definition kCoreVTable ::
    "'b backend_ops \<Rightarrow> lief \<Rightarrow> zydis \<Rightarrow> (u64 list \<Rightarrow> u64 list) \<Rightarrow> nat \<Rightarrow> 'b core_ctx vtable" where
  "kCoreVTable ops parse Z order fuel =
     \<lparr>vt_registers = Some core_registers, vt_modules = Some (core_modules ops), vt_maps = Some (core_maps ops),
      vt_threads = Some (core_threads ops), vt_disasm = Some (core_disasm ops parse Z),
      vt_run_state = Some core_run_state, vt_pc = Some core_pc, vt_state_epoch = Some core_state_epoch,
      vt_step_into = Some (core_step_into ops), vt_step_over = Some (core_step_over ops),
      vt_step_out = Some (core_step_out ops), vt_cont = Some (core_cont ops), vt_brk = Some core_brk,
      vt_restart = Some core_restart, vt_stop = Some core_stop,
      vt_read_memory = Some (core_read_memory ops), vt_breakpoints = Some core_breakpoints,
      vt_bp_toggle = Some core_bp_toggle, vt_bp_set_enabled = Some core_bp_set_enabled,
      vt_backtrace = Some (core_backtrace ops), vt_sections = Some (core_sections ops parse),
      vt_imports = Some (core_imports ops parse), vt_get_exports = Some (core_exports ops parse),
      vt_symbols = Some (core_symbols ops parse), vt_strings = Some (core_strings ops),
      vt_analyze = Some (core_analyze ops parse Z order fuel), vt_functions = Some core_functions,
      vt_function_blocks = Some core_function_blocks, vt_xrefs_to = Some core_xrefs_to\<rparr>"

text \<open>\<open>b0\<close> is the backend \<open>make_native_backend\<close> creates.\<close>

definition irida_session_create_native ::
    "'b backend_ops \<Rightarrow> 'b \<Rightarrow> lief \<Rightarrow> zydis \<Rightarrow> (u64 list \<Rightarrow> u64 list) \<Rightarrow> nat \<Rightarrow> u32 \<Rightarrow> 'b core_ctx handle" where
  "irida_session_create_native ops b0 parse Z order fuel pid =
     (let spec = \<lparr>as_method = NativeProcess, as_host = [], as_port = 0, as_pid = pid\<rparr> in
      case be_attach ops spec b0 of
        (Err e, b1) \<Rightarrow> None
      | (Ok _, b1) \<Rightarrow>
          (case tg_attach ops b1 of
             (Err e, t) \<Rightarrow> None
           | (Ok _, t) \<Rightarrow> irida_session_create (Some (kCoreVTable ops parse Z order fuel)) (core_ctx_init t)))"

definition irida_session_destroy_native :: "'b core_ctx handle \<Rightarrow> 'b core_ctx handle" where
  "irida_session_destroy_native s = (case s of None \<Rightarrow> s | Some _ \<Rightarrow> irida_session_destroy s)"

section \<open>What queries leave alone\<close>

text \<open>Queries act on the backend and the cache of the target only: stop and epoch stay.\<close>

definition same_stop :: "'b core_ctx \<Rightarrow> 'b core_ctx \<Rightarrow> bool" where
  "same_stop c c1 \<longleftrightarrow> tg_state (cc_target c1) = tg_state (cc_target c) \<and> tg_epoch (cc_target c1) = tg_epoch (cc_target c)"

lemma same_stop_refl [simp]: "same_stop c c"
  by (simp add: same_stop_def)

lemma same_stop_trans: "same_stop a b \<Longrightarrow> same_stop b c \<Longrightarrow> same_stop a c"
  by (simp add: same_stop_def)

lemma on_backend_stop: "on_backend f t = (r, t1) \<Longrightarrow> tg_state t1 = tg_state t \<and> tg_epoch t1 = tg_epoch t"
  by (auto simp: on_backend_def Let_def split: prod.splits)

lemma target_rows_stop: "same_stop c (snd (target_rows (on_backend f) row c))"
  by (auto simp: target_rows_def same_stop_def split: prod.splits result.splits dest: on_backend_stop)

lemma ensure_stop: "same_stop c (snd (ensure_binary_parsed ops parse c))"
proof (cases "cc_parsed c")
  case False
  obtain ms t1 where m: "tg_modules ops (cc_target c) = (ms, t1)" by fastforce
  then have "tg_state t1 = tg_state (cc_target c) \<and> tg_epoch t1 = tg_epoch (cc_target c)"
    unfolding tg_modules_def by (rule on_backend_stop)
  with False m show ?thesis
    by (simp add: ensure_binary_parsed_def same_stop_def Let_def split: result.split list.split)
qed (simp add: ensure_binary_parsed_def)

lemma live_read_stop: "same_stop c (snd (live_read ops addr len c))"
  by (auto simp: live_read_def same_stop_def tg_read_memory_def split: option.splits prod.splits)

lemma resolve_stop: "same_stop c (snd (core_resolve_symbol ops parse a c))"
  using ensure_stop [of c ops parse] by (auto simp: core_resolve_symbol_def split: prod.splits)

lemma stop_of_pair: "same_stop c (snd p) \<Longrightarrow> p = (r, c1) \<Longrightarrow> same_stop c c1"
  by simp

lemma insn_rows_stop: "same_stop c (snd (core_insn_rows ops parse bs addr insns c))"
proof (induction insns arbitrary: c)
  case (Cons insn insns)
  obtain annot c1 where a: "(case operand_target insn of None \<Rightarrow> (None, c)
      | Some t \<Rightarrow> core_resolve_symbol ops parse t c) = (annot, c1)" by fastforce
  then have "same_stop c c1"
    using stop_of_pair [OF resolve_stop [of c ops parse]] by (cases "operand_target insn") auto
  then show ?case using Cons [of c1] a by (auto split: prod.splits intro: same_stop_trans)
qed simp

lemma backtrace_stop: "same_stop c (snd (backtrace_loop ops n fp c))"
proof (induction n arbitrary: fp c)
  case (Suc n)
  obtain r c1 where r: "live_read ops fp 16 c = (r, c1)" by fastforce
  note s = stop_of_pair [OF live_read_stop r]
  have "same_stop c (snd (backtrace_loop ops n x c1))" for x
    by (rule same_stop_trans [OF s Suc])
  with r s show ?case by (simp add: Let_def case_prod_beta split: result.split)
qed simp

lemma core_reader_stop: "keeps (same_stop c) (core_reader ops)"
  unfolding keeps_def
proof (intro allI impI)
  fix pc n io
  assume s: "same_stop c io"
  obtain r c1 where r: "live_read ops pc (word_of_nat n) io = (r, c1)" by fastforce
  with same_stop_trans [OF s stop_of_pair [OF live_read_stop r]]
  show "same_stop c (snd (core_reader ops pc n io))" by (simp add: core_reader_def split: result.split)
qed

lemma analyze_stop: "same_stop c (core_analyze ops parse Z order fuel c)"
proof (cases "run_analysis ops parse Z order fuel c")
  case (Some c3)
  obtain entries c1 where e: "core_entries ops parse order c = (entries, c1)" by fastforce
  then have s: "same_stop c c1"
    using ensure_stop [of c ops parse] by (auto simp: core_entries_def split: prod.splits)
  from Some e obtain r c2 where "analyze (decode_one Z) (core_reader ops) fuel (Some (parsed_name c1)) entries c1
      = Some (r, c2)" "c3 = c2\<lparr>cc_analysis := r\<rparr>"
    by (auto simp: run_analysis_def split: option.splits)
  with analyze_io [OF core_reader_stop this(1) s] Some show ?thesis
    by (simp add: core_analyze_def same_stop_def)
qed (simp add: core_analyze_def)

lemmas core_query_defs =
  core_registers_def core_modules_def core_maps_def core_threads_def core_run_state_def core_pc_def
  core_state_epoch_def core_breakpoints_def core_functions_def core_function_blocks_def core_xrefs_to_def

lemma core_disasm_stop: "same_stop c (snd (core_disasm ops parse Z addr n c))"
proof -
  obtain r c1 where r: "live_read ops addr (n * kMaxInsnBytes) c = (r, c1)" by fastforce
  show ?thesis
    using r same_stop_trans [OF stop_of_pair [OF live_read_stop r] insn_rows_stop] stop_of_pair [OF live_read_stop r]
    by (simp add: core_disasm_def split: result.split)
qed

lemma core_read_memory_stop: "same_stop c (snd (core_read_memory ops addr n c))"
  using live_read_stop [of c ops addr n]
  by (auto simp: core_read_memory_def split: prod.splits result.splits)

lemma core_backtrace_stop: "same_stop c (snd (core_backtrace ops c))"
  using backtrace_stop [of c ops] by (auto simp: core_backtrace_def Let_def split: prod.splits) (metis snd_conv)

lemma parsed_rows_stop: "same_stop c (snd (parsed_rows ops parse rows c))"
  using ensure_stop [of c ops parse] by (auto simp: parsed_rows_def split: prod.splits)

lemma core_strings_stop: "same_stop c (snd (core_strings ops c))"
proof -
  obtain ms t1 where m: "tg_modules ops (cc_target c) = (ms, t1)" by fastforce
  then have "tg_state t1 = tg_state (cc_target c) \<and> tg_epoch t1 = tg_epoch (cc_target c)"
    unfolding tg_modules_def by (rule on_backend_stop)
  then have s: "same_stop c (c\<lparr>cc_target := t1\<rparr>)" by (simp add: same_stop_def)
  have "same_stop c (snd (live_read ops a n (c\<lparr>cc_target := t1\<rparr>)))" for a n
    by (rule same_stop_trans [OF s live_read_stop])
  then show ?thesis using m s
    by (simp add: core_strings_def Let_def case_prod_beta split: result.split list.split)
qed

lemma shown_same:
  "same_stop c c1 \<Longrightarrow>
   shown (session_on (kCoreVTable ops parse Z order fuel) c1) = shown (session_on (kCoreVTable ops parse Z order fuel) c) \<and>
   epoch_of (session_on (kCoreVTable ops parse Z order fuel) c1) = epoch_of (session_on (kCoreVTable ops parse Z order fuel) c)"
  by (simp add: api_defs kCoreVTable_def core_query_defs same_stop_def live_register_def tg_registers_def)

definition core_query :: "'b backend_ops \<Rightarrow> lief \<Rightarrow> zydis \<Rightarrow> api_query \<Rightarrow> 'b core_ctx \<Rightarrow> 'b core_ctx" where
  "core_query ops parse Z q c =
     (case q of
        QModules \<Rightarrow> snd (core_modules ops c) | QMaps \<Rightarrow> snd (core_maps ops c)
      | QThreads \<Rightarrow> snd (core_threads ops c) | QDisasm a n \<Rightarrow> snd (core_disasm ops parse Z a n c)
      | QReadMemory a n \<Rightarrow> snd (core_read_memory ops a n c) | QBacktrace \<Rightarrow> snd (core_backtrace ops c)
      | QSections \<Rightarrow> snd (core_sections ops parse c) | QImports \<Rightarrow> snd (core_imports ops parse c)
      | QExports \<Rightarrow> snd (core_exports ops parse c) | QSymbols \<Rightarrow> snd (core_symbols ops parse c)
      | QStrings \<Rightarrow> snd (core_strings ops c) | _ \<Rightarrow> c)"

lemma do_query_core:
  "do_query q (session_on (kCoreVTable ops parse Z order fuel) c) =
   session_on (kCoreVTable ops parse Z order fuel) (core_query ops parse Z q c)"
  by (cases q) (simp_all add: api_defs kCoreVTable_def core_query_def core_registers_def core_run_state_def
      core_pc_def core_state_epoch_def core_breakpoints_def core_functions_def core_function_blocks_def
      core_xrefs_to_def case_prod_beta)

lemma target_queries:
  "tg_modules ops = on_backend (be_modules ops)" "tg_maps ops = on_backend (be_maps ops)"
  "tg_threads ops = on_backend (be_threads ops)"
  by (simp_all add: fun_eq_iff tg_modules_def tg_maps_def tg_threads_def)

lemma core_query_stop: "same_stop c (core_query ops parse Z q c)"
  by (cases q) (simp_all add: core_query_def core_modules_def core_maps_def core_threads_def target_queries
      target_rows_stop core_disasm_stop core_read_memory_stop core_backtrace_stop
      core_sections_def core_imports_def core_exports_def core_symbols_def parsed_rows_stop core_strings_stop)

text \<open>A context with a state, as every attached one has.\<close>

definition live_ok :: "'b core_ctx \<Rightarrow> bool" where
  "live_ok c \<longleftrightarrow> tg_state (cc_target c) \<noteq> None"

lemma live_ok_same: "same_stop c c1 \<Longrightarrow> live_ok c \<Longrightarrow> live_ok c1"
  by (simp add: same_stop_def live_ok_def)

lemma run_and_refresh_moves:
  assumes "t1 = snd (run_and_refresh ops run t)"
  shows "(tg_state t1 = tg_state t \<and> tg_epoch t1 = tg_epoch t) \<or> tg_epoch t1 = tg_epoch t + 1 \<and> tg_state t1 \<noteq> None"
  using assms by (cases rule: run_and_refresh_cases [of ops run t]) simp_all

definition core_command ::
    "'b backend_ops \<Rightarrow> lief \<Rightarrow> zydis \<Rightarrow> (u64 list \<Rightarrow> u64 list) \<Rightarrow> nat \<Rightarrow> api_command \<Rightarrow> 'b core_ctx \<Rightarrow> 'b core_ctx" where
  "core_command ops parse Z order fuel a c =
     (case a of
        CStepInto \<Rightarrow> core_step_into ops c | CStepOver \<Rightarrow> core_step_over ops c | CStepOut \<Rightarrow> core_step_out ops c
      | CContinue \<Rightarrow> core_cont ops c | CAnalyze \<Rightarrow> core_analyze ops parse Z order fuel c | _ \<Rightarrow> c)"

lemma do_command_core:
  "do_command a (session_on (kCoreVTable ops parse Z order fuel) c) =
   session_on (kCoreVTable ops parse Z order fuel) (core_command ops parse Z order fuel a c)"
  by (cases a) (simp_all add: api_defs kCoreVTable_def core_command_def core_brk_def core_restart_def core_stop_def
      core_bp_toggle_def core_bp_set_enabled_def)

lemma core_command_moves:
  "same_stop c (core_command ops parse Z order fuel a c) \<or>
   tg_epoch (cc_target (core_command ops parse Z order fuel a c)) = tg_epoch (cc_target c) + 1 \<and>
   live_ok (core_command ops parse Z order fuel a c)"
  using run_and_refresh_moves [OF refl, of ops _ "cc_target c"]
  by (cases a) (auto simp: core_command_def core_step_into_def core_step_over_def core_step_out_def core_cont_def
      tg_step_def tg_cont_def same_stop_def live_ok_def analyze_stop [unfolded same_stop_def])

interpretation core: epoch_frontend "kCoreVTable ops parse Z order fuel" live_ok
proof (unfold_locales, goal_cases)
  case (1 c a)
  let ?vt = "kCoreVTable ops parse Z order fuel" and ?c1 = "core_command ops parse Z order fuel a c"
  have "moves_or_keeps (session_on ?vt c) (session_on ?vt ?c1) \<and> live_ok ?c1"
    using core_command_moves [of c ops parse Z order fuel a]
  proof
    assume s: "same_stop c ?c1"
    from shown_same [OF s] live_ok_same [OF s 1] show ?thesis by (simp add: moves_or_keeps_def)
  qed (simp add: moves_or_keeps_def api_defs kCoreVTable_def core_state_epoch_def)
  then show ?case using do_command_core by blast
next
  case (2 c q)
  let ?vt = "kCoreVTable ops parse Z order fuel" and ?c1 = "core_query ops parse Z q c"
  have "same_stop c ?c1" by (rule core_query_stop)
  from shown_same [OF this] live_ok_same [OF this 2]
  show ?case by (intro exI [of _ ?c1]) (simp add: do_query_core)
qed

lemma map_of_build_symbol_map:
  "map_of (build_symbol_map bin mb fb) (mb + (a - fb)) = image_name bin a"
proof -
  have e: "(mb + (x - fb) = mb + (a - fb)) = (x = a)" for x :: u64 by simp
  have ok: "om_ok (assign_all kvs [] :: symbol_map)" for kvs by (simp add: assign_all_ok)
  show ?thesis
    unfolding build_symbol_map_def Let_def image_name_def last_match_def
    by (simp only: map_of_assign_all assign_all_ok ok om_ok_Nil rev_map map_of_find e map_of.simps)
      (auto split: option.split)
qed

section \<open>Properties\<close>

text \<open>C26: A front end can trust the epoch of a live session: after any sequence of fewer than \<open>2^64\<close> API
  calls, whatever they are and whichever of them fail, an unchanged epoch means that registers
  and program counter are the ones shown before.\<close>

theorem live_epoch_tells:
  assumes "live_ok c" "length calls < 2 ^ 64"
    "epoch_of (fold do_call calls (session_on (kCoreVTable ops parse Z order fuel) c)) =
     epoch_of (session_on (kCoreVTable ops parse Z order fuel) c)"
  shows "shown (fold do_call calls (session_on (kCoreVTable ops parse Z order fuel) c)) =
    shown (session_on (kCoreVTable ops parse Z order fuel) c)"
  by (rule core.same_epoch_same_shown [OF assms])

definition stopped_target :: "unit core_ctx" where
  "stopped_target = core_ctx_init
     \<lparr>tg_backend = (), tg_cache = mem_cache_init, tg_epoch = 1,
      tg_state = Some \<lparr>gs_epoch = 1, gs_registers = [(''rip'', 0x10)]\<rparr>\<rparr>"

lemma stopped_target_ok: "live_ok stopped_target"
  by (simp add: live_ok_def stopped_target_def core_ctx_init_def)

theorem live_epoch_tells_witness:
  "\<forall>(ops :: unit backend_ops) Z.
     snd (shown (fold do_call [Inl CStop, Inr QPc]
       (session_on (kCoreVTable ops (\<lambda>_. LiefNull) Z id 0) stopped_target))) = 0x10"
proof (intro allI)
  fix ops :: "unit backend_ops" and Z
  let ?s = "session_on (kCoreVTable ops (\<lambda>_. LiefNull) Z id 0) stopped_target"
  have "epoch_of (fold do_call [Inl CStop, Inr QPc] ?s) = epoch_of ?s"
    by (simp add: do_call_def api_defs kCoreVTable_def core_stop_def core_pc_def core_state_epoch_def)
  from live_epoch_tells [OF stopped_target_ok _ this]
  have "shown (fold do_call [Inl CStop, Inr QPc] ?s) = shown ?s" by simp
  then show "snd (shown (fold do_call [Inl CStop, Inr QPc] ?s)) = 0x10"
    by (simp only: api_defs) (simp add: kCoreVTable_def core_pc_def live_register_def tg_registers_def
        stopped_target_def core_ctx_init_def)
qed

text \<open>C27: A native session never loses the state of its stop: whatever is called on it, registers can be
  read and memory reads have a state to go to.\<close>

theorem native_session_keeps_state:
  assumes "irida_session_create_native ops b0 parse Z order fuel pid = Some s"
  shows "\<exists>c. fold do_call calls (Some s) = session_on (kCoreVTable ops parse Z order fuel) c \<and>
    tg_registers (cc_target c) \<noteq> None \<and> tg_read_memory ops addr len (cc_target c) \<noteq> None"
proof -
  obtain b1 t where "tg_attach ops b1 = (Ok (), t)"
    and s: "Some s = session_on (kCoreVTable ops parse Z order fuel) (core_ctx_init t)"
    using assms by (auto simp: irida_session_create_native_def irida_session_create_def session_on_def Let_def
        split: prod.splits result.splits)
  then have "live_ok (core_ctx_init t)"
    using tg_attach_ok by (force simp: live_ok_def core_ctx_init_def stopped_ok_def)
  from core.run_law [OF this] obtain c where
    "fold do_call calls (Some s) = session_on (kCoreVTable ops parse Z order fuel) c" "live_ok c"
    unfolding s by blast
  then show ?thesis
    by (intro exI [of _ c]) (auto simp: live_ok_def tg_registers_def tg_read_memory_def split: prod.split)
qed

theorem native_session_keeps_state_witness:
  "\<forall>(ops :: unit backend_ops) Z. \<exists>s c.
     irida_session_create_native (ops\<lparr>be_attach := \<lambda>_ b. (Ok (), b), be_read_registers := \<lambda>b. (Ok [], b)\<rparr>)
       () (\<lambda>_. LiefNull) Z id 0 7 = Some s \<and>
     fold do_call [Inl CContinue, Inr QStrings] (Some s) = Some c"
proof (intro allI)
  fix ops :: "unit backend_ops" and Z
  let ?ops = "ops\<lparr>be_attach := \<lambda>_ b. (Ok (), b), be_read_registers := \<lambda>b. (Ok [], b)\<rparr>"
  obtain s where s: "irida_session_create_native ?ops () (\<lambda>_. LiefNull) Z id 0 7 = Some s"
    by (simp add: irida_session_create_native_def irida_session_create_def tg_attach_def refresh_state_def
        rs_decode_def rs_kQwordRegs_def target_init_def)
  from native_session_keeps_state [OF s, of "[Inl CContinue, Inr QStrings]"] s
  show "\<exists>s c. irida_session_create_native ?ops () (\<lambda>_. LiefNull) Z id 0 7 = Some s \<and>
     fold do_call [Inl CContinue, Inr QStrings] (Some s) = Some c"
    unfolding session_on_def by blast
qed

text \<open>C29: The names a live session shows are those of the file moved to where the module is loaded, but
  its tables of sections and imports still carry the addresses of the file: when the loader
  moved the module, the two disagree about where an import is.\<close>

theorem live_names_move_tables_do_not:
  assumes "\<not> cc_parsed c" "tg_modules ops (cc_target c) = (Ok (m # ms), t1)"
    "parse (mod_name m) = LiefBinary b"
  shows "(\<forall>a. fst (core_resolve_symbol ops parse (mod_base m + (a - lb_imagebase b)) c) =
         image_name (binary_of_lief (mod_name m) b) a) \<and>
    fst (core_sections ops parse c) = map section_row (bi_sections (binary_of_lief (mod_name m) b)) \<and>
    fst (core_imports ops parse c) = map import_row (bi_imports (binary_of_lief (mod_name m) b))"
proof -
  let ?bin = "binary_of_lief (mod_name m) b"
  have base: "bi_image_base ?bin = lb_imagebase b" by (simp add: binary_of_lief_def rebase_info_def)
  have e: "ensure_binary_parsed ops parse c = (True, c\<lparr>cc_parsed := True, cc_target := t1, cc_main_bin := ?bin,
      cc_symbol_map := build_symbol_map ?bin (mod_base m) (lb_imagebase b)\<rparr>)"
    using assms base by (simp add: ensure_binary_parsed_def Let_def parse_file_def)
  show ?thesis
    unfolding core_resolve_symbol_def core_sections_def core_imports_def parsed_rows_def e
    using map_of_build_symbol_map [of ?bin "mod_base m" "lb_imagebase b"] by simp
qed

theorem live_names_move_tables_do_not_witness:
  "\<forall>ops :: unit backend_ops.
     let ops1 = ops\<lparr>be_modules := \<lambda>b. (Ok [\<lparr>mod_base = 0x7000, mod_size = 0x100, mod_name = ''a''\<rparr>], b)\<rparr>;
         parse = (\<lambda>_. LiefBinary
           \<lparr>lb_entrypoint = 0, lb_imagebase = 0x1000, lb_pe32_plus = True, lb_sections = [],
            lb_imports = [\<lparr>li_name = ''k'', li_entries = [(''f'', 0x10)]\<rparr>], lb_has_exports = False,
            lb_export = None, lb_symbols = []\<rparr>)
     in fst (core_resolve_symbol ops1 parse 0x7010 stopped_target) = Some ''sym.imp.f'' \<and>
        map ai_addr (fst (core_imports ops1 parse stopped_target)) = [0x1010]"
proof
  fix ops :: "unit backend_ops"
  define ops1 where "ops1 = ops\<lparr>be_modules := \<lambda>b. (Ok [\<lparr>mod_base = 0x7000, mod_size = 0x100, mod_name = ''a''\<rparr>], b)\<rparr>"
  define lb where "lb = \<lparr>lb_entrypoint = 0, lb_imagebase = 0x1000, lb_pe32_plus = True, lb_sections = [],
            lb_imports = [\<lparr>li_name = ''k'', li_entries = [(''f'', 0x10)]\<rparr>], lb_has_exports = False,
            lb_export = None, lb_symbols = []\<rparr>"
  have m: "tg_modules ops1 (cc_target stopped_target) =
      (Ok [\<lparr>mod_base = 0x7000, mod_size = 0x100, mod_name = ''a''\<rparr>], cc_target stopped_target)"
    by (simp add: target_queries on_backend_def ops1_def stopped_target_def core_ctx_init_def)
  have "\<not> cc_parsed stopped_target" by (simp add: stopped_target_def core_ctx_init_def)
  note p = live_names_move_tables_do_not [OF this m, where parse = "\<lambda>_. LiefBinary lb", OF refl]
  have "image_name (binary_of_lief ''a'' lb) 0x1010 = Some ''sym.imp.f''"
    "map ai_addr (map import_row (bi_imports (binary_of_lief ''a'' lb))) = [0x1010]"
    by (simp_all add: lb_def binary_of_lief_def rebase_info_def collect_imports_def collect_exports_def
        image_name_def last_match_def import_row_def)
  moreover have "lb_imagebase lb = 0x1000" by (simp add: lb_def)
  ultimately have "fst (core_resolve_symbol ops1 (\<lambda>_. LiefBinary lb) 0x7010 stopped_target) = Some ''sym.imp.f''"
    "map ai_addr (fst (core_imports ops1 (\<lambda>_. LiefBinary lb) stopped_target)) = [0x1010]"
    using spec [OF conjunct1 [OF p], of "0x1010"] p by simp_all
  then show "let ops1 = ops\<lparr>be_modules := \<lambda>b. (Ok [\<lparr>mod_base = 0x7000, mod_size = 0x100, mod_name = ''a''\<rparr>], b)\<rparr>;
         parse = (\<lambda>_. LiefBinary
           \<lparr>lb_entrypoint = 0, lb_imagebase = 0x1000, lb_pe32_plus = True, lb_sections = [],
            lb_imports = [\<lparr>li_name = ''k'', li_entries = [(''f'', 0x10)]\<rparr>], lb_has_exports = False,
            lb_export = None, lb_symbols = []\<rparr>)
     in fst (core_resolve_symbol ops1 parse 0x7010 stopped_target) = Some ''sym.imp.f'' \<and>
        map ai_addr (fst (core_imports ops1 parse stopped_target)) = [0x1010]"
    unfolding Let_def ops1_def [symmetric] lb_def [symmetric] by blast
qed

text \<open>C28: The frame walk of a live session ends after at most 64 frames below the current one, and the frame
  pointers it lists grow strictly, so it never goes round; no listed return address is null.\<close>

theorem backtrace_frames_grow:
  "let frames = fst (core_backtrace ops c) in
   frames \<noteq> [] \<and> length frames \<le> 65 \<and> sorted_wrt (<) (map af_frame_ptr frames) \<and>
   (\<forall>f \<in> set (tl frames). af_pc f \<noteq> 0) \<and>
   hd frames = \<lparr>af_pc = live_register c ''rip'', af_frame_ptr = live_register c ''rbp''\<rparr>"
proof -
  have loop: "length (fst (backtrace_loop ops n fp c)) \<le> n \<and>
      sorted_wrt (<) (fp # map af_frame_ptr (fst (backtrace_loop ops n fp c))) \<and>
      (\<forall>f \<in> set (fst (backtrace_loop ops n fp c)). af_pc f \<noteq> 0)" for n fp and c :: "'a core_ctx"
  proof (induction n arbitrary: fp c)
    case (Suc n)
    obtain r c1 where r: "live_read ops fp 16 c = (r, c1)" by fastforce
    show ?case
    proof (cases "\<exists>bs. r = Ok bs \<and> 16 \<le> length bs \<and> fp < u64_of_bytes (take 8 bs) \<and> u64_of_bytes (take 8 (drop 8 bs)) \<noteq> 0")
      case False
      then have "fst (backtrace_loop ops (Suc n) fp c) = []"
        using r by (auto simp: Let_def not_less case_prod_beta split: result.split)
      then show ?thesis by simp
    next
      case True
      then obtain bs where bs: "r = Ok bs" "16 \<le> length bs" "fp < u64_of_bytes (take 8 bs)"
        "u64_of_bytes (take 8 (drop 8 bs)) \<noteq> 0" by blast
      let ?fp = "u64_of_bytes (take 8 bs)"
      have "fst (backtrace_loop ops (Suc n) fp c) =
          \<lparr>af_pc = u64_of_bytes (take 8 (drop 8 bs)), af_frame_ptr = ?fp\<rparr> # fst (backtrace_loop ops n ?fp c1)"
        using r bs by (simp add: Let_def case_prod_beta)
      with Suc [of ?fp c1] bs show ?thesis by (auto intro: less_trans)
    qed
  qed simp
  have "fst (core_backtrace ops c) = \<lparr>af_pc = live_register c ''rip'', af_frame_ptr = live_register c ''rbp''\<rparr> #
      fst (backtrace_loop ops 64 (live_register c ''rbp'') c)"
    by (simp add: core_backtrace_def kMaxBacktraceFrames_def case_prod_beta Let_def)
  with loop [of 64 "live_register c ''rbp''" c] show ?thesis by simp
qed

theorem backtrace_frames_grow_witness:
  "\<forall>ops :: unit backend_ops.
     let ops1 = ops\<lparr>be_read_memory := \<lambda>_ _ b. (Ok [0x20, 0, 0, 0, 0, 0, 0, 0, 7], b)\<rparr>;
         frames = fst (core_backtrace ops1 stopped_target)
     in map af_frame_ptr frames = [0, 0x20] \<and> map af_pc frames = [0x10, 7] \<and>
        sorted_wrt (<) (map af_frame_ptr frames)"
proof
  fix ops :: "unit backend_ops"
  define ops1 where "ops1 = ops\<lparr>be_read_memory := \<lambda>_ _ b. (Ok [0x20, 0, 0, 0, 0, 0, 0, 0, 7], b)\<rparr>"
  have rd: "be_read_memory ops1 a n b = (Ok [0x20, 0, 0, 0, 0, 0, 0, 0, 7], b)" for a n b
    by (simp add: ops1_def)
  have one: "fst (live_read ops1 0 16 stopped_target) =
      Ok ([0x20, 0, 0, 0, 0, 0, 0, 0, 7, 0, 0, 0, 0, 0, 0, 0])"
    "live_read ops1 0x20 16 (snd (live_read ops1 0 16 stopped_target)) =
      (Ok [0, 0, 0, 0, 0, 0, 0, 0, 0, 0, 0, 0, 0, 0, 0, 0], snd (live_read ops1 0 16 stopped_target))"
    by (simp_all add: live_read_def stopped_target_def core_ctx_init_def tg_read_memory_def mc_read_def
        read_loop.simps [of ops1] read_page_def page_of_def page_slice_def kPageSize_def rd
        mem_cache_init_def upt_rec Let_def)
  have "fst (backtrace_loop ops1 (Suc (Suc n)) 0 stopped_target) = [\<lparr>af_pc = 7, af_frame_ptr = 0x20\<rparr>]" for n
    using one by (cases "live_read ops1 0 16 stopped_target") (simp add: u64_of_bytes_def)
  from this [of 62] have "fst (backtrace_loop ops1 64 0 stopped_target) = [\<lparr>af_pc = 7, af_frame_ptr = 0x20\<rparr>]" by simp
  moreover have "live_register stopped_target ''rip'' = 0x10" "live_register stopped_target ''rbp'' = 0"
    by (simp_all add: live_register_def tg_registers_def stopped_target_def core_ctx_init_def)
  ultimately have "fst (core_backtrace ops1 stopped_target) =
      [\<lparr>af_pc = 0x10, af_frame_ptr = 0\<rparr>, \<lparr>af_pc = 7, af_frame_ptr = 0x20\<rparr>]"
    by (simp add: core_backtrace_def kMaxBacktraceFrames_def case_prod_beta)
  then show "let ops1 = ops\<lparr>be_read_memory := \<lambda>_ _ b. (Ok [0x20, 0, 0, 0, 0, 0, 0, 0, 7], b)\<rparr>;
         frames = fst (core_backtrace ops1 stopped_target)
     in map af_frame_ptr frames = [0, 0x20] \<and> map af_pc frames = [0x10, 7] \<and>
        sorted_wrt (<) (map af_frame_ptr frames)"
    using backtrace_frames_grow [of ops1 stopped_target]
    unfolding ops1_def [symmetric] Let_def
    by simp
qed

end
