(* ===== verification/Application.thy ===== *)
theory Application
  imports Debug_Controller Startup Static_Session Core_Session
begin

text \<open>
  The whole program: the window that app/main.cpp opens on a file, over the static session of that
  file, until the user attaches to a process and it goes on over the live session of that process.

  A session of the C interface keeps its context as a \<open>void*\<close>, which every entry point casts to
  the class it was created for (\<open>ctx_of\<close> in capi_static.cpp and capi_target.cpp).  Here the
  contexts are one datatype, and \<open>cast_vtable\<close> puts the cast in front of each entry point.
\<close>

section \<open>Contexts behind a pointer\<close>

datatype 'b any_ctx = FileCtx (ctx_of_static: static_ctx) | LiveCtx (ctx_of_core: "'b core_ctx")

definition cast_entry :: "('c \<Rightarrow> 'd) \<Rightarrow> ('d \<Rightarrow> 'c) \<Rightarrow> ('c \<Rightarrow> 'r \<times> 'c) \<Rightarrow> 'd \<Rightarrow> 'r \<times> 'd" where
  "cast_entry mk un f d = (case f (un d) of (r, c1) \<Rightarrow> (r, mk c1))"

definition cast_command :: "('c \<Rightarrow> 'd) \<Rightarrow> ('d \<Rightarrow> 'c) \<Rightarrow> ('c \<Rightarrow> 'c) \<Rightarrow> 'd \<Rightarrow> 'd" where
  "cast_command mk un f d = mk (f (un d))"

definition cast_vtable :: "('c \<Rightarrow> 'd) \<Rightarrow> ('d \<Rightarrow> 'c) \<Rightarrow> 'c vtable \<Rightarrow> 'd vtable" where
  "cast_vtable mk un vt =
     \<lparr>vt_registers = map_option (cast_entry mk un) (vt_registers vt),
      vt_modules = map_option (cast_entry mk un) (vt_modules vt),
      vt_maps = map_option (cast_entry mk un) (vt_maps vt),
      vt_threads = map_option (cast_entry mk un) (vt_threads vt),
      vt_disasm = map_option (\<lambda>f a n. cast_entry mk un (f a n)) (vt_disasm vt),
      vt_run_state = map_option (cast_entry mk un) (vt_run_state vt),
      vt_pc = map_option (cast_entry mk un) (vt_pc vt),
      vt_state_epoch = map_option (cast_entry mk un) (vt_state_epoch vt),
      vt_step_into = map_option (cast_command mk un) (vt_step_into vt),
      vt_step_over = map_option (cast_command mk un) (vt_step_over vt),
      vt_step_out = map_option (cast_command mk un) (vt_step_out vt),
      vt_cont = map_option (cast_command mk un) (vt_cont vt),
      vt_brk = map_option (cast_command mk un) (vt_brk vt),
      vt_restart = map_option (cast_command mk un) (vt_restart vt),
      vt_stop = map_option (cast_command mk un) (vt_stop vt),
      vt_read_memory = map_option (\<lambda>f a n. cast_entry mk un (f a n)) (vt_read_memory vt),
      vt_breakpoints = map_option (cast_entry mk un) (vt_breakpoints vt),
      vt_bp_toggle = map_option (\<lambda>f a. cast_command mk un (f a)) (vt_bp_toggle vt),
      vt_bp_set_enabled = map_option (\<lambda>f a on. cast_command mk un (f a on)) (vt_bp_set_enabled vt),
      vt_backtrace = map_option (cast_entry mk un) (vt_backtrace vt),
      vt_sections = map_option (cast_entry mk un) (vt_sections vt),
      vt_imports = map_option (cast_entry mk un) (vt_imports vt),
      vt_get_exports = map_option (cast_entry mk un) (vt_get_exports vt),
      vt_symbols = map_option (cast_entry mk un) (vt_symbols vt),
      vt_strings = map_option (cast_entry mk un) (vt_strings vt),
      vt_analyze = map_option (cast_command mk un) (vt_analyze vt),
      vt_functions = map_option (cast_entry mk un) (vt_functions vt),
      vt_function_blocks = map_option (\<lambda>f a. cast_entry mk un (f a)) (vt_function_blocks vt),
      vt_xrefs_to = map_option (\<lambda>f a. cast_entry mk un (f a)) (vt_xrefs_to vt)\<rparr>"

definition cast_session :: "('c \<Rightarrow> 'd) \<Rightarrow> ('d \<Rightarrow> 'c) \<Rightarrow> 'c session \<Rightarrow> 'd session" where
  "cast_session mk un se = \<lparr>ss_vt = cast_vtable mk un (ss_vt se), ss_ctx = mk (ss_ctx se)\<rparr>"

abbreviation cast_handle :: "('c \<Rightarrow> 'd) \<Rightarrow> ('d \<Rightarrow> 'c) \<Rightarrow> 'c handle \<Rightarrow> 'd handle" where
  "cast_handle mk un \<equiv> map_option (cast_session mk un)"

text \<open>Casting back what was cast changes no call.\<close>

lemma call_or_cast:
  assumes "\<And>c. un (mk c) = c" "\<And>vt. sel1 (cast_vtable mk un vt) = map_option (cast_entry mk un) (sel vt)"
  shows "call_or d sel1 (cast_handle mk un s) = map_prod id (cast_handle mk un) (call_or d sel s)"
  using assms
  by (auto simp: call_or_def cast_session_def cast_entry_def split: option.split prod.split)

lemma command_call_cast:
  assumes "\<And>c. un (mk c) = c" "\<And>vt. sel1 (cast_vtable mk un vt) = map_option (cast_command mk un) (sel vt)"
  shows "command_call sel1 (cast_handle mk un s) = cast_handle mk un (command_call sel s)"
  using assms
  by (auto simp: command_call_def cast_session_def cast_command_def split: option.split)

lemma rows_call_cast:
  assumes "\<And>c. un (mk c) = c" "\<And>vt. sel1 (cast_vtable mk un vt) = map_option (cast_entry mk un) (sel vt)"
  shows "rows_call out sel1 (cast_handle mk un s) = map_prod id (cast_handle mk un) (rows_call out sel s)"
  using call_or_cast [of un mk sel1 sel "[]" s, OF assms] by (simp add: rows_call_def)

text \<open>A whole call.\<close>

lemma cast_calls:
  assumes "\<And>c. un (mk c) = c"
  shows "do_command a (cast_handle mk un s) = cast_handle mk un (do_command a s)"
    "do_query q (cast_handle mk un s) = cast_handle mk un (do_query q s)"
    "shown (cast_handle mk un s) = shown s" "epoch_of (cast_handle mk un s) = epoch_of s"
proof -
  have fields: "option.map_option (\<lambda>f. f x) (option.map_option (\<lambda>f a. g (f a)) o1) = map_option g (map_option (\<lambda>f. f x) o1)"
    for x :: 'x and g :: "'u \<Rightarrow> 'v" and o1
    by (cases o1) simp_all
  have fields2: "map_option (\<lambda>f. f x y) (map_option (\<lambda>f a b. g (f a b)) o1) = map_option g (map_option (\<lambda>f. f x y) o1)"
    for x :: 'x and y :: 'y and g :: "'u \<Rightarrow> 'v" and o1
    by (cases o1) simp_all
  note calls = rows_call_cast [of un mk, OF assms] call_or_cast [of un mk, OF assms] command_call_cast [of un mk, OF assms]
  note defs = irida_registers_def irida_modules_def irida_maps_def irida_threads_def irida_disasm_def
    irida_run_state_def irida_pc_def irida_state_epoch_def irida_step_into_def irida_step_over_def
    irida_step_out_def irida_continue_def irida_break_def irida_restart_def irida_stop_def
    irida_read_memory_def irida_breakpoints_def irida_bp_toggle_def irida_bp_set_enabled_def
    irida_backtrace_def irida_sections_def irida_imports_def irida_exports_def irida_symbols_def
    irida_strings_def irida_analyze_def irida_functions_def irida_function_blocks_def irida_xrefs_to_def
  show "do_command a (cast_handle mk un s) = cast_handle mk un (do_command a s)"
    by (cases a; simp only: do_command.simps defs; rule calls; simp add: cast_vtable_def fields fields2)
  note states = rows_call_cast [of un mk, OF assms, THEN arg_cong [where f = snd], unfolded snd_map_prod]
    call_or_cast [of un mk, OF assms, THEN arg_cong [where f = snd], unfolded snd_map_prod]
  show "do_query q (cast_handle mk un s) = cast_handle mk un (do_query q s)"
    by (cases q; simp only: do_query.simps defs; rule states; simp add: cast_vtable_def fields fields2)
  note answers = rows_call_cast [of un mk, OF assms, THEN arg_cong [where f = fst], unfolded fst_map_prod id_apply]
    call_or_cast [of un mk, OF assms, THEN arg_cong [where f = fst], unfolded fst_map_prod id_apply]
  have "fst (irida_registers True (cast_handle mk un s)) = fst (irida_registers True s)"
    "fst (irida_pc (cast_handle mk un s)) = fst (irida_pc s)"
    "fst (irida_state_epoch (cast_handle mk un s)) = fst (irida_state_epoch s)"
    unfolding defs by (rule answers; simp add: cast_vtable_def)+
  then show "shown (cast_handle mk un s) = shown s" "epoch_of (cast_handle mk un s) = epoch_of s"
    by (simp_all add: shown_def epoch_of_def)
qed

text \<open>So a session that keeps to the epoch protocol keeps to it behind the pointer.\<close>

lemma cast_session_on: "session_on (cast_vtable mk un vt) (mk c) = cast_handle mk un (session_on vt c)"
  by (simp add: session_on_def cast_session_def)

lemma cast_epoch_frontend:
  assumes "epoch_frontend vt ok" "\<And>c. un (mk c) = c"
  shows "epoch_frontend (cast_vtable mk un vt) (\<lambda>d. \<exists>c. d = mk c \<and> ok c)"
proof (unfold_locales, goal_cases)
  case (1 d a)
  then obtain c c1 where d: "d = mk c" and c1: "do_command a (session_on vt c) = session_on vt c1" "ok c1"
    "moves_or_keeps (session_on vt c) (session_on vt c1)"
    using epoch_frontend.command_law [OF assms(1)] by blast
  then show ?case
    by (intro exI [of _ "mk c1"]) (auto simp: cast_session_on cast_calls [of un mk, OF assms(2)] moves_or_keeps_def)
next
  case (2 d q)
  then obtain c c1 where d: "d = mk c" and c1: "do_query q (session_on vt c) = session_on vt c1" "ok c1"
    "epoch_of (session_on vt c1) = epoch_of (session_on vt c)" "shown (session_on vt c1) = shown (session_on vt c)"
    using epoch_frontend.query_law [OF assms(1)] by blast
  then show ?case
    by (intro exI [of _ "mk c1"]) (auto simp: cast_session_on cast_calls [of un mk, OF assms(2)])
qed

lemma trusty_cast:
  assumes "trusty (Some se)" "\<And>c. un (mk c) = c"
  shows "trusty (Some (cast_session mk un se))"
proof -
  obtain vt ok c where e: "epoch_frontend vt ok" "Some se = session_on vt c" "ok c"
    using assms(1) by (auto simp: trusty_def)
  from e(2) have "Some (cast_session mk un se) = session_on (cast_vtable mk un vt) (mk c)"
    by (simp add: session_on_def cast_session_def)
  with cast_epoch_frontend [OF e(1), of un mk] assms(2) e(3) show ?thesis unfolding trusty_def by blast
qed

section \<open>The engine and the application\<close>

text \<open>
  What the application runs on: the files, LIEF, Zydis, the order of unordered containers, the
  fuel of an analysis, and the backend of live sessions.  Attaching finds the backend in a state
  of its own each time.
\<close>

record 'b engine =
  en_files :: "string \<Rightarrow> bytes option"
  en_parse :: lief
  en_zydis :: zydis
  en_order :: "u64 list \<Rightarrow> u64 list"
  en_fuel :: nat
  en_backend :: "'b backend_ops"

definition create_file :: "'b engine \<Rightarrow> string \<Rightarrow> 'b any_ctx handle" where
  "create_file G path =
     cast_handle FileCtx ctx_of_static
       (irida_session_create_file (en_files G) (en_parse G) (en_zydis G) (en_order G) (en_fuel G) (Some path))"

definition create_native :: "'b engine \<Rightarrow> 'b \<Rightarrow> u32 \<Rightarrow> 'b any_ctx handle" where
  "create_native G b0 pid =
     cast_handle LiveCtx ctx_of_core
       (irida_session_create_native (en_backend G) b0 (en_parse G) (en_zydis G) (en_order G) (en_fuel G) pid)"

text \<open>The windows a start of the application can lead to by events that are \<open>allowed\<close>, until the window is closed.\<close>

definition app_run ::
    "(event \<Rightarrow> 'b any_ctx desk \<Rightarrow> bool) \<Rightarrow> 'b engine \<Rightarrow> string list \<Rightarrow> string option \<Rightarrow> (string \<Rightarrow> load_options option) \<Rightarrow> string list \<Rightarrow>
     'b any_ctx desk \<Rightarrow> bool" where
  "app_run allowed G argv welcome options recent dk \<longleftrightarrow>
     (\<exists>se analyze path recent1.
        app_main (create_file G) argv welcome options recent = (Open se analyze path, recent1) \<and>
        desk_run allowed (\<lambda>create. \<exists>b0. create = create_native G b0) se Static dk)"

lemma file_trusty: "create_file G path = Some se \<Longrightarrow> trusty (Some se)"
proof -
  assume "create_file G path = Some se"
  then obtain c where c: "irida_session_create_file (en_files G) (en_parse G) (en_zydis G) (en_order G) (en_fuel G)
      (Some path) = Some c" "se = cast_session FileCtx ctx_of_static c"
    by (auto simp: create_file_def)
  from c(1) have "\<exists>x. Some c = session_on (kStaticVTable (en_zydis G) (en_order G) (en_fuel G)) x"
    by (auto simp: irida_session_create_file_def irida_session_create_def session_on_def split: option.splits)
  then have "trusty (Some c)" unfolding trusty_def using static.epoch_frontend_axioms by blast
  with c(2) show ?thesis by (simp add: trusty_cast)
qed

lemma native_trusty: "creates_trusty (create_native G b0)"
  unfolding creates_trusty_def
proof (intro allI impI)
  fix pid se
  assume "create_native G b0 pid = Some se"
  then obtain c where c: "irida_session_create_native (en_backend G) b0 (en_parse G) (en_zydis G) (en_order G)
      (en_fuel G) pid = Some c" "se = cast_session LiveCtx ctx_of_core c"
    by (auto simp: create_native_def)
  then obtain b1 t where t: "tg_attach (en_backend G) b1 = (Ok (), t)"
    and s: "Some c = session_on (kCoreVTable (en_backend G) (en_parse G) (en_zydis G) (en_order G) (en_fuel G)) (core_ctx_init t)"
    by (auto simp: irida_session_create_native_def irida_session_create_def session_on_def Let_def
        split: prod.splits result.splits)
  have "live_ok (core_ctx_init t)"
    using t tg_attach_ok by (force simp: live_ok_def core_ctx_init_def stopped_ok_def)
  with s have "trusty (Some c)" unfolding trusty_def using core.epoch_frontend_axioms by blast
  with c(2) show "trusty (Some se)" by (simp add: trusty_cast)
qed

lemma natives_trusty: "\<forall>create. (\<exists>b0. create = create_native G b0) \<longrightarrow> creates_trusty create"
  by (auto simp: native_trusty)

lemma app_run_desk:
  assumes "app_run allowed G argv welcome options recent dk"
  obtains se where "trusty (Some se)" "desk_run allowed (\<lambda>create. \<exists>b0. create = create_native G b0) se Static dk"
proof -
  from assms obtain se analyze path recent1
    where "app_main (create_file G) argv welcome options recent = (Open se analyze path, recent1)"
      and r: "desk_run allowed (\<lambda>create. \<exists>b0. create = create_native G b0) se Static dk"
    by (auto simp: app_run_def)
  then have "create_file G path = Some se" using app_main_opens by blast
  from that [OF file_trusty [OF this] r] show thesis .
qed

lemma app_run_inv: "app_run allowed G argv welcome options recent dk \<Longrightarrow> desk_inv dk"
proof -
  assume "app_run allowed G argv welcome options recent dk"
  then obtain se where "trusty (Some se)" "desk_run allowed (\<lambda>create. \<exists>b0. create = create_native G b0) se Static dk"
    by (rule app_run_desk)
  from desk_run_inv [OF this(2,1) natives_trusty] show "desk_inv dk" .
qed

section \<open>Properties\<close>

text \<open>A start on a file whose entry point is at \<open>0x1010\<close>, for the witnesses.\<close>

definition small_engine :: "unit backend_ops \<Rightarrow> zydis \<Rightarrow> unit engine" where
  "small_engine ops Z =
     \<lparr>en_files = \<lambda>_. Some [0x4D],
      en_parse = \<lambda>_. LiefBinary \<lparr>lb_entrypoint = 0x1010, lb_imagebase = 0x1000, lb_pe32_plus = True, lb_sections = [],
        lb_imports = [], lb_has_exports = False, lb_export = None, lb_symbols = []\<rparr>,
      en_zydis = Z, en_order = id, en_fuel = 0, en_backend = ops\<rparr>"

definition no_analysis :: "string \<Rightarrow> load_options option" where
  "no_analysis path = Some \<lparr>lo_analyze = False, lo_level = LevelNone\<rparr>"

lemma small_app:
  obtains dk where "app_run allowed (small_engine ops Z) [''irida'', ''a''] None no_analysis [] dk" "dk_workers dk = []"
    "pc_of (current dk) = 0x1010" "epoch_of (current dk) = 1" "dk_kind dk = Static"
proof -
  let ?G = "small_engine ops Z"
  obtain se where se: "create_file ?G ''a'' = Some se"
    by (simp add: create_file_def small_engine_def irida_session_create_file_def irida_session_create_def
        static_load_def parse_file_def)
  then have f: "pc_of (Some se) = 0x1010" "epoch_of (Some se) = 1"
    by (auto simp: create_file_def small_engine_def irida_session_create_file_def irida_session_create_def
        static_load_def parse_file_def pc_of_def api_defs cast_session_def cast_vtable_def cast_entry_def
        kStaticVTable_def static_pc_def static_epoch_def binary_of_lief_def rebase_info_def)
  define E :: window_env where "E = undefined"
  obtain dk where dk: "window_opens E False se Static = Some dk" "desk_inv dk" "dk_workers dk = []"
    "dk_kind dk = Static" "dk_session dk = Some 0" "dk_next dk = 1" "\<not> dk_analyzing dk"
    "pc_of (current dk) = pc_of (Some se)" "epoch_of (current dk) = epoch_of (Some se)"
    "window_opens E True se Static = runAnalysis dk"
    using window_opens_idle [OF file_trusty [OF se], of E Static] .
  have "app_main (create_file ?G) [''irida'', ''a''] None no_analysis [] = (Open se False ''a'', addRecent ''a'' [])"
    using se by (simp add: app_main_def no_analysis_def)
  moreover have "desk_run allowed (\<lambda>create. \<exists>b0. create = create_native ?G b0) se Static dk" by (rule desk_run.shown [OF dk(1)])
  ultimately have "app_run allowed ?G [''irida'', ''a''] None no_analysis [] dk" unfolding app_run_def by blast
  with dk f show ?thesis by (intro that) simp_all
qed

text \<open>C30: Whatever file the application was started on, and however the user then steps, runs, sets
  breakpoints, navigates, chooses forms of the code view, analyses, moves docks and attaches to
  processes, and whenever the worker thread runs: the window, until it is closed, shows the session it holds.
  The marked row of the code view is the last one at the program counter (none if it is not listed), the newest
  console line names program counter and epoch, and the progress bar runs exactly while an
  analysis does.  Only between the end of a worker and its notification may the panels be behind, so
  no finished worker must be waiting to be announced.  Every event but closing is allowed, attaching while a worker
  still analyses included; such a run ends when that worker touches the session that was destroyed.\<close>

theorem application_follows_session:
  assumes "app_run any_event G argv welcome options recent dk" "Finished \<notin> set (dk_workers dk)"
  shows "let dis = pn_disassembly (dk_panels dk); pc = fst (irida_pc (current dk));
           epoch = fst (irida_state_epoch (current dk))
     in (\<forall>row < length (dp_row_addrs dis). isCurrentIpRow (dp_view dis) row \<longleftrightarrow>
           dp_row_addrs dis ! row = pc \<and> pc \<notin> set (drop (Suc row) (dp_row_addrs dis))) \<and>
        last (pn_console (dk_panels dk)) = stop_line pc epoch \<and>
        (dk_progress dk \<longleftrightarrow> dk_analyzing dk)"
proof -
  obtain se where "trusty (Some se)" "desk_run any_event (\<lambda>create. \<exists>b0. create = create_native G b0) se Static dk"
    using assms(1) by (rule app_run_desk)
  from window_follows_session [OF this(1) natives_trusty this(2) assms(2)] show ?thesis .
qed

theorem application_follows_session_witness:
  "\<forall>ops Z. \<exists>dk. app_run any_event (small_engine ops Z) [''irida'', ''a''] None no_analysis [] dk \<and>
     last (pn_console (dk_panels dk)) = stop_line 0x1010 1"
proof (intro allI)
  fix ops Z
  obtain dk where dk: "app_run any_event (small_engine ops Z) [''irida'', ''a''] None no_analysis [] dk" "dk_workers dk = []"
    "pc_of (current dk) = 0x1010" "epoch_of (current dk) = 1"
    using small_app by metis
  from application_follows_session [OF dk(1)] dk show
    "\<exists>dk. app_run any_event (small_engine ops Z) [''irida'', ''a''] None no_analysis [] dk \<and>
       last (pn_console (dk_panels dk)) = stop_line 0x1010 1"
    by (auto simp: Let_def simp flip: pc_of_def epoch_of_def)
qed

text \<open>C31: Calls of the C interface taken one at a time, in the runs in which nobody attaches to a process
  while a worker analyses, every event is carried out without a use of freed memory or a session destroyed as what it is not, and the
  controller always holds a session that is still on the heap and of the kind it was created as, the one
  a worker analyses.  Closing the window stores the layout and destroys that session, after which none
  is left on the heap; if no worker is analysing then, no worker runs on freed memory afterwards.  (Closing
  the window while one is analysing makes it do so: \<open>close_while_analysing\<close>.)\<close>

theorem application_never_uses_freed_session:
  assumes "app_run calm G argv welcome options recent dk"
  shows "do_event (create_native G b0) ev dk \<noteq> None \<and>
    (\<exists>p ob. dk_session dk = Some p \<and> dk_heap dk p = Some ob \<and> ob_kind ob = dk_kind dk \<and>
       (\<forall>s. Analysing s \<in> set (dk_workers dk) \<longrightarrow> s = p)) \<and>
    (\<exists>dk1. do_event (create_native G b0) EClose dk = Some dk1 \<and>
       dk_session dk1 = None \<and> dk_heap dk1 = (\<lambda>_. None) \<and> dk_layout dk1 = closeEvent (dk_docks dk) \<and>
       (calm EClose dk \<longrightarrow> (\<forall>i. do_event (create_native G b0) (EWorkerRuns i) dk1 = Some dk1)))"
proof (intro conjI)
  obtain se where se: "trusty (Some se)" "desk_run calm (\<lambda>create. \<exists>b0. create = create_native G b0) se Static dk"
    using assms by (rule app_run_desk)
  note safe = window_never_uses_freed_session [OF se(1) natives_trusty se(2), of "create_native G b0"]
  show "do_event (create_native G b0) ev dk \<noteq> None"
    "\<exists>p ob. dk_session dk = Some p \<and> dk_heap dk p = Some ob \<and> ob_kind ob = dk_kind dk \<and>
       (\<forall>s. Analysing s \<in> set (dk_workers dk) \<longrightarrow> s = p)"
    using safe [of ev] by blast+
  obtain dk1 where dk1: "closeWindow dk = Some dk1" "dk_session dk1 = None" "dk_heap dk1 = (\<lambda>_. None)"
    "dk_workers dk1 = dk_workers dk" "dk_layout dk1 = closeEvent (dk_docks dk)"
    using closeWindow_ok [OF app_run_inv [OF assms]] .
  have "worker_runs i dk1 = Some dk1" if "calm EClose dk" for i
    using that dk1(4) nth_mem [of i "dk_workers dk1"] by (auto simp: late_worker [OF dk1(3)] calm_def)
  with dk1 show "\<exists>dk1. do_event (create_native G b0) EClose dk = Some dk1 \<and>
       dk_session dk1 = None \<and> dk_heap dk1 = (\<lambda>_. None) \<and> dk_layout dk1 = closeEvent (dk_docks dk) \<and>
       (calm EClose dk \<longrightarrow> (\<forall>i. do_event (create_native G b0) (EWorkerRuns i) dk1 = Some dk1))"
    by auto
qed

theorem application_never_uses_freed_session_witness:
  "\<forall>ops Z. \<exists>dk dk1. app_run calm (small_engine ops Z) [''irida'', ''a''] None no_analysis [] dk \<and>
     do_event (create_native (small_engine ops Z) ()) (EAttach True 7) dk \<noteq> None \<and>
     do_event (create_native (small_engine ops Z) ()) EClose dk = Some dk1 \<and>
     dk_heap dk1 = (\<lambda>_. None) \<and> do_event (create_native (small_engine ops Z) ()) (EWorkerRuns 0) dk1 = Some dk1"
proof (intro allI)
  fix ops Z
  obtain dk where dk: "app_run calm (small_engine ops Z) [''irida'', ''a''] None no_analysis [] dk" "dk_workers dk = []"
    using small_app by metis
  then have c: "calm EClose dk" by (simp add: calm_def)
  from application_never_uses_freed_session [OF dk(1), of "()" "EAttach True 7"] c
  obtain dk1 where "do_event (create_native (small_engine ops Z) ()) (EAttach True 7) dk \<noteq> None"
    "do_event (create_native (small_engine ops Z) ()) EClose dk = Some dk1"
    "dk_heap dk1 = (\<lambda>_. None)" "do_event (create_native (small_engine ops Z) ()) (EWorkerRuns 0) dk1 = Some dk1"
    by blast
  with dk(1) show "\<exists>dk dk1. app_run calm (small_engine ops Z) [''irida'', ''a''] None no_analysis [] dk \<and>
     do_event (create_native (small_engine ops Z) ()) (EAttach True 7) dk \<noteq> None \<and>
     do_event (create_native (small_engine ops Z) ()) EClose dk = Some dk1 \<and>
     dk_heap dk1 = (\<lambda>_. None) \<and> do_event (create_native (small_engine ops Z) ()) (EWorkerRuns 0) dk1 = Some dk1"
    by blast
qed

text \<open>The docks of a running window: every one of them stays in the window, showing and hiding one in the
  View menu changes that one, Reset Layout shows all but the debug docks of a static session,
  attaching shows the debug docks, and nothing else changes a dock.\<close>

theorem docks_follow_user_and_kind:
  assumes "app_run any_event G argv welcome options recent dk" "do_event create ev dk = Some dk1" "n \<in> set dock_names"
  shows "(dock_visible n dk1 \<longleftrightarrow>
    (case ev of
       EToggleDock m \<Rightarrow> (dock_visible n dk \<longleftrightarrow> m \<noteq> n)
     | EResetLayout \<Rightarrow> n \<in> set debugDocks \<longrightarrow> dk_kind dk = Native
     | _ \<Rightarrow> if n \<in> set debugDocks \<and> dk_kind dk1 \<noteq> dk_kind dk then dk_kind dk1 = Native else dock_visible n dk)) \<and>
    map fst (dk_docks dk) = dock_names"
proof -
  have "docks_ok (dk_docks dk)" using app_run_inv [OF assms(1)] by (simp add: desk_inv_def framed_def)
  then show ?thesis using docks_step [OF _ assms(3,2)] by (simp add: docks_ok_def)
qed

theorem docks_follow_user_and_kind_witness:
  "\<forall>ops Z. \<exists>dk dk1. app_run any_event (small_engine ops Z) [''irida'', ''a''] None no_analysis [] dk \<and>
     do_event (\<lambda>_. None) EResetLayout dk = Some dk1 \<and>
     dock_visible ''ConsoleDock'' dk1 \<and> \<not> dock_visible ''ThreadsDock'' dk1"
proof (intro allI)
  fix ops Z
  obtain dk where dk: "app_run any_event (small_engine ops Z) [''irida'', ''a''] None no_analysis [] dk" "dk_kind dk = Static"
    using small_app by metis
  obtain dk1 where dk1: "do_event (\<lambda>_. None) EResetLayout dk = Some dk1" by simp
  note d = docks_follow_user_and_kind [OF dk(1) dk1]
  have "dock_visible ''ConsoleDock'' dk1 \<and> \<not> dock_visible ''ThreadsDock'' dk1"
    using d [of "''ConsoleDock''"] d [of "''ThreadsDock''"] dk(2) by (simp add: dock_names_def debugDocks_def)
  with dk(1) dk1 show "\<exists>dk dk1. app_run any_event (small_engine ops Z) [''irida'', ''a''] None no_analysis [] dk \<and>
     do_event (\<lambda>_. None) EResetLayout dk = Some dk1 \<and>
     dock_visible ''ConsoleDock'' dk1 \<and> \<not> dock_visible ''ThreadsDock'' dk1"
    by blast
qed

end
