(* ===== verification/Vectors.thy ===== *)
theory Vectors
  imports Prelude
begin

text \<open>
  The storage of \<open>std::vector\<close>, as far as pointers into it can tell.

  Every array a vector allocates and every element put into it gets a number of its own out of
  a supply that is never used twice, so a number stands for one object from its construction to
  its destruction.  \<open>clear\<close> destroys the elements and keeps the array; growing beyond the
  capacity moves the elements to a new array, which ends the old objects and begins new ones.
  A pointer to an element, or to the characters of an element that is a \<open>std::string\<close> (short
  strings keep them inside the object), is good as long as its object is.
  How much a vector grows is left to the library: \<open>grow\<close> is a parameter.
\<close>

record 'a cvec =
  cv_buf :: nat
  cv_cap :: nat
  cv_objs :: "(nat \<times> 'a) list"

definition vec_init :: "'a cvec" where
  "vec_init = \<lparr>cv_buf = 0, cv_cap = 0, cv_objs = []\<rparr>"

definition vec_values :: "'a cvec \<Rightarrow> 'a list" where
  "vec_values v = map snd (cv_objs v)"

definition vec_clear :: "'a cvec \<Rightarrow> nat \<Rightarrow> 'a cvec \<times> nat" where
  "vec_clear v k = (v\<lparr>cv_objs := []\<rparr>, k)"

definition vec_move :: "nat \<Rightarrow> 'a cvec \<Rightarrow> nat \<Rightarrow> 'a cvec \<times> nat" where
  "vec_move cap v k =
     (\<lparr>cv_buf = k, cv_cap = cap, cv_objs = enumerate (Suc k) (vec_values v)\<rparr>, Suc k + length (cv_objs v))"

definition vec_reserve :: "nat \<Rightarrow> 'a cvec \<Rightarrow> nat \<Rightarrow> 'a cvec \<times> nat" where
  "vec_reserve n v k = (if n \<le> cv_cap v then (v, k) else vec_move n v k)"

definition vec_push :: "(nat \<Rightarrow> nat) \<Rightarrow> 'a \<Rightarrow> 'a cvec \<Rightarrow> nat \<Rightarrow> 'a cvec \<times> nat" where
  "vec_push grow x v k =
     (let n = length (cv_objs v) in
      case (if n < cv_cap v then (v, k) else vec_move (max (grow (cv_cap v)) (Suc n)) v k) of
        (v1, k1) \<Rightarrow> (v1\<lparr>cv_objs := cv_objs v1 @ [(k1, x)]\<rparr>, Suc k1))"

text \<open>The element an object number stands for, when it is one of this vector's.\<close>

definition vec_at :: "'a cvec \<Rightarrow> nat \<Rightarrow> 'a option" where
  "vec_at v p = map_of (cv_objs v) p"

section \<open>Well-formed storage\<close>

definition vec_ok :: "nat \<Rightarrow> 'a cvec \<Rightarrow> bool" where
  "vec_ok k v \<longleftrightarrow> cv_buf v < k \<and> distinct (map fst (cv_objs v)) \<and> (\<forall>p \<in> fst ` set (cv_objs v). p < k) \<and>
     length (cv_objs v) \<le> cv_cap v"

text \<open>An operation of a vector keeps it in order and takes its numbers from the supply.\<close>

definition vec_safe :: "('a cvec \<Rightarrow> nat \<Rightarrow> 'a cvec \<times> nat) \<Rightarrow> bool" where
  "vec_safe f \<longleftrightarrow> (\<forall>v k v1 k1. vec_ok k v \<longrightarrow> f v k = (v1, k1) \<longrightarrow> vec_ok k1 v1 \<and> k \<le> k1)"

lemma vec_ok_mono: "vec_ok k v \<Longrightarrow> k \<le> k1 \<Longrightarrow> vec_ok k1 v"
  by (auto simp: vec_ok_def)

lemma vec_ok_init: "0 < k \<Longrightarrow> vec_ok k vec_init"
  by (simp add: vec_ok_def vec_init_def)

lemma clear_safe [intro, simp]: "vec_safe vec_clear"
  by (simp add: vec_safe_def vec_clear_def vec_ok_def)

lemma move_ok:
  assumes "length (cv_objs v) \<le> cap" "vec_move cap v k = (v1, k1)"
  shows "vec_ok k1 v1" "k < k1" "vec_values v1 = vec_values v" "cv_cap v1 = cap"
    "length (cv_objs v1) = length (cv_objs v)" "cv_buf v1 = k"
  using assms
  by (auto simp: vec_move_def vec_ok_def vec_values_def in_set_enumerate_eq simp del: upt_Suc)

lemma reserve_safe [intro, simp]: "vec_safe (vec_reserve n)"
  unfolding vec_safe_def vec_reserve_def
proof (intro allI impI)
  fix v :: "'a cvec" and k v1 k1
  assume ok: "vec_ok k v" and r: "(if n \<le> cv_cap v then (v, k) else vec_move n v k) = (v1, k1)"
  show "vec_ok k1 v1 \<and> k \<le> k1"
  proof (cases "n \<le> cv_cap v")
    case False
    then have "length (cv_objs v) \<le> n" using ok by (simp add: vec_ok_def)
    with False r move_ok [of v n k v1 k1] show ?thesis by simp
  qed (use ok r in simp)
qed

lemma push_ok:
  assumes ok: "vec_ok k v" and p: "vec_push grow x v k = (v1, k1)"
  shows "vec_ok k1 v1" "k \<le> k1" "vec_values v1 = vec_values v @ [x]" "cv_cap v \<le> cv_cap v1"
    "vec_at v1 (fst (last (cv_objs v1))) = Some x"
    "length (cv_objs v) < cv_cap v \<Longrightarrow>
       cv_objs v1 = cv_objs v @ [(k, x)] \<and> cv_buf v1 = cv_buf v \<and> cv_cap v1 = cv_cap v"
proof -
  let ?cap = "max (grow (cv_cap v)) (Suc (length (cv_objs v)))"
  obtain w j where w: "(if length (cv_objs v) < cv_cap v then (v, k) else vec_move ?cap v k) = (w, j)"
    by fastforce
  have v1: "v1 = w\<lparr>cv_objs := cv_objs w @ [(j, x)]\<rparr>" "k1 = Suc j"
    using p w by (simp_all add: vec_push_def Let_def split: if_splits)
  have w_ok: "vec_ok j w \<and> k \<le> j \<and> vec_values w = vec_values v \<and> length (cv_objs w) < cv_cap w \<and>
      cv_cap v \<le> cv_cap w"
  proof (cases "length (cv_objs v) < cv_cap v")
    case False
    then have m: "vec_move ?cap v k = (w, j)" using w by simp
    have c: "cv_cap v \<le> length (cv_objs v)" using False by simp
    have le: "length (cv_objs v) \<le> ?cap" by simp
    show ?thesis using move_ok [OF le m] c by (simp add: less_max_iff_disj le_max_iff_disj)
  qed (use ok w in auto)
  have fresh: "j \<notin> fst ` set (cv_objs w)" using w_ok by (auto simp: vec_ok_def)
  show "vec_ok k1 v1" "k \<le> k1" "vec_values v1 = vec_values v @ [x]" "cv_cap v \<le> cv_cap v1"
    using w_ok fresh by (auto simp: v1 vec_ok_def vec_values_def)
  show "vec_at v1 (fst (last (cv_objs v1))) = Some x"
    using fresh by (simp add: v1 vec_at_def map_add_Some_iff map_of_eq_None_iff)
  show "length (cv_objs v) < cv_cap v \<Longrightarrow>
       cv_objs v1 = cv_objs v @ [(k, x)] \<and> cv_buf v1 = cv_buf v \<and> cv_cap v1 = cv_cap v"
    using w by (auto simp: v1)
qed

lemma push_safe [intro, simp]: "vec_safe (vec_push grow x)"
  unfolding vec_safe_def by (blast dest: push_ok(1,2))

lemma vec_at_nth:
  "vec_ok k v \<Longrightarrow> i < length (vec_values v) \<Longrightarrow> vec_at v (fst (cv_objs v ! i)) = Some (vec_values v ! i)"
  by (simp add: vec_ok_def vec_at_def vec_values_def map_of_eq_Some_iff)

text \<open>Elements added at the end leave the pointers to the others alone.\<close>

lemma vec_at_append: "vec_at v p = Some x \<Longrightarrow> cv_objs w = cv_objs v @ e \<Longrightarrow> vec_at w p = Some x"
  by (simp add: vec_at_def map_add_Some_iff)

lemma reserve_room:
  assumes "vec_reserve n v k = (v1, k1)"
  shows "n \<le> cv_cap v1" "cv_objs v = [] \<Longrightarrow> cv_objs v1 = []" "vec_values v1 = vec_values v"
    "n \<le> cv_cap v \<Longrightarrow> v1 = v"
  using assms by (auto simp: vec_reserve_def vec_move_def vec_values_def split: if_splits)

end
