(* ===== verification/Borrowed_Rows.thy ===== *)
theory Borrowed_Rows
  imports Vectors Session_Rows Backend_Types
begin

text \<open>
  The borrowed arrays of the C interface.  A session keeps vectors of rows and of the texts its
  rows point to (capi_target.cpp and capi_static.cpp, the members of \<open>IridaCoreCtx\<close> and
  \<open>IridaStaticCtx\<close>); a query fills the vectors of its table and hands out the array of rows.
  The other theories answer queries by value; here the same calls are modelled with the storage
  and the pointers, and shown to hand out what the others answer.

  \<open>text_member\<close> and \<open>row_member\<close> name the vectors.  A \<open>crow\<close> is a row of irida.h whose texts are
  given by \<open>'p\<close>: pointers in the storage, strings in an answer.
\<close>

datatype text_member =
    Reg_names | Insn_text | Insn_bytes | Insn_annot | Module_names | Map_names | Section_names
  | Import_names | Import_libs | Export_names | Symbol_names | Symbol_kinds | String_texts | Function_names

datatype row_member =
    Reg_rows | Insn_rows | Bp_rows | Frame_rows | Module_rows | Map_rows | Thread_rows | Section_rows
  | Import_rows | Export_rows | Symbol_rows | String_rows | Function_rows | Block_rows | Xref_rows

datatype 'p crow =
    Register_row 'p u64 "'p option"
  | Module_row 'p u64 u64
  | Map_row u64 u64 u8 'p
  | Thread_row u32 u64 int
  | Insn_row u64 'p "'p option" 'p
  | Frame_row u64 u64
  | Section_row 'p u64 u64 u8
  | Import_row 'p 'p u64
  | Export_row 'p u64 u32
  | Symbol_row 'p u64 'p
  | String_row u64 'p
  | Function_row u64 u64 'p nat
  | Block_row u64 u64 u64 u64
  | Xref_row u64 u64 int
  | Breakpoint_row u64 bool bp_type

text \<open>A \<open>const char*\<close>: the vector of texts and the object in it.\<close>

type_synonym char_ptr = "text_member \<times> nat"

record scratch =
  sp_next :: nat
  sp_texts :: "text_member \<Rightarrow> string cvec"
  sp_rows :: "row_member \<Rightarrow> char_ptr crow cvec"

definition scratch_init :: scratch where
  "scratch_init = \<lparr>sp_next = 1, sp_texts = (\<lambda>_. vec_init), sp_rows = (\<lambda>_. vec_init)\<rparr>"

definition on_texts ::
    "text_member \<Rightarrow> (string cvec \<Rightarrow> nat \<Rightarrow> string cvec \<times> nat) \<Rightarrow> scratch \<Rightarrow> scratch" where
  "on_texts m f s =
     (case f (sp_texts s m) (sp_next s) of (v, k) \<Rightarrow> s\<lparr>sp_texts := (sp_texts s)(m := v), sp_next := k\<rparr>)"

definition on_rows ::
    "row_member \<Rightarrow> (char_ptr crow cvec \<Rightarrow> nat \<Rightarrow> char_ptr crow cvec \<times> nat) \<Rightarrow> scratch \<Rightarrow> scratch" where
  "on_rows m f s =
     (case f (sp_rows s m) (sp_next s) of (v, k) \<Rightarrow> s\<lparr>sp_rows := (sp_rows s)(m := v), sp_next := k\<rparr>)"

text \<open>\<open>m[i].c_str()\<close> and \<open>m.back().c_str()\<close>.\<close>

definition c_str :: "scratch \<Rightarrow> text_member \<Rightarrow> nat \<Rightarrow> char_ptr" where
  "c_str s m i = (m, fst (cv_objs (sp_texts s m) ! i))"

definition back_str :: "scratch \<Rightarrow> text_member \<Rightarrow> char_ptr" where
  "back_str s m = (m, fst (last (cv_objs (sp_texts s m))))"

text \<open>What a query leaves in \<open>*out\<close>, \<open>None\<close> for a null pointer, and the number it returns.\<close>

record loan =
  ln_table :: row_member
  ln_out :: "nat option"
  ln_count :: nat

definition nothing :: "row_member \<Rightarrow> loan" where
  "nothing m = \<lparr>ln_table = m, ln_out = None, ln_count = 0\<rparr>"

definition lend :: "scratch \<Rightarrow> row_member \<Rightarrow> loan" where
  "lend s m =
     (let v = sp_rows s m in
      \<lparr>ln_table = m, ln_out = (if cv_objs v = [] then None else Some (cv_buf v)), ln_count = length (cv_objs v)\<rparr>)"

section \<open>Following the pointers\<close>

text \<open>\<open>None\<close>: the pointer dangles.\<close>

definition text_at :: "scratch \<Rightarrow> char_ptr \<Rightarrow> string option" where
  "text_at s p = vec_at (sp_texts s (fst p)) (snd p)"

definition row_at :: "scratch \<Rightarrow> char_ptr crow \<Rightarrow> string crow option" where
  "row_at s r =
     (if \<forall>p \<in> set_crow r. text_at s p \<noteq> None then Some (map_crow (\<lambda>p. the (text_at s p)) r) else None)"

definition read_loan :: "scratch \<Rightarrow> loan \<Rightarrow> string crow list option" where
  "read_loan s l =
     (let v = sp_rows s (ln_table l) in
      if ln_count l = 0 then Some []
      else if ln_out l = Some (cv_buf v) \<and> ln_count l \<le> length (cv_objs v)
      then those (map (row_at s) (take (ln_count l) (vec_values v)))
      else None)"

section \<open>Filling the vectors\<close>

definition push_text :: "(nat \<Rightarrow> nat) \<Rightarrow> text_member \<Rightarrow> string \<Rightarrow> scratch \<Rightarrow> scratch" where
  "push_text g m x = on_texts m (vec_push g x)"

definition push_row :: "(nat \<Rightarrow> nat) \<Rightarrow> row_member \<Rightarrow> char_ptr crow \<Rightarrow> scratch \<Rightarrow> scratch" where
  "push_row g m r = on_rows m (vec_push g r)"

definition clear_texts :: "text_member \<Rightarrow> scratch \<Rightarrow> scratch" where
  "clear_texts m = on_texts m vec_clear"

definition clear_rows :: "row_member \<Rightarrow> scratch \<Rightarrow> scratch" where
  "clear_rows m = on_rows m vec_clear"

definition reserve_texts :: "text_member \<Rightarrow> nat \<Rightarrow> scratch \<Rightarrow> scratch" where
  "reserve_texts m n = on_texts m (vec_reserve n)"

definition reserve_rows :: "row_member \<Rightarrow> nat \<Rightarrow> scratch \<Rightarrow> scratch" where
  "reserve_rows m n = on_rows m (vec_reserve n)"

text \<open>
  The loops of a table: the texts of one vector in order, and the rows by index, each with
  pointers to the texts of the same index.
\<close>

definition push_texts :: "(nat \<Rightarrow> nat) \<Rightarrow> text_member \<Rightarrow> string list \<Rightarrow> scratch \<Rightarrow> scratch" where
  "push_texts g m xs s = fold (push_text g m) xs s"

definition push_pairs ::
    "(nat \<Rightarrow> nat) \<Rightarrow> text_member \<Rightarrow> text_member \<Rightarrow> (string \<times> string) list \<Rightarrow> scratch \<Rightarrow> scratch" where
  "push_pairs g m1 m2 xs s = fold (\<lambda>(x, y) t. push_text g m2 y (push_text g m1 x t)) xs s"

definition push_rows ::
    "(nat \<Rightarrow> nat) \<Rightarrow> row_member \<Rightarrow> (scratch \<Rightarrow> nat \<Rightarrow> char_ptr crow) \<Rightarrow> nat \<Rightarrow> scratch \<Rightarrow> scratch" where
  "push_rows g m mk n s = fold (\<lambda>i t. push_row g m (mk t i) t) [0 ..< n] s"

definition push_all :: "(nat \<Rightarrow> nat) \<Rightarrow> row_member \<Rightarrow> char_ptr crow list \<Rightarrow> scratch \<Rightarrow> scratch" where
  "push_all g m rs s = fold (push_row g m) rs s"

section \<open>The tables\<close>

text \<open>
  What both kinds of session do with the storage once they have the data of a table, from the
  first \<open>clear\<close> or \<open>reserve\<close> after it to the answer.  \<open>g\<close> is the growth of vectors.
\<close>

definition lend_registers ::
    "(nat \<Rightarrow> nat) \<Rightarrow> (string \<times> u64) list \<Rightarrow> scratch \<Rightarrow> loan \<times> scratch" where
  "lend_registers g all s =
     (let s1 = push_texts g Reg_names (map fst all)
                 (reserve_texts Reg_names (length all) (clear_texts Reg_names s));
          s2 = push_rows g Reg_rows (\<lambda>t i. Register_row (c_str t Reg_names i) (snd (all ! i)) None) (length all)
                 (reserve_rows Reg_rows (length all) (clear_rows Reg_rows s1))
      in (lend s2 Reg_rows, s2))"

definition lend_modules :: "(nat \<Rightarrow> nat) \<Rightarrow> module_info list \<Rightarrow> scratch \<Rightarrow> loan \<times> scratch" where
  "lend_modules g ms s =
     (let s1 = push_texts g Module_names (map mod_name ms)
                 (reserve_texts Module_names (length ms) (clear_texts Module_names s));
          s2 = push_rows g Module_rows
                 (\<lambda>t i. Module_row (c_str t Module_names i) (mod_base (ms ! i)) (mod_size (ms ! i))) (length ms)
                 (reserve_rows Module_rows (length ms) (clear_rows Module_rows s1))
      in (lend s2 Module_rows, s2))"

definition lend_maps :: "(nat \<Rightarrow> nat) \<Rightarrow> mem_map list \<Rightarrow> scratch \<Rightarrow> loan \<times> scratch" where
  "lend_maps g ms s =
     (let s1 = push_texts g Map_names (map mm_name ms)
                 (reserve_texts Map_names (length ms) (clear_texts Map_names s));
          s2 = push_rows g Map_rows
                 (\<lambda>t i. Map_row (mm_start (ms ! i)) (mm_end (ms ! i)) (mm_perms (ms ! i)) (c_str t Map_names i))
                 (length ms) (reserve_rows Map_rows (length ms) (clear_rows Map_rows s1))
      in (lend s2 Map_rows, s2))"

definition lend_threads :: "(nat \<Rightarrow> nat) \<Rightarrow> thread_info list \<Rightarrow> scratch \<Rightarrow> loan \<times> scratch" where
  "lend_threads g ts s =
     (let s1 = push_all g Thread_rows
                 (map (\<lambda>t. Thread_row (ti_tid t) (ti_pc t) (if ti_current t then 1 else 0)) ts)
                 (reserve_rows Thread_rows (length ts) (clear_rows Thread_rows s))
      in (lend s1 Thread_rows, s1))"

text \<open>Sections, imports, exports, symbols and strings begin with cleared vectors.\<close>

definition lend_sections :: "(nat \<Rightarrow> nat) \<Rightarrow> bin_section list \<Rightarrow> scratch \<Rightarrow> loan \<times> scratch" where
  "lend_sections g secs s =
     (let s1 = push_texts g Section_names (map sec_name secs) (reserve_texts Section_names (length secs) s);
          s2 = push_rows g Section_rows
                 (\<lambda>t i. Section_row (c_str t Section_names i) (sec_vaddr (secs ! i)) (sec_vsize (secs ! i))
                    (sec_perms (secs ! i)))
                 (length secs) (reserve_rows Section_rows (length secs) s1)
      in (lend s2 Section_rows, s2))"

definition lend_imports :: "(nat \<Rightarrow> nat) \<Rightarrow> bin_import list \<Rightarrow> scratch \<Rightarrow> loan \<times> scratch" where
  "lend_imports g imps s =
     (let s1 = push_pairs g Import_names Import_libs (map (\<lambda>i. (imp_name i, imp_library i)) imps)
                 (reserve_texts Import_libs (length imps) (reserve_texts Import_names (length imps) s));
          s2 = push_rows g Import_rows
                 (\<lambda>t i. Import_row (c_str t Import_names i) (c_str t Import_libs i) (imp_iat_addr (imps ! i)))
                 (length imps) (reserve_rows Import_rows (length imps) s1)
      in (lend s2 Import_rows, s2))"

definition lend_exports :: "(nat \<Rightarrow> nat) \<Rightarrow> bin_export list \<Rightarrow> scratch \<Rightarrow> loan \<times> scratch" where
  "lend_exports g exps s =
     (let s1 = push_texts g Export_names (map exp_name exps) (reserve_texts Export_names (length exps) s);
          s2 = push_rows g Export_rows
                 (\<lambda>t i. Export_row (c_str t Export_names i) (exp_addr (exps ! i)) (exp_ordinal (exps ! i)))
                 (length exps) (reserve_rows Export_rows (length exps) s1)
      in (lend s2 Export_rows, s2))"

definition lend_symbols :: "(nat \<Rightarrow> nat) \<Rightarrow> bin_symbol list \<Rightarrow> scratch \<Rightarrow> loan \<times> scratch" where
  "lend_symbols g syms s =
     (let s1 = push_pairs g Symbol_names Symbol_kinds (map (\<lambda>y. (sym_name y, sym_kind y)) syms)
                 (reserve_texts Symbol_kinds (length syms) (reserve_texts Symbol_names (length syms) s));
          s2 = push_rows g Symbol_rows
                 (\<lambda>t i. Symbol_row (c_str t Symbol_names i) (sym_addr (syms ! i)) (c_str t Symbol_kinds i))
                 (length syms) (reserve_rows Symbol_rows (length syms) s1)
      in (lend s2 Symbol_rows, s2))"

definition lend_strings :: "(nat \<Rightarrow> nat) \<Rightarrow> found_string list \<Rightarrow> scratch \<Rightarrow> loan \<times> scratch" where
  "lend_strings g found s =
     (let s1 = push_texts g String_texts (map fs_text found) (reserve_texts String_texts (length found) s);
          s2 = push_rows g String_rows (\<lambda>t i. String_row (fs_addr (found ! i)) (c_str t String_texts i))
                 (length found) (reserve_rows String_rows (length found) s1)
      in (lend s2 String_rows, s2))"

definition lend_functions :: "(nat \<Rightarrow> nat) \<Rightarrow> func list \<Rightarrow> scratch \<Rightarrow> loan \<times> scratch" where
  "lend_functions g fns s =
     (let s0 = clear_texts Function_names (clear_rows Function_rows s);
          s1 = push_texts g Function_names (map fn_name fns) (reserve_texts Function_names (length fns) s0);
          s2 = push_rows g Function_rows
                 (\<lambda>t i. Function_row (fn_addr (fns ! i)) (fn_size (fns ! i)) (c_str t Function_names i)
                    (length (fn_blocks (fns ! i))))
                 (length fns) (reserve_rows Function_rows (length fns) s1)
      in (lend s2 Function_rows, s2))"

fun block_pushes :: "(nat \<Rightarrow> nat) \<Rightarrow> u64 \<Rightarrow> func list \<Rightarrow> scratch \<Rightarrow> scratch" where
  "block_pushes g addr [] s = s"
| "block_pushes g addr (fn # fns) s =
     (if fn_addr fn \<noteq> addr then block_pushes g addr fns s
      else push_all g Block_rows (map (\<lambda>b. Block_row (bb_addr b) (bb_size b) (bb_jump b) (bb_fail b)) (fn_blocks fn))
             (reserve_rows Block_rows (length (fn_blocks fn)) s))"

definition lend_blocks :: "(nat \<Rightarrow> nat) \<Rightarrow> u64 \<Rightarrow> func list \<Rightarrow> scratch \<Rightarrow> loan \<times> scratch" where
  "lend_blocks g addr fns s =
     (let s1 = block_pushes g addr fns (clear_rows Block_rows s) in (lend s1 Block_rows, s1))"

definition lend_xrefs :: "(nat \<Rightarrow> nat) \<Rightarrow> u64 \<Rightarrow> xref list \<Rightarrow> scratch \<Rightarrow> loan \<times> scratch" where
  "lend_xrefs g addr xs s =
     (let s1 = fold (\<lambda>x t. if xr_to x \<noteq> addr then t
                           else push_row g Xref_rows (Xref_row (xr_from x) (xr_to x) (xref_code (xr_kind x))) t)
                 xs (clear_rows Xref_rows s)
      in (lend s1 Xref_rows, s1))"

text \<open>Instructions: what is cleared first, what is reserved, and one turn of the loop.\<close>

definition clear_insns :: "scratch \<Rightarrow> scratch" where
  "clear_insns s =
     clear_texts Insn_annot (clear_texts Insn_bytes (clear_texts Insn_text (clear_rows Insn_rows s)))"

definition reserve_insns :: "nat \<Rightarrow> scratch \<Rightarrow> scratch" where
  "reserve_insns n s =
     reserve_rows Insn_rows n
       (reserve_texts Insn_annot n (reserve_texts Insn_bytes n (reserve_texts Insn_text n s)))"

definition push_insn ::
    "(nat \<Rightarrow> nat) \<Rightarrow> bytes \<Rightarrow> u64 \<Rightarrow> string option \<Rightarrow> instruction \<Rightarrow> scratch \<Rightarrow> scratch" where
  "push_insn g bs addr name insn s =
     (let s1 = push_text g Insn_text (in_text insn) s;
          s2 = push_text g Insn_bytes (format_bytes (insn_chunk bs addr insn)) s1
      in case (case name of
                 None \<Rightarrow> (None, s2)
               | Some x \<Rightarrow> (let t = push_text g Insn_annot x s2 in (Some (back_str t Insn_annot), t))) of
           (annot, s3) \<Rightarrow>
             push_row g Insn_rows
               (Insn_row (in_address insn) (back_str s3 Insn_text) annot (back_str s3 Insn_bytes)) s3)"

section \<open>Values of the vectors\<close>

definition tv :: "scratch \<Rightarrow> text_member \<Rightarrow> string list" where
  "tv s m = vec_values (sp_texts s m)"

definition rv :: "scratch \<Rightarrow> row_member \<Rightarrow> char_ptr crow list" where
  "rv s m = vec_values (sp_rows s m)"

named_theorems storage_values

lemma tv_on_rows [storage_values]: "tv (on_rows m f s) = tv s" "sp_texts (on_rows m f s) = sp_texts s"
  by (auto simp: fun_eq_iff tv_def on_rows_def split: prod.split)

lemma rv_on_texts [storage_values]: "rv (on_texts m f s) = rv s" "sp_rows (on_texts m f s) = sp_rows s"
  by (auto simp: fun_eq_iff rv_def on_texts_def split: prod.split)

lemma vec_values_ops:
  "vec_values (fst (vec_push g x v k)) = vec_values v @ [x]" "vec_values (fst (vec_clear v k)) = []"
  "vec_values (fst (vec_reserve n v k)) = vec_values v"
  by (auto simp: vec_push_def vec_clear_def vec_reserve_def vec_move_def vec_values_def Let_def)

lemma tv_on_texts: "tv (on_texts m f s) = (tv s)(m := vec_values (fst (f (sp_texts s m) (sp_next s))))"
  by (auto simp: fun_eq_iff tv_def on_texts_def split: prod.split)

lemma rv_on_rows: "rv (on_rows m f s) = (rv s)(m := vec_values (fst (f (sp_rows s m) (sp_next s))))"
  by (auto simp: fun_eq_iff rv_def on_rows_def split: prod.split)

lemma values_ops [storage_values]:
  "tv (push_text g m x s) = (tv s)(m := tv s m @ [x])" "rv (push_text g m x s) = rv s"
  "tv (clear_texts m s) = (tv s)(m := [])" "rv (clear_texts m s) = rv s"
  "tv (reserve_texts m n s) = tv s" "rv (reserve_texts m n s) = rv s"
  "rv (push_row g r y s) = (rv s)(r := rv s r @ [y])" "tv (push_row g r y s) = tv s"
  "rv (clear_rows r s) = (rv s)(r := [])" "tv (clear_rows r s) = tv s"
  "rv (reserve_rows r n s) = rv s" "tv (reserve_rows r n s) = tv s"
  unfolding push_text_def clear_texts_def reserve_texts_def push_row_def clear_rows_def reserve_rows_def
    storage_values tv_on_texts rv_on_rows vec_values_ops
  by (simp_all only: tv_def [symmetric] rv_def [symmetric] fun_upd_triv)

lemma texts_of_row_ops [storage_values]:
  "sp_texts (push_row g r y s) = sp_texts s" "sp_texts (clear_rows r s) = sp_texts s"
  "sp_texts (reserve_rows r n s) = sp_texts s"
  by (simp_all add: push_row_def clear_rows_def reserve_rows_def storage_values)

lemma push_texts_values [storage_values]:
  "tv (push_texts g m xs s) = (tv s)(m := tv s m @ xs)" "rv (push_texts g m xs s) = rv s"
proof -
  have "tv (fold (push_text g m) xs s) = (tv s)(m := tv s m @ xs) \<and> rv (fold (push_text g m) xs s) = rv s"
    by (induction xs arbitrary: s) (simp_all add: storage_values)
  then show "tv (push_texts g m xs s) = (tv s)(m := tv s m @ xs)" "rv (push_texts g m xs s) = rv s"
    by (simp_all add: push_texts_def)
qed

lemma push_pairs_values [storage_values]:
  "m1 \<noteq> m2 \<Longrightarrow> tv (push_pairs g m1 m2 xs s) =
     (tv s)(m1 := tv s m1 @ map fst xs, m2 := tv s m2 @ map snd xs)"
  "rv (push_pairs g m1 m2 xs s) = rv s"
  unfolding push_pairs_def by (induction xs arbitrary: s) (auto simp: storage_values fun_eq_iff)

lemma push_all_values [storage_values]:
  "rv (push_all g m rs s) = (rv s)(m := rv s m @ rs)" "sp_texts (push_all g m rs s) = sp_texts s"
  unfolding push_all_def by (induction rs arbitrary: s) (simp_all add: storage_values)

text \<open>Rows that are made from the texts alone.\<close>

definition of_texts :: "(scratch \<Rightarrow> nat \<Rightarrow> char_ptr crow) \<Rightarrow> bool" where
  "of_texts mk \<longleftrightarrow> (\<forall>s t. sp_texts s = sp_texts t \<longrightarrow> mk s = mk t)"

lemma push_rows_values:
  assumes "of_texts mk"
  shows "rv (push_rows g m mk n s) = (rv s)(m := rv s m @ map (mk s) [0 ..< n])"
    "sp_texts (push_rows g m mk n s) = sp_texts s"
proof -
  have "rv (fold (\<lambda>i t. push_row g m (mk t i) t) is s) = (rv s)(m := rv s m @ map (mk s) is) \<and>
      sp_texts (fold (\<lambda>i t. push_row g m (mk t i) t) is s) = sp_texts s" for "is"
  proof (induction "is" arbitrary: s)
    case (Cons i "is")
    have "mk (push_row g m (mk s i) s) = mk s"
      using assms texts_of_row_ops(1) [of g m "mk s i" s] unfolding of_texts_def by blast
    moreover have "rv (push_row g m (mk s i) s) = (rv s)(m := rv s m @ [mk s i])" by (rule values_ops)
    ultimately show ?case using Cons [of "push_row g m (mk s i) s"]
      by (simp only: fold_Cons comp_apply texts_of_row_ops) (simp add: fun_eq_iff)
  qed simp
  then show "rv (push_rows g m mk n s) = (rv s)(m := rv s m @ map (mk s) [0 ..< n])"
    "sp_texts (push_rows g m mk n s) = sp_texts s"
    by (simp_all add: push_rows_def)
qed

lemma c_str_texts: "sp_texts s = sp_texts t \<Longrightarrow> c_str s = c_str t"
  by (simp add: fun_eq_iff c_str_def)

lemma row_at_texts: "sp_texts s = sp_texts t \<Longrightarrow> row_at s = row_at t"
  by (simp add: fun_eq_iff row_at_def text_at_def)

lemma those_Some: "those xs = Some ys \<longleftrightarrow> xs = map Some ys"
  by (induction xs arbitrary: ys) (auto split: option.splits simp: Cons_eq_map_conv)

lemma read_lend: "read_loan s (lend s m) = those (map (row_at s) (rv s m))"
  by (auto simp: read_loan_def lend_def rv_def vec_values_def Let_def)

section \<open>Storage in order\<close>

text \<open>Rows point only to texts of their own table.\<close>

fun text_owner :: "text_member \<Rightarrow> row_member" where
  "text_owner Reg_names = Reg_rows" | "text_owner Insn_text = Insn_rows" | "text_owner Insn_bytes = Insn_rows"
| "text_owner Insn_annot = Insn_rows" | "text_owner Module_names = Module_rows" | "text_owner Map_names = Map_rows"
| "text_owner Section_names = Section_rows" | "text_owner Import_names = Import_rows"
| "text_owner Import_libs = Import_rows" | "text_owner Export_names = Export_rows"
| "text_owner Symbol_names = Symbol_rows" | "text_owner Symbol_kinds = Symbol_rows"
| "text_owner String_texts = String_rows" | "text_owner Function_names = Function_rows"

definition own_row :: "row_member \<Rightarrow> char_ptr crow \<Rightarrow> bool" where
  "own_row m r \<longleftrightarrow> (\<forall>p \<in> set_crow r. text_owner (fst p) = m)"

definition scratch_ok :: "scratch \<Rightarrow> bool" where
  "scratch_ok s \<longleftrightarrow> (\<forall>m. vec_ok (sp_next s) (sp_texts s m)) \<and> (\<forall>m. vec_ok (sp_next s) (sp_rows s m)) \<and>
     (\<forall>m. \<forall>r \<in> set (rv s m). own_row m r)"

text \<open>Whatever is done touches one table only, and leaves the storage in order.\<close>

definition only :: "row_member \<Rightarrow> scratch \<Rightarrow> scratch \<Rightarrow> bool" where
  "only m s s1 \<longleftrightarrow> (\<forall>m'. m' \<noteq> m \<longrightarrow> sp_rows s1 m' = sp_rows s m') \<and>
     (\<forall>t. text_owner t \<noteq> m \<longrightarrow> sp_texts s1 t = sp_texts s t)"

definition works :: "row_member \<Rightarrow> scratch \<Rightarrow> scratch \<Rightarrow> bool" where
  "works m s s1 \<longleftrightarrow> (scratch_ok s \<longrightarrow> scratch_ok s1) \<and> only m s s1"

named_theorems works_steps

lemma works_refl [works_steps]: "works m s s"
  by (simp add: works_def only_def)

lemma works_trans: "works m s s1 \<Longrightarrow> works m s1 s2 \<Longrightarrow> works m s s2"
  by (simp add: works_def only_def)

lemma scratch_ok_init: "scratch_ok scratch_init"
  by (simp add: scratch_ok_def scratch_init_def vec_ok_init rv_def) (simp add: vec_values_def vec_init_def)

lemma on_texts_works:
  assumes f: "vec_safe f"
  shows "works (text_owner m) s (on_texts m f s)"
proof -
  obtain v k where v: "f (sp_texts s m) (sp_next s) = (v, k)" by fastforce
  have "scratch_ok (on_texts m f s)" if ok: "scratch_ok s"
  proof -
    have "vec_ok k v" "sp_next s \<le> k"
      using f ok v unfolding vec_safe_def scratch_ok_def by blast+
    then show ?thesis
      using ok v by (auto simp: scratch_ok_def on_texts_def rv_def intro: vec_ok_mono)
  qed
  then show ?thesis using v by (auto simp: works_def only_def on_texts_def)
qed

lemma on_rows_works:
  assumes f: "vec_safe f"
    and own: "\<And>r. r \<in> set (vec_values (fst (f (sp_rows s m) (sp_next s)))) \<Longrightarrow> r \<notin> set (rv s m) \<Longrightarrow> own_row m r"
  shows "works m s (on_rows m f s)"
proof -
  obtain v k where v: "f (sp_rows s m) (sp_next s) = (v, k)" by fastforce
  have "scratch_ok (on_rows m f s)" if ok: "scratch_ok s"
  proof -
    have "vec_ok k v" "sp_next s \<le> k"
      using f ok v unfolding vec_safe_def scratch_ok_def by blast+
    moreover have "own_row m r" if "r \<in> set (vec_values v)" for r
      using that own [of r] v ok by (auto simp: scratch_ok_def)
    ultimately show ?thesis
      using ok v by (auto simp: scratch_ok_def on_rows_def rv_def intro: vec_ok_mono)
  qed
  then show ?thesis using v by (auto simp: works_def only_def on_rows_def)
qed

lemma works_text_ops [works_steps]:
  "text_owner t = m \<Longrightarrow> works m s u \<Longrightarrow> works m s (push_text g t x u)"
  "text_owner t = m \<Longrightarrow> works m s u \<Longrightarrow> works m s (clear_texts t u)"
  "text_owner t = m \<Longrightarrow> works m s u \<Longrightarrow> works m s (reserve_texts t n u)"
  using works_trans on_texts_works by (auto simp: push_text_def clear_texts_def reserve_texts_def)

lemma works_row_ops [works_steps]:
  "own_row m r \<Longrightarrow> works m s u \<Longrightarrow> works m s (push_row g m r u)"
  "works m s u \<Longrightarrow> works m s (clear_rows m u)"
  "works m s u \<Longrightarrow> works m s (reserve_rows m n u)"
  by (rule works_trans, assumption,
      auto intro!: on_rows_works simp: push_row_def clear_rows_def reserve_rows_def vec_values_ops rv_def)+

lemma works_fold:
  "(\<And>x u. x \<in> set xs \<Longrightarrow> works m u (f x u)) \<Longrightarrow> works m s u \<Longrightarrow> works m s (fold f xs u)"
proof (induction xs arbitrary: u)
  case (Cons x xs)
  have "works m s (f x u)" by (rule works_trans [OF Cons.prems(2)]) (simp add: Cons.prems(1))
  with Cons show ?case by simp
qed simp

lemma works_loops [works_steps]:
  "text_owner t = m \<Longrightarrow> works m s u \<Longrightarrow> works m s (push_texts g t xs u)"
  "text_owner t1 = m \<Longrightarrow> text_owner t2 = m \<Longrightarrow> works m s u \<Longrightarrow> works m s (push_pairs g t1 t2 ps u)"
  "(\<And>v i. own_row m (mk v i)) \<Longrightarrow> works m s u \<Longrightarrow> works m s (push_rows g m mk n u)"
  "(\<And>r. r \<in> set rs \<Longrightarrow> own_row m r) \<Longrightarrow> works m s u \<Longrightarrow> works m s (push_all g m rs u)"
  unfolding push_texts_def push_pairs_def push_rows_def push_all_def
  by (rule works_fold; auto intro!: works_steps)+

lemma own_c_str [simp]: "fst (c_str s m i) = m" "fst (back_str s m) = m"
  by (simp_all add: c_str_def back_str_def)

section \<open>Every table is lent as it should be\<close>

text \<open>The contract of filling a table: only its vectors change and the array reads as \<open>rows\<close>.\<close>

definition lends :: "row_member \<Rightarrow> string crow list \<Rightarrow> scratch \<Rightarrow> loan \<times> scratch \<Rightarrow> bool" where
  "lends m rows s p \<longleftrightarrow> works m s (snd p) \<and> ln_table (fst p) = m \<and> read_loan (snd p) (fst p) = Some rows"

lemma lends_nothing: "works m s s1 \<Longrightarrow> lends m [] s (nothing m, s1)"
  by (simp add: lends_def nothing_def read_loan_def Let_def)

lemma text_at_c_str:
  "scratch_ok u \<Longrightarrow> i < length (tv u t) \<Longrightarrow> text_at u (c_str u t i) = Some (tv u t ! i)"
  unfolding scratch_ok_def text_at_def c_str_def tv_def by (auto intro: vec_at_nth)

lemma lends_ready:
  "works m s t \<Longrightarrow> map (row_at t) (rv t m) = map Some rows \<Longrightarrow> lends m rows s (lend t m, t)"
  by (simp add: lends_def read_lend those_Some) (simp add: lend_def Let_def)

lemma lends_rows:
  assumes w: "works m s u" and ok: "scratch_ok s" and mk: "of_texts mk" "\<And>v i. own_row m (mk v i)"
    and e: "rv u m = []" and r: "\<And>i. i < length xs \<Longrightarrow> scratch_ok u \<Longrightarrow> row_at u (mk u i) = Some (f (xs ! i))"
  shows "lends m (map f xs) s (lend (push_rows g m mk (length xs) u) m, push_rows g m mk (length xs) u)"
proof -
  let ?n = "length xs"
  let ?t = "push_rows g m mk ?n u"
  have u: "scratch_ok u" using w ok by (simp add: works_def)
  have "row_at ?t = row_at u" by (rule row_at_texts) (rule push_rows_values(2) [OF mk(1)])
  moreover have "rv ?t m = map (mk u) [0 ..< ?n]"
    using push_rows_values(1) [OF mk(1), of g m ?n u] e by simp
  ultimately have "map (row_at ?t) (rv ?t m) = map Some (map f xs)"
    using r [OF _ u] by (auto intro: nth_equalityI)
  moreover have "works m s ?t" using w mk(2) by (intro works_steps)
  ultimately show ?thesis by (intro lends_ready)
qed

lemma of_textsI: "(\<And>s t. sp_texts s = sp_texts t \<Longrightarrow> c_str s = c_str t \<Longrightarrow> mk s = mk t) \<Longrightarrow> of_texts mk"
  unfolding of_texts_def using c_str_texts by blast

lemmas lends_simps = storage_values text_at_c_str row_at_def own_row_def

lemma lends_registers:
  "scratch_ok s \<Longrightarrow> lends Reg_rows
     (map (\<lambda>r. Register_row (fst r) (snd r) None) all) s (lend_registers g all s)"
  unfolding lend_registers_def Let_def
  by (rule lends_rows; (intro works_steps of_textsI)?; simp add: lends_simps)

lemma lends_modules:
  "scratch_ok s \<Longrightarrow> lends Module_rows
     (map (\<lambda>m. Module_row (mod_name m) (mod_base m) (mod_size m)) ms) s (lend_modules g ms s)"
  unfolding lend_modules_def Let_def
  by (rule lends_rows; (intro works_steps of_textsI)?; simp add: lends_simps)

lemma lends_maps:
  "scratch_ok s \<Longrightarrow> lends Map_rows
     (map (\<lambda>m. Map_row (mm_start m) (mm_end m) (mm_perms m) (mm_name m)) ms) s (lend_maps g ms s)"
  unfolding lend_maps_def Let_def
  by (rule lends_rows; (intro works_steps of_textsI)?; simp add: lends_simps)

lemma lends_sections:
  "scratch_ok s \<Longrightarrow> rv s Section_rows = [] \<Longrightarrow> tv s Section_names = [] \<Longrightarrow> lends Section_rows
     (map (\<lambda>x. Section_row (sec_name x) (sec_vaddr x) (sec_vsize x) (sec_perms x)) secs) s (lend_sections g secs s)"
  unfolding lend_sections_def Let_def
  by (rule lends_rows; (intro works_steps of_textsI)?; simp add: lends_simps)

lemma lends_imports:
  "scratch_ok s \<Longrightarrow> rv s Import_rows = [] \<Longrightarrow> tv s Import_names = [] \<Longrightarrow> tv s Import_libs = [] \<Longrightarrow> lends Import_rows
     (map (\<lambda>x. Import_row (imp_name x) (imp_library x) (imp_iat_addr x)) imps) s (lend_imports g imps s)"
  unfolding lend_imports_def Let_def
  by (rule lends_rows; (intro works_steps of_textsI)?; simp add: lends_simps)

lemma lends_exports:
  "scratch_ok s \<Longrightarrow> rv s Export_rows = [] \<Longrightarrow> tv s Export_names = [] \<Longrightarrow> lends Export_rows
     (map (\<lambda>x. Export_row (exp_name x) (exp_addr x) (exp_ordinal x)) exps) s (lend_exports g exps s)"
  unfolding lend_exports_def Let_def
  by (rule lends_rows; (intro works_steps of_textsI)?; simp add: lends_simps)

lemma lends_symbols:
  "scratch_ok s \<Longrightarrow> rv s Symbol_rows = [] \<Longrightarrow> tv s Symbol_names = [] \<Longrightarrow> tv s Symbol_kinds = [] \<Longrightarrow> lends Symbol_rows
     (map (\<lambda>x. Symbol_row (sym_name x) (sym_addr x) (sym_kind x)) syms) s (lend_symbols g syms s)"
  unfolding lend_symbols_def Let_def
  by (rule lends_rows; (intro works_steps of_textsI)?; simp add: lends_simps)

lemma lends_strings:
  "scratch_ok s \<Longrightarrow> rv s String_rows = [] \<Longrightarrow> tv s String_texts = [] \<Longrightarrow> lends String_rows
     (map (\<lambda>x. String_row (fs_addr x) (fs_text x)) found) s (lend_strings g found s)"
  unfolding lend_strings_def Let_def
  by (rule lends_rows; (intro works_steps of_textsI)?; simp add: lends_simps)

lemma lends_functions:
  "scratch_ok s \<Longrightarrow> lends Function_rows
     (map (\<lambda>x. Function_row (fn_addr x) (fn_size x) (fn_name x) (length (fn_blocks x))) fns) s (lend_functions g fns s)"
  unfolding lend_functions_def Let_def
  by (rule lends_rows; (intro works_steps of_textsI)?; simp add: lends_simps)

text \<open>Rows without texts read the same everywhere.\<close>

lemma plain_rows [simp]:
  "row_at u (Thread_row tid pc cur) = Some (Thread_row tid pc cur)" "row_at u (Frame_row pc fp) = Some (Frame_row pc fp)"
  "row_at u (Block_row a n j f) = Some (Block_row a n j f)" "row_at u (Xref_row a b k) = Some (Xref_row a b k)"
  "own_row m (Thread_row tid pc cur)" "own_row m (Frame_row pc fp)" "own_row m (Block_row a n j f)"
  "own_row m (Xref_row a b k)"
  by (simp_all add: row_at_def own_row_def)

lemma lends_threads:
  "lends Thread_rows (map (\<lambda>t. Thread_row (ti_tid t) (ti_pc t) (if ti_current t then 1 else 0)) ts) s
     (lend_threads g ts s)"
  unfolding lend_threads_def Let_def
  by (rule lends_ready; (intro works_steps)?; auto simp: storage_values)

lemma block_pushes_step:
  "works Block_rows s u \<Longrightarrow> rv u Block_rows = [] \<Longrightarrow> works Block_rows s (block_pushes g addr fns u) \<and>
   map (row_at t) (rv (block_pushes g addr fns u) Block_rows) =
     map (\<lambda>b. Some (Block_row (ab_addr b) (ab_size b) (ab_jump b) (ab_fail b))) (function_blocks_rows addr fns)"
  by (induction fns) (auto intro!: works_steps simp: storage_values block_row_def)

lemma lends_blocks:
  "lends Block_rows (map (\<lambda>b. Block_row (ab_addr b) (ab_size b) (ab_jump b) (ab_fail b)) (function_blocks_rows addr fns))
     s (lend_blocks g addr fns s)"
  unfolding lend_blocks_def Let_def
  by (rule lends_ready; use block_pushes_step [of s "clear_rows Block_rows s"] in
      \<open>simp add: works_steps storage_values\<close>)

lemma lends_xrefs:
  "lends Xref_rows (map (\<lambda>x. Xref_row (ax_from x) (ax_to x) (ax_kind x)) (xrefs_to_rows addr xs)) s (lend_xrefs g addr xs s)"
proof -
  let ?f = "\<lambda>x t. if xr_to x \<noteq> addr then t else push_row g Xref_rows (Xref_row (xr_from x) (xr_to x) (xref_code (xr_kind x))) t"
  have "map (row_at t) (rv (fold ?f xs u) Xref_rows) = map (row_at t) (rv u Xref_rows) @
      map (\<lambda>x. Some (Xref_row (ax_from x) (ax_to x) (ax_kind x))) (xrefs_to_rows addr xs)" for t u
    by (induction xs arbitrary: u) (auto simp: xrefs_to_rows_def xref_row_def storage_values)
  then show ?thesis unfolding lend_xrefs_def Let_def
    by (intro lends_ready works_fold works_steps) (auto intro!: works_steps simp: storage_values)
qed

section \<open>Instructions: pointers taken while the vectors are filled\<close>

text \<open>
  The loop of \<open>disasm\<close> takes pointers to texts before the last text is there.  They stay good
  because room for all of them was reserved before.
\<close>

definition keeps_texts :: "scratch \<Rightarrow> scratch \<Rightarrow> bool" where
  "keeps_texts u w \<longleftrightarrow> (\<forall>p x. text_at u p = Some x \<longrightarrow> text_at w p = Some x)"

lemma keeps_texts_refl [simp]: "keeps_texts u u"
  by (simp add: keeps_texts_def)

lemma keeps_texts_trans: "keeps_texts u w \<Longrightarrow> keeps_texts w x \<Longrightarrow> keeps_texts u x"
  by (simp add: keeps_texts_def)

lemma keeps_textsD: "keeps_texts u w \<Longrightarrow> text_at u p = Some x \<Longrightarrow> text_at w p = Some x"
  unfolding keeps_texts_def by blast

lemma row_at_keeps: "keeps_texts u w \<Longrightarrow> row_at u r = Some v \<Longrightarrow> row_at w r = Some v"
proof -
  assume k: "keeps_texts u w" and r: "row_at u r = Some v"
  have "\<forall>p \<in> set_crow r. text_at w p = text_at u p \<and> text_at u p \<noteq> None"
    using r keeps_textsD [OF k] by (force simp: row_at_def split: if_splits)
  then have "map_crow (\<lambda>p. the (text_at w p)) r = map_crow (\<lambda>p. the (text_at u p)) r"
    by (intro crow.map_cong0) simp
  with r \<open>\<forall>p \<in> set_crow r. _ p\<close> show ?thesis by (auto simp: row_at_def split: if_splits)
qed

definition room :: "scratch \<Rightarrow> text_member \<Rightarrow> nat" where
  "room u t = cv_cap (sp_texts u t) - length (tv u t)"

lemma push_text_in_room:
  assumes ok: "scratch_ok u" and r: "0 < room u t"
  shows "keeps_texts u (push_text g t x u)"
    "text_at (push_text g t x u) (back_str (push_text g t x u) t) = Some x"
    "room (push_text g t x u) t' = (if t' = t then room u t - 1 else room u t')"
    "t' \<noteq> t \<Longrightarrow> back_str (push_text g t x u) t' = back_str u t'"
proof -
  obtain v k where v: "vec_push g x (sp_texts u t) (sp_next u) = (v, k)" by fastforce
  have v_ok: "vec_ok (sp_next u) (sp_texts u t)" using ok by (simp add: scratch_ok_def)
  note p = push_ok [OF v_ok v]
  have free: "length (cv_objs (sp_texts u t)) < cv_cap (sp_texts u t)"
    using r by (simp add: room_def tv_def vec_values_def)
  have u1: "sp_texts (push_text g t x u) = (sp_texts u)(t := v)"
    by (simp add: push_text_def on_texts_def v)
  show "keeps_texts u (push_text g t x u)"
    using p(6) [OF free] vec_at_append [of "sp_texts u t" _ _ v]
    by (auto simp: keeps_texts_def text_at_def u1)
  show "text_at (push_text g t x u) (back_str (push_text g t x u) t) = Some x"
    using p(5) by (simp add: text_at_def back_str_def u1)
  show "room (push_text g t x u) t' = (if t' = t then room u t - 1 else room u t')"
    using p(6) [OF free] by (simp add: room_def u1 tv_def vec_values_def)
  show "t' \<noteq> t \<Longrightarrow> back_str (push_text g t x u) t' = back_str u t'"
    by (simp add: back_str_def u1)
qed

definition insn_crow :: "insn_row \<Rightarrow> string crow" where
  "insn_crow r = Insn_row (ir_address r) (ir_text r) (ir_annotation r) (ir_bytes r)"

definition insn_room :: "scratch \<Rightarrow> nat \<Rightarrow> bool" where
  "insn_room u n \<longleftrightarrow> n \<le> room u Insn_text \<and> n \<le> room u Insn_bytes \<and> n \<le> room u Insn_annot"

lemma push_insn_works: "works Insn_rows u (push_insn g bs addr name insn u)"
  unfolding push_insn_def Let_def
  by (cases name) (auto intro!: works_steps simp: own_row_def)

text \<open>The texts of one instruction, before its row is added.\<close>

definition push_insn_texts ::
    "(nat \<Rightarrow> nat) \<Rightarrow> string \<Rightarrow> string \<Rightarrow> string option \<Rightarrow> scratch \<Rightarrow> scratch" where
  "push_insn_texts g x y name u =
     (let s = push_text g Insn_bytes y (push_text g Insn_text x u)
      in case name of None \<Rightarrow> s | Some z \<Rightarrow> push_text g Insn_annot z s)"

lemma push_insn_texts_step:
  assumes ok: "scratch_ok u" and r: "insn_room u (Suc n)"
    and w: "w = push_insn_texts g x y name u"
  shows "insn_room w n" "keeps_texts u w" "rv w = rv u" "text_at w (back_str w Insn_text) = Some x"
    "text_at w (back_str w Insn_bytes) = Some y" "name = Some z \<Longrightarrow> text_at w (back_str w Insn_annot) = Some z"
proof -
  define s1 where "s1 = push_text g Insn_text x u"
  define s2 where "s2 = push_text g Insn_bytes y s1"
  have r0: "0 < room u Insn_text" using r by (simp add: insn_room_def)
  note p1 = push_text_in_room [OF ok r0, where g = g and x = x, folded s1_def]
  have ok1: "scratch_ok s1" and ok2: "scratch_ok s2"
    using ok works_text_ops(1) [OF _ works_refl] unfolding s1_def s2_def works_def by blast+
  have r1: "0 < room s1 Insn_bytes" using r p1(3) by (simp add: insn_room_def)
  note p2 = push_text_in_room [OF ok1 r1, where g = g and x = y, folded s2_def]
  have r2: "0 < room s2 Insn_annot" using r p1(3) p2(3) by (simp add: insn_room_def)
  have t1: "text_at s2 (back_str s2 Insn_text) = Some x"
    using keeps_textsD [OF p2(1) p1(2)] p2(4) [where t' = Insn_text] by simp
  have rooms: "room s2 Insn_text = room u Insn_text - 1" "room s2 Insn_bytes = room u Insn_bytes - 1"
    "room s2 Insn_annot = room u Insn_annot"
    using p1(3) p2(3) by simp_all
  have k2: "keeps_texts u s2" by (rule keeps_texts_trans [OF p1(1) p2(1)])
  have "insn_room w n \<and> keeps_texts u w \<and> rv w = rv u \<and> text_at w (back_str w Insn_text) = Some x \<and>
    text_at w (back_str w Insn_bytes) = Some y \<and> (name = Some z \<longrightarrow> text_at w (back_str w Insn_annot) = Some z)"
  proof (cases name)
    case None
    then have "w = s2" by (simp add: w push_insn_texts_def s1_def s2_def)
    moreover have "rv s2 = rv u" by (simp add: s1_def s2_def storage_values)
    moreover have "insn_room s2 n" using r unfolding insn_room_def rooms by linarith
    ultimately show ?thesis using None k2 t1 p2(2) by simp
  next
    case (Some a)
    then have w3: "w = push_text g Insn_annot a s2" by (simp add: w push_insn_texts_def s1_def s2_def)
    note p3 = push_text_in_room [OF ok2 r2, where g = g and x = a, folded w3]
    have "rv w = rv u" by (simp add: w3 s2_def s1_def storage_values)
    moreover have "keeps_texts u w" by (rule keeps_texts_trans [OF k2 p3(1)])
    moreover have "text_at w (back_str w Insn_text) = Some x" "text_at w (back_str w Insn_bytes) = Some y"
      using keeps_textsD [OF p3(1) t1] keeps_textsD [OF p3(1) p2(2)] p3(4) by simp_all
    moreover have "insn_room w n" using r unfolding insn_room_def p3(3) rooms by simp linarith
    ultimately show ?thesis using p3(2) Some by simp
  qed
  then show "insn_room w n" "keeps_texts u w" "rv w = rv u" "text_at w (back_str w Insn_text) = Some x"
    "text_at w (back_str w Insn_bytes) = Some y" "name = Some z \<Longrightarrow> text_at w (back_str w Insn_annot) = Some z"
    by blast+
qed

lemma push_insn_unfold:
  "push_insn g bs addr name insn u =
     (let w = push_insn_texts g (in_text insn) (format_bytes (insn_chunk bs addr insn)) name u
      in push_row g Insn_rows (Insn_row (in_address insn) (back_str w Insn_text)
           (map_option (\<lambda>_. back_str w Insn_annot) name) (back_str w Insn_bytes)) w)"
  by (cases name) (simp_all add: push_insn_def push_insn_texts_def Let_def)

lemma row_op_reads: "sp_texts w = sp_texts u \<Longrightarrow> text_at w = text_at u \<and> room w = room u"
  by (simp add: fun_eq_iff text_at_def room_def tv_def)

lemma push_insn_step:
  assumes ok: "scratch_ok u" and r: "insn_room u (Suc n)"
  shows "insn_room (push_insn g bs addr name insn u) n" "keeps_texts u (push_insn g bs addr name insn u)"
    "\<exists>p. rv (push_insn g bs addr name insn u) Insn_rows = rv u Insn_rows @ [p] \<and>
       row_at (push_insn g bs addr name insn u) p = Some (insn_crow (insn_row_of bs addr name insn))"
proof -
  define w where "w = push_insn_texts g (in_text insn) (format_bytes (insn_chunk bs addr insn)) name u"
  let ?p = "Insn_row (in_address insn) (back_str w Insn_text) (map_option (\<lambda>_. back_str w Insn_annot) name)
    (back_str w Insn_bytes)"
  let ?w = "push_insn g bs addr name insn u"
  note t = push_insn_texts_step [OF ok r w_def]
  have w1: "?w = push_row g Insn_rows ?p w" by (simp add: push_insn_unfold w_def Let_def)
  have reads: "text_at ?w = text_at w" "room ?w = room w"
    using row_op_reads [of ?w w] by (simp_all add: w1 storage_values)
  have rows: "row_at ?w = row_at w" by (rule row_at_texts) (simp add: w1 storage_values)
  show "insn_room ?w n" using t(1) reads by (simp add: insn_room_def)
  show "keeps_texts u ?w" using t(2) reads by (simp add: keeps_texts_def)
  have "rv ?w Insn_rows = rv u Insn_rows @ [?p]" using t(3) by (simp add: w1 storage_values)
  moreover have "row_at w ?p = Some (insn_crow (insn_row_of bs addr name insn))"
    using t(4,5) t(6) [of "the name"]
    by (cases name) (simp_all add: row_at_def insn_crow_def insn_row_of_def)
  then have "row_at ?w ?p = Some (insn_crow (insn_row_of bs addr name insn))" by (simp only: rows)
  ultimately show "\<exists>p. rv ?w Insn_rows = rv u Insn_rows @ [p] \<and>
      row_at ?w p = Some (insn_crow (insn_row_of bs addr name insn))" by blast
qed

lemma push_insn_loop:
  fixes g :: "nat \<Rightarrow> nat" and bs :: bytes and addr :: u64
  assumes "scratch_ok u" "insn_room u (length xs)" "map (row_at u) (rv u Insn_rows) = map Some rows"
  defines "step \<equiv> \<lambda>x. push_insn g bs addr (fst x) (snd x)"
  shows "map (row_at (fold step xs u)) (rv (fold step xs u) Insn_rows) =
    map Some (rows @ map (\<lambda>x. insn_crow (insn_row_of bs addr (fst x) (snd x))) xs)"
  using assms(1-3)
proof (induction xs arbitrary: u rows)
  case (Cons x xs)
  let ?w = "step x u" and ?r = "insn_crow (insn_row_of bs addr (fst x) (snd x))"
  have sx: "push_insn g bs addr (fst x) (snd x) u = ?w" by (simp add: step_def)
  note st = push_insn_step [OF Cons.prems(1) Cons.prems(2) [unfolded length_Cons], of g bs addr "fst x" "snd x",
      unfolded sx]
  have w: "scratch_ok ?w" using push_insn_works Cons.prems(1) unfolding works_def step_def by blast
  obtain p where p: "rv ?w Insn_rows = rv u Insn_rows @ [p]" "row_at ?w p = Some ?r"
    using st(3) by blast
  have "map (row_at ?w) (rv u Insn_rows) = map Some rows"
    using Cons.prems(3) row_at_keeps [OF st(2)] by (auto simp: list_eq_iff_nth_eq)
  then have "map (row_at ?w) (rv ?w Insn_rows) = map Some (rows @ [?r])" using p by simp
  with Cons.IH [OF w st(1) this] show ?case by simp
qed simp

lemma insns_ready:
  "works Insn_rows s (clear_insns s)" "works Insn_rows s (reserve_insns n (clear_insns s))"
  "rv (clear_insns s) Insn_rows = []" "rv (reserve_insns n (clear_insns s)) Insn_rows = []"
  by (auto simp: clear_insns_def reserve_insns_def storage_values intro!: works_steps)

lemma reserve_texts_room:
  "tv u t = [] \<Longrightarrow> n \<le> room (reserve_texts t n u) t" "t \<noteq> t1 \<Longrightarrow> room (reserve_texts t n u) t1 = room u t1"
  "room (reserve_rows m n u) t = room u t"
proof -
  obtain v k where v: "vec_reserve n (sp_texts u t) (sp_next u) = (v, k)" by fastforce
  show "tv u t = [] \<Longrightarrow> n \<le> room (reserve_texts t n u) t"
    using reserve_room(1,3) [OF v] by (simp add: room_def tv_def reserve_texts_def on_texts_def v)
  show "t \<noteq> t1 \<Longrightarrow> room (reserve_texts t n u) t1 = room u t1"
    by (simp add: room_def tv_def reserve_texts_def on_texts_def v)
  show "room (reserve_rows m n u) t = room u t"
    by (simp add: room_def tv_def storage_values)
qed

lemma insns_room: "insn_room (reserve_insns n (clear_insns s)) n"
  unfolding insn_room_def reserve_insns_def
  by (auto simp: reserve_texts_room clear_insns_def storage_values)

lemma lends_insns:
  fixes g :: "nat \<Rightarrow> nat" and bs :: bytes and addr :: u64 and xs :: "(string option \<times> instruction) list"
  assumes "scratch_ok s"
  defines "u \<equiv> fold (\<lambda>x. push_insn g bs addr (fst x) (snd x)) xs (reserve_insns (length xs) (clear_insns s))"
  shows "lends Insn_rows (map (\<lambda>x. insn_crow (insn_row_of bs addr (fst x) (snd x))) xs) s (lend u Insn_rows, u)"
proof (rule lends_ready)
  show "works Insn_rows s u"
    unfolding u_def by (rule works_fold [OF push_insn_works insns_ready(2)])
  have "scratch_ok (reserve_insns (length xs) (clear_insns s))"
    using insns_ready(2) assms unfolding works_def by blast
  from push_insn_loop [OF this insns_room, of "[]" g bs addr]
  show "map (row_at u) (rv u Insn_rows) = map Some (map (\<lambda>x. insn_crow (insn_row_of bs addr (fst x) (snd x))) xs)"
    by (simp add: u_def insns_ready)
qed

section \<open>How long a loan lasts\<close>

lemma loan_outlives:
  assumes "only m s s1" "ln_table l \<noteq> m" "scratch_ok s" "read_loan s l = Some rows"
  shows "read_loan s1 l = Some rows"
proof -
  have v: "sp_rows s1 (ln_table l) = sp_rows s (ln_table l)" using assms(1,2) by (simp add: only_def)
  have "row_at s1 r = row_at s r" if "r \<in> set (rv s (ln_table l))" for r
  proof -
    have "text_owner (fst p) = ln_table l" if "p \<in> set_crow r" for p
      using assms(3) \<open>r \<in> _\<close> that unfolding scratch_ok_def own_row_def by blast
    then have "text_at s1 p = text_at s p" if "p \<in> set_crow r" for p
      using that assms(1,2) by (simp add: text_at_def only_def)
    then show ?thesis by (auto simp: row_at_def intro!: crow.map_cong0)
  qed
  then have eq: "map (row_at s1) (take n (vec_values (sp_rows s (ln_table l)))) =
      map (row_at s) (take n (vec_values (sp_rows s (ln_table l))))" for n
    by (auto simp: rv_def dest: in_set_takeD)
  have "read_loan s1 l = read_loan s l" unfolding read_loan_def v Let_def eq ..
  with assms(4) show ?thesis by simp
qed

text \<open>
  A table that is lent a second time, no longer than before, stays in its array: an old loan then
  reads the new rows.
\<close>

definition rows_at :: "scratch \<Rightarrow> row_member \<Rightarrow> nat \<times> nat" where
  "rows_at s m = (cv_buf (sp_rows s m), cv_cap (sp_rows s m))"

lemma push_row_in_place:
  assumes "scratch_ok u" "length (rv u m) < snd (rows_at u m)"
  shows "rows_at (push_row g m r u) m = rows_at u m"
proof -
  obtain v k where v: "vec_push g r (sp_rows u m) (sp_next u) = (v, k)" by fastforce
  have "vec_ok (sp_next u) (sp_rows u m)" using assms(1) by (simp add: scratch_ok_def)
  from push_ok(6) [OF this v] assms(2) show ?thesis
    by (simp add: rows_at_def push_row_def on_rows_def v rv_def vec_values_def)
qed

lemma push_rows_in_place:
  assumes mk: "of_texts mk" "\<And>v i. own_row m (mk v i)"
    and ok: "scratch_ok u" and r: "length (rv u m) + n \<le> snd (rows_at u m)"
  shows "rows_at (push_rows g m mk n u) m = rows_at u m"
proof -
  have "length (rv u m) + length is \<le> snd (rows_at u m) \<Longrightarrow> scratch_ok u \<Longrightarrow>
      rows_at (fold (\<lambda>i t. push_row g m (mk t i) t) is u) m = rows_at u m" for "is"
  proof (induction "is" arbitrary: u)
    case (Cons i "is")
    let ?w = "push_row g m (mk u i) u"
    have w: "rows_at ?w m = rows_at u m" using Cons.prems by (intro push_row_in_place) auto
    have ok: "scratch_ok ?w"
      using Cons.prems(2) works_row_ops(1) [OF mk(2) works_refl] unfolding works_def by blast
    have "length (rv ?w m) = Suc (length (rv u m))" by (simp add: storage_values)
    with Cons.IH [of ?w] Cons.prems(1) w ok show ?case by simp
  qed simp
  from this [of "[0 ..< n]"] ok r show ?thesis by (simp add: push_rows_def)
qed

lemma reserve_in_place: "n \<le> snd (rows_at u m) \<Longrightarrow> rows_at (reserve_rows m n u) m = rows_at u m"
  by (simp add: rows_at_def reserve_rows_def on_rows_def vec_reserve_def)

lemma rows_at_kept [simp]:
  "rows_at (push_texts g t xs u) m = rows_at u m" "rows_at (reserve_texts t n u) m = rows_at u m"
  "rows_at (clear_texts t u) m = rows_at u m" "rows_at (clear_rows m u) m = rows_at u m"
proof -
  have "sp_rows (fold (push_text g t) xs u) = sp_rows u"
    by (induction xs arbitrary: u) (simp_all add: push_text_def storage_values)
  then show "rows_at (push_texts g t xs u) m = rows_at u m" by (simp add: rows_at_def push_texts_def)
qed (simp_all add: rows_at_def reserve_texts_def clear_texts_def clear_rows_def on_rows_def vec_clear_def storage_values)

text \<open>Lending the same functions again, with room for them: the same array with the same rows.\<close>

lemma functions_in_place:
  assumes ok: "scratch_ok s" and n: "length fns \<le> snd (rows_at s Function_rows)"
  shows "rows_at (snd (lend_functions g fns s)) Function_rows = rows_at s Function_rows"
    "fst (lend_functions g fns s) =
       \<lparr>ln_table = Function_rows, ln_out = (if fns = [] then None else Some (fst (rows_at s Function_rows))),
        ln_count = length fns\<rparr>"
proof -
  let ?u = "reserve_rows Function_rows (length fns) (push_texts g Function_names (map fn_name fns)
    (reserve_texts Function_names (length fns) (clear_texts Function_names (clear_rows Function_rows s))))"
  let ?mk = "\<lambda>t i. Function_row (fn_addr (fns ! i)) (fn_size (fns ! i)) (c_str t Function_names i) (length (fn_blocks (fns ! i)))"
  have mk: "of_texts ?mk" "\<And>v i. own_row Function_rows (?mk v i)" by (auto intro!: of_textsI simp: own_row_def)
  have "works Function_rows s ?u" by (intro works_steps) simp_all
  then have u: "scratch_ok ?u" using ok by (simp add: works_def)
  have at: "rows_at ?u Function_rows = rows_at s Function_rows" using n by (simp add: reserve_in_place)
  have e: "rv ?u Function_rows = []" by (simp add: storage_values)
  have p: "rows_at (push_rows g Function_rows ?mk (length fns) ?u) Function_rows = rows_at s Function_rows"
    using push_rows_in_place [OF mk u, of "length fns" g] n at e by simp
  then show "rows_at (snd (lend_functions g fns s)) Function_rows = rows_at s Function_rows"
    by (simp add: lend_functions_def Let_def)
  have "length (rv (push_rows g Function_rows ?mk (length fns) ?u) Function_rows) = length fns"
    using push_rows_values(1) [OF mk(1)] e by simp
  then show "fst (lend_functions g fns s) =
       \<lparr>ln_table = Function_rows, ln_out = (if fns = [] then None else Some (fst (rows_at s Function_rows))),
        ln_count = length fns\<rparr>"
    using p by (auto simp: lend_functions_def Let_def lend_def rows_at_def rv_def vec_values_def)
qed

lemma functions_room:
  assumes ok: "scratch_ok s" and l: "lend_functions g fns s = (l, s1)"
  shows "length fns \<le> snd (rows_at s1 Function_rows)"
    "l = \<lparr>ln_table = Function_rows, ln_out = (if fns = [] then None else Some (fst (rows_at s1 Function_rows))),
      ln_count = length fns\<rparr>"
proof -
  let ?mk = "\<lambda>t i. Function_row (fn_addr (fns ! i)) (fn_size (fns ! i)) (c_str t Function_names i) (length (fn_blocks (fns ! i)))"
  have mk: "of_texts ?mk" by (auto intro!: of_textsI)
  have len: "length (vec_values (sp_rows s1 Function_rows)) = length fns"
    using l push_rows_values(1) [OF mk] by (auto simp: lend_functions_def Let_def storage_values rv_def [symmetric])
  have "scratch_ok s1" using lends_functions [OF ok, of fns g] ok l by (simp add: lends_def works_def)
  then have "vec_ok (sp_next s1) (sp_rows s1 Function_rows)" by (simp add: scratch_ok_def)
  with len show "length fns \<le> snd (rows_at s1 Function_rows)"
    by (simp add: vec_ok_def rows_at_def vec_values_def)
  have "l = lend s1 Function_rows" using l by (auto simp: lend_functions_def Let_def)
  with len show "l = \<lparr>ln_table = Function_rows, ln_out = (if fns = [] then None else Some (fst (rows_at s1 Function_rows))),
      ln_count = length fns\<rparr>"
    by (auto simp: lend_def Let_def rows_at_def vec_values_def)
qed

end
