(* ===== verification/Lent_Sessions.thy ===== *)
theory Lent_Sessions
  imports Borrowed_Rows Static_Session Core_Session
begin

text \<open>
  The entry points of capi_target.cpp and capi_static.cpp with the storage they lend out: the
  context of a session together with its vectors.  Data comes from the same functions as in
  \<open>Core_Session\<close> and \<open>Static_Session\<close>; the locale \<open>lender\<close> is the contract of a session towards
  the holder of a borrowed array, and both sessions interpret it.
\<close>

section \<open>The entry points of a live session\<close>

type_synonym 'c lent = "'c \<times> scratch"

definition lent_core_registers :: "(nat \<Rightarrow> nat) \<Rightarrow> 'b core_ctx lent \<Rightarrow> loan \<times> 'b core_ctx lent" where
  "lent_core_registers g cs =
     (case cs of (c, s) \<Rightarrow>
        (case lend_registers g (case tg_registers (cc_target c) of None \<Rightarrow> [] | Some regs \<Rightarrow> regs) s of
           (l, s1) \<Rightarrow> (l, c, s1)))"

text \<open>Modules, maps and threads: a query of the target that fails leaves the vectors alone.\<close>

definition lent_target ::
    "('b target \<Rightarrow> 'r list result \<times> 'b target) \<Rightarrow> row_member \<Rightarrow> ('r list \<Rightarrow> scratch \<Rightarrow> loan \<times> scratch) \<Rightarrow>
     'b core_ctx lent \<Rightarrow> loan \<times> 'b core_ctx lent" where
  "lent_target f m fill cs =
     (case cs of (c, s) \<Rightarrow>
        (case f (cc_target c) of
           (Err e, t1) \<Rightarrow> (nothing m, c\<lparr>cc_target := t1\<rparr>, s)
         | (Ok rs, t1) \<Rightarrow> (case fill rs s of (l, s1) \<Rightarrow> (l, c\<lparr>cc_target := t1\<rparr>, s1))))"

definition lent_core_modules ::
    "'b backend_ops \<Rightarrow> (nat \<Rightarrow> nat) \<Rightarrow> 'b core_ctx lent \<Rightarrow> loan \<times> 'b core_ctx lent" where
  "lent_core_modules ops g cs = lent_target (tg_modules ops) Module_rows (lend_modules g) cs"

definition lent_core_maps ::
    "'b backend_ops \<Rightarrow> (nat \<Rightarrow> nat) \<Rightarrow> 'b core_ctx lent \<Rightarrow> loan \<times> 'b core_ctx lent" where
  "lent_core_maps ops g cs = lent_target (tg_maps ops) Map_rows (lend_maps g) cs"

definition lent_core_threads ::
    "'b backend_ops \<Rightarrow> (nat \<Rightarrow> nat) \<Rightarrow> 'b core_ctx lent \<Rightarrow> loan \<times> 'b core_ctx lent" where
  "lent_core_threads ops g cs = lent_target (tg_threads ops) Thread_rows (lend_threads g) cs"

fun lent_core_insns ::
    "'b backend_ops \<Rightarrow> lief \<Rightarrow> (nat \<Rightarrow> nat) \<Rightarrow> bytes \<Rightarrow> u64 \<Rightarrow> instruction list \<Rightarrow> 'b core_ctx lent \<Rightarrow>
     'b core_ctx lent" where
  "lent_core_insns ops parse g bs addr [] cs = cs"
| "lent_core_insns ops parse g bs addr (insn # insns) (c, s) =
     (case (case operand_target insn of None \<Rightarrow> (None, c) | Some t \<Rightarrow> core_resolve_symbol ops parse t c) of
        (annot, c1) \<Rightarrow> lent_core_insns ops parse g bs addr insns (c1, push_insn g bs addr annot insn s))"

definition lent_core_disasm ::
    "'b backend_ops \<Rightarrow> lief \<Rightarrow> zydis \<Rightarrow> (nat \<Rightarrow> nat) \<Rightarrow> u64 \<Rightarrow> u64 \<Rightarrow> 'b core_ctx lent \<Rightarrow>
     loan \<times> 'b core_ctx lent" where
  "lent_core_disasm ops parse Z g addr n cs =
     (case cs of (c, s) \<Rightarrow>
        let s0 = clear_insns s in
        if n = 0 then (nothing Insn_rows, c, s0)
        else
          case live_read ops addr (n * kMaxInsnBytes) c of
            (Err e, c1) \<Rightarrow> (nothing Insn_rows, c1, s0)
          | (Ok bs, c1) \<Rightarrow>
              let insns = decode_linear Z bs addr (unat n) in
              (case lent_core_insns ops parse g bs addr insns (c1, reserve_insns (length insns) s0) of
                 (c2, s1) \<Rightarrow> (lend s1 Insn_rows, c2, s1)))"

fun lent_frames ::
    "'b backend_ops \<Rightarrow> (nat \<Rightarrow> nat) \<Rightarrow> nat \<Rightarrow> u64 \<Rightarrow> 'b core_ctx lent \<Rightarrow> 'b core_ctx lent" where
  "lent_frames ops g 0 fp cs = cs"
| "lent_frames ops g (Suc left) fp (c, s) =
     (case live_read ops fp 16 c of
        (Err e, c1) \<Rightarrow> (c1, s)
      | (Ok bs, c1) \<Rightarrow>
          if length bs < 16 then (c1, s)
          else
            let saved_rbp = u64_of_bytes (take 8 bs);
                ret_addr = u64_of_bytes (take 8 (drop 8 bs))
            in if saved_rbp \<le> fp \<or> ret_addr = 0 then (c1, s)
               else lent_frames ops g left saved_rbp (c1, push_row g Frame_rows (Frame_row ret_addr saved_rbp) s))"

definition lent_core_backtrace ::
    "'b backend_ops \<Rightarrow> (nat \<Rightarrow> nat) \<Rightarrow> 'b core_ctx lent \<Rightarrow> loan \<times> 'b core_ctx lent" where
  "lent_core_backtrace ops g cs =
     (case cs of (c, s) \<Rightarrow>
        let pc = live_register c ''rip''; fp = live_register c ''rbp'';
            s1 = push_row g Frame_rows (Frame_row pc fp) (clear_rows Frame_rows s)
        in case lent_frames ops g kMaxBacktraceFrames fp (c, s1) of
             (c1, s2) \<Rightarrow> (lend s2 Frame_rows, c1, s2))"

definition lent_core_breakpoints :: "'b core_ctx lent \<Rightarrow> loan \<times> 'b core_ctx lent" where
  "lent_core_breakpoints cs = (lend (snd cs) Bp_rows, cs)"

text \<open>The tables of the main module's file.\<close>

definition lent_parsed ::
    "'b backend_ops \<Rightarrow> lief \<Rightarrow> row_member \<Rightarrow> (binary_info \<Rightarrow> scratch \<Rightarrow> loan \<times> scratch) \<Rightarrow>
     'b core_ctx lent \<Rightarrow> loan \<times> 'b core_ctx lent" where
  "lent_parsed ops parse m fill cs =
     (case cs of (c, s) \<Rightarrow>
        (case ensure_binary_parsed ops parse c of
           (known, c1) \<Rightarrow>
             if \<not> known then (nothing m, c1, s)
             else case fill (cc_main_bin c1) s of (l, s1) \<Rightarrow> (l, c1, s1)))"

definition lent_core_sections ::
    "'b backend_ops \<Rightarrow> lief \<Rightarrow> (nat \<Rightarrow> nat) \<Rightarrow> 'b core_ctx lent \<Rightarrow> loan \<times> 'b core_ctx lent" where
  "lent_core_sections ops parse g cs =
     lent_parsed ops parse Section_rows (\<lambda>b. lend_sections g (bi_sections b))
       (fst cs, clear_texts Section_names (clear_rows Section_rows (snd cs)))"

definition lent_core_imports ::
    "'b backend_ops \<Rightarrow> lief \<Rightarrow> (nat \<Rightarrow> nat) \<Rightarrow> 'b core_ctx lent \<Rightarrow> loan \<times> 'b core_ctx lent" where
  "lent_core_imports ops parse g cs =
     lent_parsed ops parse Import_rows (\<lambda>b. lend_imports g (bi_imports b))
       (fst cs, clear_texts Import_libs (clear_texts Import_names (clear_rows Import_rows (snd cs))))"

definition lent_core_exports ::
    "'b backend_ops \<Rightarrow> lief \<Rightarrow> (nat \<Rightarrow> nat) \<Rightarrow> 'b core_ctx lent \<Rightarrow> loan \<times> 'b core_ctx lent" where
  "lent_core_exports ops parse g cs =
     lent_parsed ops parse Export_rows (\<lambda>b. lend_exports g (bi_exports b))
       (fst cs, clear_texts Export_names (clear_rows Export_rows (snd cs)))"

definition lent_core_symbols ::
    "'b backend_ops \<Rightarrow> lief \<Rightarrow> (nat \<Rightarrow> nat) \<Rightarrow> 'b core_ctx lent \<Rightarrow> loan \<times> 'b core_ctx lent" where
  "lent_core_symbols ops parse g cs =
     lent_parsed ops parse Symbol_rows (\<lambda>b. lend_symbols g (bi_symbols b))
       (fst cs, clear_texts Symbol_kinds (clear_texts Symbol_names (clear_rows Symbol_rows (snd cs))))"

definition lent_core_strings ::
    "'b backend_ops \<Rightarrow> (nat \<Rightarrow> nat) \<Rightarrow> 'b core_ctx lent \<Rightarrow> loan \<times> 'b core_ctx lent" where
  "lent_core_strings ops g cs =
     (case cs of (c, s) \<Rightarrow>
        let s0 = clear_texts String_texts (clear_rows String_rows s) in
        case tg_modules ops (cc_target c) of
          (modules, t1) \<Rightarrow>
            let c1 = c\<lparr>cc_target := t1\<rparr> in
            (case modules of
               Err e \<Rightarrow> (nothing String_rows, c1, s0)
             | Ok ms \<Rightarrow>
                 (case ms of
                    [] \<Rightarrow> (nothing String_rows, c1, s0)
                  | m # rest \<Rightarrow>
                      let len = (if mod_size m < kStringsScanCap then mod_size m else kStringsScanCap) in
                      if len = 0 then (nothing String_rows, c1, s0)
                      else
                        case live_read ops (mod_base m) len c1 of
                          (Err e, c2) \<Rightarrow> (nothing String_rows, c2, s0)
                        | (Ok bs, c2) \<Rightarrow>
                            (case lend_strings g (scan_strings bs (mod_base m) 4) s0 of
                               (l, s1) \<Rightarrow> (l, c2, s1)))))"

text \<open>The calls that answer from the results of an analysis, which is the same in both sessions.\<close>

definition lent_analysis ::
    "(analysis_result \<Rightarrow> scratch \<Rightarrow> loan \<times> scratch) \<Rightarrow> ('c \<Rightarrow> analysis_result) \<Rightarrow> 'c lent \<Rightarrow> loan \<times> 'c lent" where
  "lent_analysis fill results cs =
     (case fill (results (fst cs)) (snd cs) of (l, s1) \<Rightarrow> (l, fst cs, s1))"

definition lent_core_functions :: "(nat \<Rightarrow> nat) \<Rightarrow> 'b core_ctx lent \<Rightarrow> loan \<times> 'b core_ctx lent" where
  "lent_core_functions g cs = lent_analysis (\<lambda>a. lend_functions g (ar_functions a)) cc_analysis cs"

definition lent_core_function_blocks ::
    "(nat \<Rightarrow> nat) \<Rightarrow> u64 \<Rightarrow> 'b core_ctx lent \<Rightarrow> loan \<times> 'b core_ctx lent" where
  "lent_core_function_blocks g addr cs = lent_analysis (\<lambda>a. lend_blocks g addr (ar_functions a)) cc_analysis cs"

definition lent_core_xrefs_to :: "(nat \<Rightarrow> nat) \<Rightarrow> u64 \<Rightarrow> 'b core_ctx lent \<Rightarrow> loan \<times> 'b core_ctx lent" where
  "lent_core_xrefs_to g addr cs = lent_analysis (\<lambda>a. lend_xrefs g addr (ar_xrefs a)) cc_analysis cs"

section \<open>The entry points of a static session\<close>

text \<open>Registers, maps, threads, frames and breakpoints of a file: nothing to lend.\<close>

definition lent_static_nothing :: "row_member \<Rightarrow> static_ctx lent \<Rightarrow> loan \<times> static_ctx lent" where
  "lent_static_nothing m cs = (nothing m, cs)"

definition lent_static_modules :: "(nat \<Rightarrow> nat) \<Rightarrow> static_ctx lent \<Rightarrow> loan \<times> static_ctx lent" where
  "lent_static_modules g cs =
     (case cs of (c, s) \<Rightarrow>
        let s1 = push_text g Module_names (bi_path (sc_bin c))
                   (clear_texts Module_names (clear_rows Module_rows s));
            span = image_span (bi_sections (sc_bin c)); base = bi_image_base (sc_bin c);
            size = (if span > base then span - base else span);
            s2 = push_row g Module_rows (Module_row (c_str s1 Module_names 0) base size) s1
        in (lend s2 Module_rows, c, s2))"

definition lent_static_disasm ::
    "zydis \<Rightarrow> (nat \<Rightarrow> nat) \<Rightarrow> u64 \<Rightarrow> u64 \<Rightarrow> static_ctx lent \<Rightarrow> loan \<times> static_ctx lent" where
  "lent_static_disasm Z g addr n cs =
     (case cs of (c, s) \<Rightarrow>
        let s0 = clear_insns s in
        if n = 0 then (nothing Insn_rows, c, s0)
        else
          let bs = read_at c addr (unat (n * kMaxInsnBytes)) in
          if length bs = 0 then (nothing Insn_rows, c, s0)
          else
            let insns = decode_linear Z bs addr (unat n);
                s1 = fold (\<lambda>insn. push_insn g bs addr (static_annotation c insn) insn) insns
                       (reserve_insns (length insns) s0)
            in (lend s1 Insn_rows, c, s1))"

definition lent_static_sections :: "(nat \<Rightarrow> nat) \<Rightarrow> static_ctx lent \<Rightarrow> loan \<times> static_ctx lent" where
  "lent_static_sections g cs =
     (case cs of (c, s) \<Rightarrow>
        (case lend_sections g (bi_sections (sc_bin c)) (clear_texts Section_names (clear_rows Section_rows s)) of
           (l, s1) \<Rightarrow> (l, c, s1)))"

definition lent_static_imports :: "(nat \<Rightarrow> nat) \<Rightarrow> static_ctx lent \<Rightarrow> loan \<times> static_ctx lent" where
  "lent_static_imports g cs =
     (case cs of (c, s) \<Rightarrow>
        (case lend_imports g (bi_imports (sc_bin c))
                (clear_texts Import_libs (clear_texts Import_names (clear_rows Import_rows s))) of
           (l, s1) \<Rightarrow> (l, c, s1)))"

definition lent_static_exports :: "(nat \<Rightarrow> nat) \<Rightarrow> static_ctx lent \<Rightarrow> loan \<times> static_ctx lent" where
  "lent_static_exports g cs =
     (case cs of (c, s) \<Rightarrow>
        (case lend_exports g (bi_exports (sc_bin c)) (clear_texts Export_names (clear_rows Export_rows s)) of
           (l, s1) \<Rightarrow> (l, c, s1)))"

definition lent_static_symbols :: "(nat \<Rightarrow> nat) \<Rightarrow> static_ctx lent \<Rightarrow> loan \<times> static_ctx lent" where
  "lent_static_symbols g cs =
     (case cs of (c, s) \<Rightarrow>
        (case lend_symbols g (bi_symbols (sc_bin c))
                (clear_texts Symbol_kinds (clear_texts Symbol_names (clear_rows Symbol_rows s))) of
           (l, s1) \<Rightarrow> (l, c, s1)))"

definition lent_static_strings :: "(nat \<Rightarrow> nat) \<Rightarrow> static_ctx lent \<Rightarrow> loan \<times> static_ctx lent" where
  "lent_static_strings g cs =
     (case cs of (c, s) \<Rightarrow>
        (case lend_strings g (scan_strings (sc_image c) (bi_image_base (sc_bin c)) 4)
                (clear_texts String_texts (clear_rows String_rows s)) of
           (l, s1) \<Rightarrow> (l, c, s1)))"

definition lent_static_functions :: "(nat \<Rightarrow> nat) \<Rightarrow> static_ctx lent \<Rightarrow> loan \<times> static_ctx lent" where
  "lent_static_functions g cs = lent_analysis (\<lambda>a. lend_functions g (ar_functions a)) sc_analysis cs"

definition lent_static_function_blocks ::
    "(nat \<Rightarrow> nat) \<Rightarrow> u64 \<Rightarrow> static_ctx lent \<Rightarrow> loan \<times> static_ctx lent" where
  "lent_static_function_blocks g addr cs = lent_analysis (\<lambda>a. lend_blocks g addr (ar_functions a)) sc_analysis cs"

definition lent_static_xrefs_to :: "(nat \<Rightarrow> nat) \<Rightarrow> u64 \<Rightarrow> static_ctx lent \<Rightarrow> loan \<times> static_ctx lent" where
  "lent_static_xrefs_to g addr cs = lent_analysis (\<lambda>a. lend_xrefs g addr (ar_xrefs a)) sc_analysis cs"

section \<open>Calls\<close>

definition lending :: "loan \<times> 'c lent \<Rightarrow> loan option \<times> 'c lent" where
  "lending p = (Some (fst p), snd p)"

definition core_call ::
    "'b backend_ops \<Rightarrow> lief \<Rightarrow> zydis \<Rightarrow> (u64 list \<Rightarrow> u64 list) \<Rightarrow> nat \<Rightarrow> (nat \<Rightarrow> nat) \<Rightarrow>
     api_command + api_query \<Rightarrow> 'b core_ctx lent \<Rightarrow> loan option \<times> 'b core_ctx lent" where
  "core_call ops parse Z order fuel g x cs =
     (case x of
        Inl a \<Rightarrow> (None, core_command ops parse Z order fuel a (fst cs), snd cs)
      | Inr q \<Rightarrow>
          (case q of
             QRegisters \<Rightarrow> lending (lent_core_registers g cs)
           | QModules \<Rightarrow> lending (lent_core_modules ops g cs)
           | QMaps \<Rightarrow> lending (lent_core_maps ops g cs)
           | QThreads \<Rightarrow> lending (lent_core_threads ops g cs)
           | QDisasm a n \<Rightarrow> lending (lent_core_disasm ops parse Z g a n cs)
           | QBreakpoints \<Rightarrow> lending (lent_core_breakpoints cs)
           | QBacktrace \<Rightarrow> lending (lent_core_backtrace ops g cs)
           | QSections \<Rightarrow> lending (lent_core_sections ops parse g cs)
           | QImports \<Rightarrow> lending (lent_core_imports ops parse g cs)
           | QExports \<Rightarrow> lending (lent_core_exports ops parse g cs)
           | QSymbols \<Rightarrow> lending (lent_core_symbols ops parse g cs)
           | QStrings \<Rightarrow> lending (lent_core_strings ops g cs)
           | QFunctions \<Rightarrow> lending (lent_core_functions g cs)
           | QFunctionBlocks a \<Rightarrow> lending (lent_core_function_blocks g a cs)
           | QXrefsTo a \<Rightarrow> lending (lent_core_xrefs_to g a cs)
           | _ \<Rightarrow> (None, core_query ops parse Z q (fst cs), snd cs)))"

definition static_call ::
    "zydis \<Rightarrow> (u64 list \<Rightarrow> u64 list) \<Rightarrow> nat \<Rightarrow> (nat \<Rightarrow> nat) \<Rightarrow>
     api_command + api_query \<Rightarrow> static_ctx lent \<Rightarrow> loan option \<times> static_ctx lent" where
  "static_call Z order fuel g x cs =
     (case x of
        Inl a \<Rightarrow> (None, (case a of CAnalyze \<Rightarrow> static_analyze Z order fuel (fst cs) | _ \<Rightarrow> fst cs), snd cs)
      | Inr q \<Rightarrow>
          (case q of
             QRegisters \<Rightarrow> lending (lent_static_nothing Reg_rows cs)
           | QModules \<Rightarrow> lending (lent_static_modules g cs)
           | QMaps \<Rightarrow> lending (lent_static_nothing Map_rows cs)
           | QThreads \<Rightarrow> lending (lent_static_nothing Thread_rows cs)
           | QDisasm a n \<Rightarrow> lending (lent_static_disasm Z g a n cs)
           | QBreakpoints \<Rightarrow> lending (lent_static_nothing Bp_rows cs)
           | QBacktrace \<Rightarrow> lending (lent_static_nothing Frame_rows cs)
           | QSections \<Rightarrow> lending (lent_static_sections g cs)
           | QImports \<Rightarrow> lending (lent_static_imports g cs)
           | QExports \<Rightarrow> lending (lent_static_exports g cs)
           | QSymbols \<Rightarrow> lending (lent_static_symbols g cs)
           | QStrings \<Rightarrow> lending (lent_static_strings g cs)
           | QFunctions \<Rightarrow> lending (lent_static_functions g cs)
           | QFunctionBlocks a \<Rightarrow> lending (lent_static_function_blocks g a cs)
           | QXrefsTo a \<Rightarrow> lending (lent_static_xrefs_to g a cs)
           | _ \<Rightarrow> (None, cs)))"

text \<open>Which table a call lends.\<close>

fun lent_table :: "api_command + api_query \<Rightarrow> row_member option" where
  "lent_table (Inl a) = None"
| "lent_table (Inr q) =
     (case q of
        QRegisters \<Rightarrow> Some Reg_rows | QModules \<Rightarrow> Some Module_rows | QMaps \<Rightarrow> Some Map_rows
      | QThreads \<Rightarrow> Some Thread_rows | QDisasm a n \<Rightarrow> Some Insn_rows | QBreakpoints \<Rightarrow> Some Bp_rows
      | QBacktrace \<Rightarrow> Some Frame_rows | QSections \<Rightarrow> Some Section_rows | QImports \<Rightarrow> Some Import_rows
      | QExports \<Rightarrow> Some Export_rows | QSymbols \<Rightarrow> Some Symbol_rows | QStrings \<Rightarrow> Some String_rows
      | QFunctions \<Rightarrow> Some Function_rows | QFunctionBlocks a \<Rightarrow> Some Block_rows | QXrefsTo a \<Rightarrow> Some Xref_rows
      | _ \<Rightarrow> None)"

section \<open>The answers by value as rows\<close>

definition register_crow :: "api_register \<Rightarrow> string crow" where
  "register_crow r = Register_row (ar_name r) (ar_value r) (ar_hint r)"

definition module_crow :: "api_module \<Rightarrow> string crow" where
  "module_crow m = Module_row (am_name m) (am_base m) (am_size m)"

definition map_crow_of :: "api_map \<Rightarrow> string crow" where
  "map_crow_of m = Map_row (amm_start m) (amm_end m) (amm_perms m) (amm_name m)"

definition thread_crow :: "api_thread \<Rightarrow> string crow" where
  "thread_crow t = Thread_row (at_tid t) (at_pc t) (at_current t)"

definition frame_crow :: "api_frame \<Rightarrow> string crow" where
  "frame_crow f = Frame_row (af_pc f) (af_frame_ptr f)"

definition section_crow :: "api_section \<Rightarrow> string crow" where
  "section_crow x = Section_row (asec_name x) (asec_vaddr x) (asec_vsize x) (asec_perms x)"

definition import_crow :: "api_import \<Rightarrow> string crow" where
  "import_crow x = Import_row (ai_name x) (ai_library x) (ai_addr x)"

definition export_crow :: "api_export \<Rightarrow> string crow" where
  "export_crow x = Export_row (ae_name x) (ae_addr x) (ae_ordinal x)"

definition symbol_crow :: "api_symbol \<Rightarrow> string crow" where
  "symbol_crow x = Symbol_row (ay_name x) (ay_addr x) (ay_kind x)"

definition string_crow :: "api_string \<Rightarrow> string crow" where
  "string_crow x = String_row (ag_addr x) (ag_text x)"

definition function_crow :: "api_function \<Rightarrow> string crow" where
  "function_crow x = Function_row (afn_addr x) (afn_size x) (afn_name x) (afn_block_count x)"

definition block_crow :: "api_block \<Rightarrow> string crow" where
  "block_crow b = Block_row (ab_addr b) (ab_size b) (ab_jump b) (ab_fail b)"

definition xref_crow :: "api_xref \<Rightarrow> string crow" where
  "xref_crow x = Xref_row (ax_from x) (ax_to x) (ax_kind x)"

definition breakpoint_crow :: "api_breakpoint \<Rightarrow> string crow" where
  "breakpoint_crow b = Breakpoint_row (abp_address b) (abp_enabled b) (abp_type b)"

lemmas crow_defs =
  register_crow_def module_crow_def map_crow_of_def thread_crow_def frame_crow_def section_crow_def
  import_crow_def export_crow_def symbol_crow_def string_crow_def function_crow_def block_crow_def
  xref_crow_def breakpoint_crow_def insn_crow_def

text \<open>What the models without storage answer to a call.\<close>

definition core_answer ::
    "'b backend_ops \<Rightarrow> lief \<Rightarrow> zydis \<Rightarrow> api_query \<Rightarrow> 'b core_ctx \<Rightarrow> string crow list" where
  "core_answer ops parse Z q c =
     (case q of
        QRegisters \<Rightarrow> map register_crow (fst (core_registers c))
      | QModules \<Rightarrow> map module_crow (fst (core_modules ops c))
      | QMaps \<Rightarrow> map map_crow_of (fst (core_maps ops c))
      | QThreads \<Rightarrow> map thread_crow (fst (core_threads ops c))
      | QDisasm a n \<Rightarrow> map insn_crow (fst (core_disasm ops parse Z a n c))
      | QBreakpoints \<Rightarrow> map breakpoint_crow (fst (core_breakpoints c))
      | QBacktrace \<Rightarrow> map frame_crow (fst (core_backtrace ops c))
      | QSections \<Rightarrow> map section_crow (fst (core_sections ops parse c))
      | QImports \<Rightarrow> map import_crow (fst (core_imports ops parse c))
      | QExports \<Rightarrow> map export_crow (fst (core_exports ops parse c))
      | QSymbols \<Rightarrow> map symbol_crow (fst (core_symbols ops parse c))
      | QStrings \<Rightarrow> map string_crow (fst (core_strings ops c))
      | QFunctions \<Rightarrow> map function_crow (fst (core_functions c))
      | QFunctionBlocks a \<Rightarrow> map block_crow (fst (core_function_blocks a c))
      | QXrefsTo a \<Rightarrow> map xref_crow (fst (core_xrefs_to a c))
      | _ \<Rightarrow> [])"

definition static_answer :: "zydis \<Rightarrow> api_query \<Rightarrow> static_ctx \<Rightarrow> string crow list" where
  "static_answer Z q c =
     (case q of
        QModules \<Rightarrow> map module_crow (fst (static_modules c))
      | QDisasm a n \<Rightarrow> map insn_crow (fst (static_disasm Z a n c))
      | QSections \<Rightarrow> map section_crow (fst (static_sections c))
      | QImports \<Rightarrow> map import_crow (fst (static_imports c))
      | QExports \<Rightarrow> map export_crow (fst (static_exports c))
      | QSymbols \<Rightarrow> map symbol_crow (fst (static_symbols c))
      | QStrings \<Rightarrow> map string_crow (fst (static_strings c))
      | QFunctions \<Rightarrow> map function_crow (fst (static_functions c))
      | QFunctionBlocks a \<Rightarrow> map block_crow (fst (static_function_blocks a c))
      | QXrefsTo a \<Rightarrow> map xref_crow (fst (static_xrefs_to a c))
      | _ \<Rightarrow> [])"

section \<open>The contract of a session towards the holder of an array\<close>

text \<open>A call leaves context \<open>c1\<close>, and lends \<open>rows\<close> in table \<open>m\<close>.\<close>

definition gives :: "row_member \<Rightarrow> string crow list \<Rightarrow> 'c \<Rightarrow> scratch \<Rightarrow> loan \<times> 'c lent \<Rightarrow> bool" where
  "gives m rows c1 s p \<longleftrightarrow> fst (snd p) = c1 \<and> lends m rows s (fst p, snd (snd p))"

text \<open>
  \<open>call\<close> is a call with storage, \<open>plain\<close> its effect on the context without it and \<open>answer\<close> the
  rows it answers by value; \<open>fns\<close> are the functions of the last analysis.
\<close>

locale lender =
  fixes call :: "api_command + api_query \<Rightarrow> 'c lent \<Rightarrow> loan option \<times> 'c lent"
    and plain :: "api_command + api_query \<Rightarrow> 'c \<Rightarrow> 'c"
    and answer :: "api_query \<Rightarrow> 'c \<Rightarrow> string crow list"
    and fns :: "'c \<Rightarrow> func list"
    and grow :: "nat \<Rightarrow> nat"
    and ok :: "'c \<Rightarrow> scratch \<Rightarrow> bool"
  assumes in_order: "ok c s \<Longrightarrow> scratch_ok s"
    and ok_law: "ok c s \<Longrightarrow> call x (c, s) = (r, c1, s1) \<Longrightarrow> ok c1 s1"
    and none_law: "ok c s \<Longrightarrow> lent_table x = None \<Longrightarrow> call x (c, s) = (None, plain x c, s)"
    and give_law: "ok c s \<Longrightarrow> lent_table (Inr q) = Some m \<Longrightarrow>
      \<exists>p. call (Inr q) (c, s) = lending p \<and> gives m (answer q c) (plain (Inr q) c) s p"
    and functions_law: "ok c s \<Longrightarrow> call (Inr QFunctions) (c, s) =
      (Some (fst (lend_functions grow (fns c) s)), c, snd (lend_functions grow (fns c) s))"
    and results_law: "ok c s \<Longrightarrow> x \<noteq> Inl CAnalyze \<Longrightarrow> fns (plain x c) = fns c"
begin

lemma table_cases:
  assumes "ok c s" "call x (c, s) = (r, c1, s1)"
  obtains "lent_table x = None" "r = None" "c1 = plain x c" "s1 = s"
  | q l where "x = Inr q" "r = Some l" "lent_table x = Some (ln_table l)" "c1 = plain x c"
      "works (ln_table l) s s1" "read_loan s1 l = Some (answer q c)"
proof (cases "lent_table x")
  case None
  with none_law [OF assms(1) None] assms(2) show ?thesis using that(1) by simp
next
  case (Some m)
  then obtain q where q: "x = Inr q" by (cases x) auto
  from give_law [OF assms(1), of q m] Some q obtain p where
    "call (Inr q) (c, s) = lending p" "gives m (answer q c) (plain (Inr q) c) s p" by blast
  with assms(2) q Some show ?thesis
    using that(2) [of q "fst p"] by (auto simp: lending_def gives_def lends_def)
qed

lemma ctx_law: "ok c s \<Longrightarrow> call x (c, s) = (r, c1, s1) \<Longrightarrow> c1 = plain x c \<and> ok c1 s1"
  using table_cases ok_law by metis

lemma loan_law:
  "ok c s \<Longrightarrow> call x (c, s) = (Some l, c1, s1) \<Longrightarrow>
   \<exists>q. x = Inr q \<and> lent_table x = Some (ln_table l) \<and> read_loan s1 l = Some (answer q c)"
  by (erule (1) table_cases) auto

lemma touch_law:
  "ok c s \<Longrightarrow> call x (c, s) = (r, c1, s1) \<Longrightarrow>
   (case lent_table x of None \<Rightarrow> s1 = s | Some m1 \<Rightarrow> only m1 s s1)"
  by (erule (1) table_cases) (auto simp: works_def)

definition calls :: "(api_command + api_query) list \<Rightarrow> 'c lent \<Rightarrow> 'c lent" where
  "calls xs cs = fold (\<lambda>x t. snd (call x t)) xs cs"

lemma calls_Cons: "call x (c, s) = (r, c1, s1) \<Longrightarrow> calls (x # xs) (c, s) = calls xs (c1, s1)"
  by (simp add: calls_def)

lemma loan_stays:
  assumes "ok c s" "read_loan s l = Some rows" "\<forall>x \<in> set xs. lent_table x \<noteq> Some (ln_table l)"
  shows "read_loan (snd (calls xs (c, s))) l = Some rows"
  using assms
proof (induction xs arbitrary: c s)
  case (Cons x xs)
  obtain r c1 s1 where x: "call x (c, s) = (r, c1, s1)" by (metis prod.exhaust)
  have t: "lent_table x \<noteq> Some (ln_table l)" using Cons.prems(3) by simp
  have "read_loan s1 l = Some rows"
    using touch_law [OF Cons.prems(1) x] Cons.prems(2) t loan_outlives [OF _ _ in_order [OF Cons.prems(1)]]
    by (cases "lent_table x") auto
  moreover have "ok c1 s1" using ctx_law [OF Cons.prems(1) x] by blast
  ultimately show ?case using Cons.IH [of c1 s1] Cons.prems(3) calls_Cons [OF x] by simp
qed (simp add: calls_def)

lemma calls_ctx:
  "ok c s \<Longrightarrow> ok (fst (calls xs (c, s))) (snd (calls xs (c, s))) \<and> fst (calls xs (c, s)) = fold plain xs c"
proof (induction xs arbitrary: c s)
  case (Cons x xs)
  obtain r c1 s1 where x: "call x (c, s) = (r, c1, s1)" by (metis prod.exhaust)
  have "fold plain xs c1 = fold plain (x # xs) c" "ok c1 s1" using ctx_law [OF Cons.prems x] by auto
  then show ?case using Cons.IH [of c1 s1] unfolding calls_Cons [OF x] by metis
qed (simp add: calls_def)

text \<open>A borrowed array reads as answered until its table is asked for again.\<close>

lemma borrowed_array:
  assumes "ok c s" "call (Inr q) (c, s) = (Some l, c1, s1)"
    and "\<forall>y \<in> set ys. lent_table y \<noteq> lent_table (Inr q)"
  shows "read_loan (snd (calls ys (c1, s1))) l = Some (answer q c)"
proof -
  have "read_loan s1 l = Some (answer q c)" "lent_table (Inr q) = Some (ln_table l)"
    using loan_law [OF assms(1,2)] by auto
  moreover have "ok c1 s1" using ctx_law [OF assms(1,2)] by blast
  ultimately show ?thesis using assms(3) by (intro loan_stays) auto
qed

definition function_rows :: "'c \<Rightarrow> string crow list" where
  "function_rows c =
     map (\<lambda>x. Function_row (fn_addr x) (fn_size x) (fn_name x) (length (fn_blocks x))) (fns c)"

definition functions_held :: "'c \<Rightarrow> loan \<Rightarrow> 'c \<Rightarrow> scratch \<Rightarrow> bool" where
  "functions_held c l d t \<longleftrightarrow> ok d t \<and> fns d = fns c \<and> length (fns c) \<le> snd (rows_at t Function_rows) \<and>
     l = \<lparr>ln_table = Function_rows, ln_out = (if fns c = [] then None else Some (fst (rows_at t Function_rows))),
          ln_count = length (fns c)\<rparr> \<and> read_loan t l = Some (function_rows c)"

lemma functions_first:
  assumes "ok c s" "call (Inr QFunctions) (c, s) = (Some l, c1, s1)"
  shows "functions_held c l c1 s1" "read_loan s1 l = Some (answer QFunctions c)"
proof -
  have f: "lend_functions grow (fns c) s = (l, s1)" "c1 = c"
    using functions_law [OF assms(1)] assms(2) by (simp_all add: prod_eq_iff)
  have sc: "scratch_ok s" by (rule in_order [OF assms(1)])
  have "read_loan s1 l = Some (function_rows c)"
    using lends_functions [OF sc, of "fns c" grow] f by (simp add: lends_def function_rows_def)
  with functions_room [OF sc f(1)] f(2) ctx_law [OF assms] show "functions_held c l c1 s1"
    unfolding functions_held_def by blast
  show "read_loan s1 l = Some (answer QFunctions c)" using loan_law [OF assms] by auto
qed

lemma functions_table: "lent_table x = Some Function_rows \<longleftrightarrow> x = Inr QFunctions"
  by (cases x) (auto split: api_query.splits)

lemma functions_step:
  assumes h: "functions_held c l d t" and x: "call x (d, t) = (r, d1, t1)" and n: "x \<noteq> Inl CAnalyze"
  shows "functions_held c l d1 t1"
proof -
  have ok: "ok d t" and sc: "scratch_ok t" and k: "ok d1 t1" "fns d1 = fns c"
    using h in_order [of d t] ctx_law [OF _ x] results_law [OF _ n, of d t]
    unfolding functions_held_def by (blast, blast, blast, metis)
  have fns: "fns d = fns c" and room: "length (fns c) \<le> snd (rows_at t Function_rows)"
    and l0: "l = \<lparr>ln_table = Function_rows, ln_out = (if fns c = [] then None else Some (fst (rows_at t Function_rows))),
        ln_count = length (fns c)\<rparr>" and rd: "read_loan t l = Some (function_rows c)"
    using h unfolding functions_held_def by blast+
  have tab: "ln_table l = Function_rows" by (simp add: l0)
  show ?thesis
  proof (cases "x = Inr QFunctions")
    case True
    have f: "t1 = snd (lend_functions grow (fns c) t)" using functions_law [OF ok] x fns True by simp
    note p = functions_in_place [OF sc room, of grow]
    have l: "l = fst (lend_functions grow (fns c) t)" by (simp only: p(2) l0)
    have "read_loan t1 l = Some (function_rows c)"
      using lends_functions [OF sc, of "fns c" grow] unfolding f l lends_def function_rows_def by blast
    then show ?thesis using k room l0 p(1) unfolding functions_held_def f by simp
  next
    case False
    then have t: "lent_table x \<noteq> Some Function_rows" by (simp add: functions_table)
    have "sp_rows t1 Function_rows = sp_rows t Function_rows"
      using touch_law [OF ok x] t by (cases "lent_table x") (auto simp: only_def)
    then have "rows_at t1 Function_rows = rows_at t Function_rows" by (simp add: rows_at_def)
    moreover have "read_loan t1 l = Some (function_rows c)"
      using touch_law [OF ok x] t rd loan_outlives [OF _ _ sc rd, of _ t1] unfolding tab
      by (cases "lent_table x") auto
    ultimately show ?thesis using k room l0 unfolding functions_held_def by simp
  qed
qed

text \<open>irida.h promises the array of functions until the next analysis.\<close>

lemma functions_until_analysis:
  assumes "ok c s" "call (Inr QFunctions) (c, s) = (Some l, c1, s1)" "Inl CAnalyze \<notin> set ys"
  shows "read_loan (snd (calls ys (c1, s1))) l = Some (answer QFunctions c)"
proof -
  have "functions_held c l d t \<Longrightarrow> read_loan (snd (calls ys (d, t))) l = Some (function_rows c)" for d t
    using assms(3)
  proof (induction ys arbitrary: d t)
    case Nil
    then have "read_loan t l = Some (function_rows c)" unfolding functions_held_def by blast
    then show ?case by (simp add: calls_def)
  next
    case (Cons y ys)
    obtain r d1 t1 where y: "call y (d, t) = (r, d1, t1)" by (metis prod.exhaust)
    have "y \<noteq> Inl CAnalyze" "Inl CAnalyze \<notin> set ys" using Cons.prems(2) by auto
    from Cons.IH [OF functions_step [OF Cons.prems(1) y this(1)] this(2)] show ?case
      by (simp add: calls_Cons [OF y])
  qed
  moreover have "answer QFunctions c = function_rows c"
    using functions_first [OF assms(1,2)] unfolding functions_held_def by (metis option.inject)
  ultimately show ?thesis using functions_first(1) [OF assms(1,2)] by simp
qed

text \<open>The same from the beginning of a session on: \<open>xs\<close> before the query, \<open>ys\<close> after it.\<close>

lemma session_arrays:
  assumes ok: "ok c0 s0" and xs: "calls xs (c0, s0) = (c, s)" and q: "call (Inr q) (c, s) = (Some l, c1, s1)"
  shows "\<forall>y \<in> set ys. lent_table y \<noteq> lent_table (Inr q) \<Longrightarrow>
      read_loan (snd (calls ys (c1, s1))) l = Some (answer q (fold plain xs c0))"
    "q = QFunctions \<Longrightarrow> Inl CAnalyze \<notin> set ys \<Longrightarrow>
      read_loan (snd (calls ys (c1, s1))) l = Some (answer q (fold plain xs c0))"
proof -
  have c: "ok c s" "c = fold plain xs c0" using calls_ctx [OF ok, of xs] unfolding xs fst_conv snd_conv by blast+
  show "\<forall>y \<in> set ys. lent_table y \<noteq> lent_table (Inr q) \<Longrightarrow>
      read_loan (snd (calls ys (c1, s1))) l = Some (answer q (fold plain xs c0))"
    using borrowed_array [OF c(1) q, of ys] c(2) by simp
  show "q = QFunctions \<Longrightarrow> Inl CAnalyze \<notin> set ys \<Longrightarrow>
      read_loan (snd (calls ys (c1, s1))) l = Some (answer q (fold plain xs c0))"
    using functions_until_analysis [of c s l c1 s1 ys] q c by auto
qed

end

section \<open>The live session keeps the contract\<close>

text \<open>Clearing vectors of the table first makes no difference to who touches what.\<close>

lemma lends_after: "works m s s0 \<Longrightarrow> lends m rows s0 p \<Longrightarrow> lends m rows s p"
  unfolding lends_def using works_trans by blast

lemma works_ok: "works m s s1 \<Longrightarrow> scratch_ok s \<Longrightarrow> scratch_ok s1"
  by (simp add: works_def)

lemma gives_registers:
  "scratch_ok s \<Longrightarrow>
   gives Reg_rows (map register_crow (fst (core_registers c))) c s (lent_core_registers g (c, s))"
  using lends_registers [of s "case tg_registers (cc_target c) of None \<Rightarrow> [] | Some regs \<Rightarrow> regs" g]
  by (auto simp: gives_def lent_core_registers_def core_registers_def crow_defs o_def case_prod_unfold
      split: option.split)

lemma gives_target:
  assumes "\<And>rs. lends m (map (\<lambda>x. k (row x)) rs) s (fill rs s)"
  shows "gives m (map k (fst (target_rows f row c))) (snd (target_rows f row c)) s (lent_target f m fill (c, s))"
proof (cases "f (cc_target c)")
  case (Pair r t1)
  show ?thesis
  proof (cases r)
    case (Err e)
    with Pair show ?thesis
      by (simp add: gives_def target_rows_def lent_target_def lends_nothing works_refl)
  next
    case (Ok rs)
    with Pair assms [of rs] show ?thesis
      by (simp add: gives_def target_rows_def lent_target_def o_def case_prod_unfold)
  qed
qed

lemma gives_tables:
  assumes "scratch_ok s"
  shows "gives Module_rows (map module_crow (fst (core_modules ops c))) (snd (core_modules ops c)) s
      (lent_core_modules ops g (c, s))"
    "gives Map_rows (map map_crow_of (fst (core_maps ops c))) (snd (core_maps ops c)) s (lent_core_maps ops g (c, s))"
    "gives Thread_rows (map thread_crow (fst (core_threads ops c))) (snd (core_threads ops c)) s
      (lent_core_threads ops g (c, s))"
  unfolding core_modules_def lent_core_modules_def core_maps_def lent_core_maps_def core_threads_def
    lent_core_threads_def
  using lends_modules [OF assms, of _ g] lends_maps [OF assms, of _ g] lends_threads [of _ s g]
  by (intro gives_target; simp add: crow_defs)+

lemma core_insns_lent:
  "core_insn_rows ops parse bs addr insns c = (rows, c1) \<Longrightarrow>
   \<exists>xs. length xs = length insns \<and> rows = map (\<lambda>x. insn_row_of bs addr (fst x) (snd x)) xs \<and>
     (\<forall>s. lent_core_insns ops parse g bs addr insns (c, s) =
        (c1, fold (\<lambda>x. push_insn g bs addr (fst x) (snd x)) xs s))"
proof (induction insns arbitrary: c rows c1)
  case (Cons insn insns)
  obtain annot c2 where a: "(case operand_target insn of None \<Rightarrow> (None, c)
      | Some t \<Rightarrow> core_resolve_symbol ops parse t c) = (annot, c2)" by fastforce
  obtain rest c3 where r: "core_insn_rows ops parse bs addr insns c2 = (rest, c3)" by fastforce
  from Cons.IH [OF r] obtain xs where xs: "length xs = length insns"
    "rest = map (\<lambda>x. insn_row_of bs addr (fst x) (snd x)) xs"
    "\<forall>s. lent_core_insns ops parse g bs addr insns (c2, s) =
        (c3, fold (\<lambda>x. push_insn g bs addr (fst x) (snd x)) xs s)" by blast
  have "rows = insn_row_of bs addr annot insn # rest" "c1 = c3" using Cons.prems a r by simp_all
  with xs a show ?case by (intro exI [of _ "(annot, insn) # xs"]) simp
qed simp

lemma gives_disasm:
  assumes "scratch_ok s"
  shows "gives Insn_rows (map insn_crow (fst (core_disasm ops parse Z addr n c))) (snd (core_disasm ops parse Z addr n c))
    s (lent_core_disasm ops parse Z g addr n (c, s))"
proof (cases "n = 0")
  case True
  then show ?thesis
    by (simp add: gives_def core_disasm_def lent_core_disasm_def lends_nothing insns_ready Let_def)
next
  case False
  obtain r c1 where r: "live_read ops addr (n * kMaxInsnBytes) c = (r, c1)" by fastforce
  show ?thesis
  proof (cases r)
    case (Err e)
    with False r show ?thesis
      by (simp add: gives_def core_disasm_def lent_core_disasm_def lends_nothing insns_ready Let_def)
  next
    case (Ok bs)
    let ?insns = "decode_linear Z bs addr (unat n)"
    obtain rows c2 where l: "core_insn_rows ops parse bs addr ?insns c1 = (rows, c2)" by fastforce
    from core_insns_lent [OF this, of g] obtain xs where xs: "length xs = length ?insns"
      "rows = map (\<lambda>x. insn_row_of bs addr (fst x) (snd x)) xs"
      "\<And>s. lent_core_insns ops parse g bs addr ?insns (c1, s) =
        (c2, fold (\<lambda>x. push_insn g bs addr (fst x) (snd x)) xs s)" by blast
    from lends_insns [OF assms, where g = g and bs = bs and addr = addr and xs = xs] show ?thesis
      using False r Ok l xs
      by (simp add: gives_def core_disasm_def lent_core_disasm_def Let_def o_def)
  qed
qed

lemma core_frames_lent:
  "backtrace_loop ops n fp c = (frames, c1) \<Longrightarrow>
   lent_frames ops g n fp (c, s) = (c1, fold (\<lambda>f. push_row g Frame_rows (Frame_row (af_pc f) (af_frame_ptr f))) frames s)"
proof (induction n arbitrary: fp c frames s c1)
  case (Suc n)
  obtain r c2 where r: "live_read ops fp 16 c = (r, c2)" by fastforce
  show ?case
  proof (cases r)
    case (Err e)
    with r Suc.prems show ?thesis by auto
  next
    case (Ok bs)
    let ?f = "u64_of_bytes (take 8 bs)" and ?a = "u64_of_bytes (take 8 (drop 8 bs))"
    show ?thesis
    proof (cases "length bs < 16 \<or> ?f \<le> fp \<or> ?a = 0")
      case True
      with r Ok Suc.prems show ?thesis by (auto simp: Let_def split: if_splits)
    next
      case False
      obtain rest c3 where t: "backtrace_loop ops n ?f c2 = (rest, c3)" by fastforce
      have "frames = \<lparr>af_pc = ?a, af_frame_ptr = ?f\<rparr> # rest" "c1 = c3"
        using False r Ok Suc.prems t by (simp_all add: Let_def)
      with False r Ok Suc.IH [OF t] show ?thesis by (simp add: Let_def)
    qed
  qed
qed simp

lemma gives_backtrace:
  "gives Frame_rows (map frame_crow (fst (core_backtrace ops c))) (snd (core_backtrace ops c)) s
     (lent_core_backtrace ops g (c, s))"
proof -
  let ?pc = "live_register c ''rip''" and ?fp = "live_register c ''rbp''"
  obtain rest c1 where b: "backtrace_loop ops kMaxBacktraceFrames ?fp c = (rest, c1)" by fastforce
  let ?fs = "\<lparr>af_pc = ?pc, af_frame_ptr = ?fp\<rparr> # rest" and ?u = "clear_rows Frame_rows s"
  let ?t = "push_all g Frame_rows (map (\<lambda>f. Frame_row (af_pc f) (af_frame_ptr f)) ?fs) ?u"
  have t: "lent_core_backtrace ops g (c, s) = (lend ?t Frame_rows, c1, ?t)"
    using core_frames_lent [OF b, of g "push_row g Frame_rows (Frame_row ?pc ?fp) ?u"]
    by (simp add: lent_core_backtrace_def Let_def push_all_def fold_map o_def)
  have "lends Frame_rows (map frame_crow ?fs) s (lend ?t Frame_rows, ?t)"
    by (rule lends_ready; (intro works_steps)?; auto simp: storage_values frame_crow_def)
  with t b show ?thesis by (simp add: gives_def core_backtrace_def Let_def)
qed

lemma gives_parsed:
  assumes "works m s s0" "\<And>b. lends m (map k (rows b)) s0 (fill b s0)"
  shows "gives m (map k (fst (parsed_rows ops parse rows c))) (snd (parsed_rows ops parse rows c)) s
    (lent_parsed ops parse m fill (c, s0))"
proof -
  obtain known c1 where e: "ensure_binary_parsed ops parse c = (known, c1)" by fastforce
  show ?thesis
    using assms(1) lends_after [OF assms(1) assms(2)] e
    by (simp add: gives_def parsed_rows_def lent_parsed_def lends_nothing case_prod_unfold)
qed

lemma gives_file_tables:
  assumes ok: "scratch_ok s"
  shows "gives Section_rows (map section_crow (fst (core_sections ops parse c))) (snd (core_sections ops parse c)) s
      (lent_core_sections ops parse g (c, s))"
    "gives Import_rows (map import_crow (fst (core_imports ops parse c))) (snd (core_imports ops parse c)) s
      (lent_core_imports ops parse g (c, s))"
    "gives Export_rows (map export_crow (fst (core_exports ops parse c))) (snd (core_exports ops parse c)) s
      (lent_core_exports ops parse g (c, s))"
    "gives Symbol_rows (map symbol_crow (fst (core_symbols ops parse c))) (snd (core_symbols ops parse c)) s
      (lent_core_symbols ops parse g (c, s))"
proof -
  let ?a = "clear_texts Section_names (clear_rows Section_rows s)"
  have w: "works Section_rows s ?a" by (intro works_steps) simp_all
  have l: "lends Section_rows (map section_crow (map section_row (bi_sections b))) ?a (lend_sections g (bi_sections b) ?a)" for b
    using lends_sections [OF works_ok [OF w ok], of "bi_sections b" g]
    by (simp add: storage_values crow_defs section_row_def o_def)
  show "gives Section_rows (map section_crow (fst (core_sections ops parse c)))
      (snd (core_sections ops parse c)) s (lent_core_sections ops parse g (c, s))"
    unfolding core_sections_def lent_core_sections_def fst_conv snd_conv by (rule gives_parsed [OF w]) (rule l)
next
  let ?a = "clear_texts Import_libs (clear_texts Import_names (clear_rows Import_rows s))"
  have w: "works Import_rows s ?a" by (intro works_steps) simp_all
  have l: "lends Import_rows (map import_crow (map import_row (bi_imports b))) ?a (lend_imports g (bi_imports b) ?a)" for b
    using lends_imports [OF works_ok [OF w ok], of "bi_imports b" g]
    by (simp add: storage_values crow_defs import_row_def o_def)
  show "gives Import_rows (map import_crow (fst (core_imports ops parse c)))
      (snd (core_imports ops parse c)) s (lent_core_imports ops parse g (c, s))"
    unfolding core_imports_def lent_core_imports_def fst_conv snd_conv by (rule gives_parsed [OF w]) (rule l)
next
  let ?a = "clear_texts Export_names (clear_rows Export_rows s)"
  have w: "works Export_rows s ?a" by (intro works_steps) simp_all
  have l: "lends Export_rows (map export_crow (map export_row (bi_exports b))) ?a (lend_exports g (bi_exports b) ?a)" for b
    using lends_exports [OF works_ok [OF w ok], of "bi_exports b" g]
    by (simp add: storage_values crow_defs export_row_def o_def)
  show "gives Export_rows (map export_crow (fst (core_exports ops parse c)))
      (snd (core_exports ops parse c)) s (lent_core_exports ops parse g (c, s))"
    unfolding core_exports_def lent_core_exports_def fst_conv snd_conv by (rule gives_parsed [OF w]) (rule l)
next
  let ?a = "clear_texts Symbol_kinds (clear_texts Symbol_names (clear_rows Symbol_rows s))"
  have w: "works Symbol_rows s ?a" by (intro works_steps) simp_all
  have l: "lends Symbol_rows (map symbol_crow (map symbol_row (bi_symbols b))) ?a (lend_symbols g (bi_symbols b) ?a)" for b
    using lends_symbols [OF works_ok [OF w ok], of "bi_symbols b" g]
    by (simp add: storage_values crow_defs symbol_row_def o_def)
  show "gives Symbol_rows (map symbol_crow (fst (core_symbols ops parse c)))
      (snd (core_symbols ops parse c)) s (lent_core_symbols ops parse g (c, s))"
    unfolding core_symbols_def lent_core_symbols_def fst_conv snd_conv by (rule gives_parsed [OF w]) (rule l)
qed

lemma gives_strings:
  assumes ok: "scratch_ok s"
  shows "gives String_rows (map string_crow (fst (core_strings ops c))) (snd (core_strings ops c)) s
    (lent_core_strings ops g (c, s))"
proof -
  let ?a = "clear_texts String_texts (clear_rows String_rows s)"
  have w: "works String_rows s ?a" by (intro works_steps) simp_all
  have l: "lends String_rows (map string_crow (map string_row found)) s (lend_strings g found ?a)" for found
    using lends_after [OF w lends_strings [OF works_ok [OF w ok], of found g]]
    by (simp add: storage_values crow_defs string_row_def o_def)
  obtain r t1 where m: "tg_modules ops (cc_target c) = (r, t1)" by fastforce
  note d = gives_def core_strings_def lent_core_strings_def Let_def m lends_nothing [OF w]
  show ?thesis
  proof (cases r)
    case (Ok ms)
    show ?thesis
    proof (cases ms)
      case (Cons x rest)
      let ?len = "if mod_size x < kStringsScanCap then mod_size x else kStringsScanCap"
      obtain q c2 where q: "live_read ops (mod_base x) ?len (c\<lparr>cc_target := t1\<rparr>) = (q, c2)" by fastforce
      have "gives String_rows (map string_crow (fst (core_strings ops c))) (snd (core_strings ops c)) s
          (lent_core_strings ops g (c, s))" if "?len \<noteq> 0"
      proof (cases q)
        case (Err e)
        with Ok Cons q that show ?thesis by (simp add: d split del: if_split)
      next
        case (Ok bs)
        with \<open>r = Ok ms\<close> Cons q that l [of "scan_strings bs (mod_base x) 4"] show ?thesis
          by (simp add: d case_prod_unfold split del: if_split)
      qed
      moreover have ?thesis if "?len = 0" using Ok Cons that by (simp add: d split del: if_split)
      ultimately show ?thesis by blast
    qed (use Ok in \<open>simp add: d\<close>)
  qed (simp add: d)
qed

lemma gives_results:
  assumes "lends m rows s (fill (res c) s)"
  shows "gives m rows c s (lent_analysis fill res (c, s))"
  using assms by (simp add: gives_def lent_analysis_def case_prod_unfold)

lemma gives_functions:
  "scratch_ok s \<Longrightarrow> gives Function_rows (map function_crow (map function_row (ar_functions (res c)))) c s
     (lent_analysis (\<lambda>a. lend_functions g (ar_functions a)) res (c, s))"
  "gives Block_rows (map block_crow (function_blocks_rows addr (ar_functions (res c)))) c s
     (lent_analysis (\<lambda>a. lend_blocks g addr (ar_functions a)) res (c, s))"
  "gives Xref_rows (map xref_crow (xrefs_to_rows addr (ar_xrefs (res c)))) c s
     (lent_analysis (\<lambda>a. lend_xrefs g addr (ar_xrefs a)) res (c, s))"
  using lends_functions [of s "ar_functions (res c)" g] lends_blocks [of addr "ar_functions (res c)" s g]
    lends_xrefs [of addr "ar_xrefs (res c)" s g]
  by (auto intro!: gives_results simp: function_crow_def function_row_def o_def block_crow_def [abs_def] xref_crow_def [abs_def])

text \<open>What the calls leave alone in the context: breakpoints, and the results of the analysis.\<close>

definition same_results :: "'b core_ctx \<Rightarrow> 'b core_ctx \<Rightarrow> bool" where
  "same_results c c1 \<longleftrightarrow> cc_bp_rows c1 = cc_bp_rows c \<and> cc_analysis c1 = cc_analysis c"

lemma same_results_simps [simp]:
  "same_results c c" "same_results c (c\<lparr>cc_target := t\<rparr>)"
  by (simp_all add: same_results_def)

lemma same_results_trans: "same_results a b \<Longrightarrow> same_results b c \<Longrightarrow> same_results a c"
  by (simp add: same_results_def)

lemma ensure_results: "same_results c (snd (ensure_binary_parsed ops parse c))"
  by (auto simp: ensure_binary_parsed_def same_results_def Let_def
      split: prod.split result.split list.split)

lemma live_read_results: "same_results c (snd (live_read ops a n c))"
  by (auto simp: live_read_def split: option.split prod.split)

lemma resolve_results: "same_results c (snd (core_resolve_symbol ops parse a c))"
  using ensure_results [of c ops parse] by (auto simp: core_resolve_symbol_def split: prod.splits)

lemma insns_results: "same_results c (snd (core_insn_rows ops parse bs addr insns c))"
proof (induction insns arbitrary: c)
  case (Cons insn insns)
  obtain annot c1 where a: "(case operand_target insn of None \<Rightarrow> (None, c)
      | Some t \<Rightarrow> core_resolve_symbol ops parse t c) = (annot, c1)" by fastforce
  have "same_results c c1"
  proof (cases "operand_target insn")
    case (Some t)
    then show ?thesis using a resolve_results [of c ops parse t] by simp
  qed (use a in simp)
  from same_results_trans [OF this Cons [of c1]] a show ?case by (auto split: prod.splits)
qed simp

lemma frames_results: "same_results c (snd (backtrace_loop ops n fp c))"
proof (induction n arbitrary: fp c)
  case (Suc n)
  obtain r c1 where r: "live_read ops fp 16 c = (r, c1)" by fastforce
  have s: "same_results c c1" using live_read_results [of c ops fp 16] r by simp
  show ?case using r s same_results_trans [OF s Suc] by (simp add: Let_def case_prod_beta split: result.split)
qed simp

lemma query_results: "same_results c (core_query ops parse Z q c)"
proof -
  have t: "same_results c (snd (target_rows f row c))"
    for f :: "'a target \<Rightarrow> 'r list result \<times> 'a target" and row :: "'r \<Rightarrow> 's"
    by (auto simp: target_rows_def split: prod.split result.split)
  have p: "same_results c (snd (parsed_rows ops parse rows c))" for rows :: "binary_info \<Rightarrow> 'r list"
    using ensure_results [of c ops parse] by (auto simp: parsed_rows_def split: prod.splits)
  have m: "same_results c (snd (core_read_memory ops a n c))" for a n
    using live_read_results [of c ops a n] by (auto simp: core_read_memory_def split: prod.splits result.splits)
  have d: "same_results c (snd (core_disasm ops parse Z a n c))" for a n
  proof -
    obtain r c1 where r: "live_read ops a (n * kMaxInsnBytes) c = (r, c1)" by fastforce
    have s: "same_results c c1" using live_read_results [of c ops a "n * kMaxInsnBytes"] r by simp
    show ?thesis using r s same_results_trans [OF s insns_results] by (simp add: core_disasm_def split: result.split)
  qed
  have b: "same_results c (snd (core_backtrace ops c))"
    using frames_results [of c ops kMaxBacktraceFrames "live_register c ''rbp''"]
    by (auto simp: core_backtrace_def Let_def split: prod.splits)
  have g: "same_results c (snd (core_strings ops c))"
  proof -
    obtain r t1 where r: "tg_modules ops (cc_target c) = (r, t1)" by fastforce
    have "same_results c (snd (live_read ops a n (c\<lparr>cc_target := t1\<rparr>)))" for a n
      by (rule same_results_trans [OF same_results_simps(2) live_read_results])
    then show ?thesis using r
      by (simp add: core_strings_def Let_def case_prod_beta split: result.split list.split)
  qed
  show ?thesis
    by (cases q) (simp_all add: core_query_def core_modules_def core_maps_def core_threads_def t p m d b g
        core_sections_def core_imports_def core_exports_def core_symbols_def)
qed

lemma reader_breakpoints: "keeps (\<lambda>d :: 'b core_ctx. cc_bp_rows d = bps) (core_reader (ops :: 'b backend_ops))"
  unfolding keeps_def
proof (intro allI impI)
  fix pc n and io :: "'b core_ctx"
  assume "cc_bp_rows io = bps"
  then show "cc_bp_rows (snd (core_reader ops pc n io)) = bps"
    using live_read_results [of io ops pc "word_of_nat n"]
    by (auto simp: core_reader_def same_results_def split: prod.splits result.splits)
qed

lemma analyze_breakpoints: "cc_bp_rows (core_analyze ops parse Z order fuel c) = cc_bp_rows c"
proof (cases "run_analysis ops parse Z order fuel c")
  case (Some c3)
  obtain entries c1 where e: "core_entries ops parse order c = (entries, c1)" by fastforce
  then have s: "cc_bp_rows c1 = cc_bp_rows c"
    using ensure_results [of c ops parse] by (auto simp: core_entries_def same_results_def split: prod.splits)
  from Some e obtain r c2 where "analyze (decode_one Z) (core_reader ops) fuel (Some (parsed_name c1)) entries c1
      = Some (r, c2)" "c3 = c2\<lparr>cc_analysis := r\<rparr>"
    by (auto simp: run_analysis_def split: option.splits)
  with analyze_io [OF reader_breakpoints this(1) s] Some show ?thesis by (simp add: core_analyze_def)
qed (simp add: core_analyze_def)

lemma command_results:
  "cc_bp_rows (core_command ops parse Z order fuel a c) = cc_bp_rows c"
  "a \<noteq> CAnalyze \<Longrightarrow> cc_analysis (core_command ops parse Z order fuel a c) = cc_analysis c"
  by (cases a; simp add: core_command_def core_step_into_def core_step_over_def core_step_out_def core_cont_def
      analyze_breakpoints)+

definition core_plain ::
    "'b backend_ops \<Rightarrow> lief \<Rightarrow> zydis \<Rightarrow> (u64 list \<Rightarrow> u64 list) \<Rightarrow> nat \<Rightarrow> api_command + api_query \<Rightarrow>
     'b core_ctx \<Rightarrow> 'b core_ctx" where
  "core_plain ops parse Z order fuel x c =
     (case x of Inl a \<Rightarrow> core_command ops parse Z order fuel a c | Inr q \<Rightarrow> core_query ops parse Z q c)"

definition core_lent_ok :: "'b core_ctx \<Rightarrow> scratch \<Rightarrow> bool" where
  "core_lent_ok c s \<longleftrightarrow> scratch_ok s \<and> cc_bp_rows c = [] \<and> cv_objs (sp_rows s Bp_rows) = []"

lemma lending_eq [simp]: "lending p = lending q \<longleftrightarrow> p = q"
  by (auto simp: lending_def prod_eq_iff)

lemma core_none:
  "lent_table x = None \<Longrightarrow> core_call ops parse Z order fuel g x (c, s) = (None, core_plain ops parse Z order fuel x c, s)"
  by (cases x) (auto simp: core_call_def core_plain_def split: api_query.splits)

lemma core_gives:
  assumes "core_lent_ok c s" "lent_table (Inr q) = Some m"
  shows "\<exists>p. core_call ops parse Z order fuel g (Inr q) (c, s) = lending p \<and>
    gives m (core_answer ops parse Z q c) (core_plain ops parse Z order fuel (Inr q) c) s p"
proof -
  have ok: "scratch_ok s" and b: "gives Bp_rows [] c s (lent_core_breakpoints (c, s))" "cc_bp_rows c = []"
    using assms(1) by (auto simp: core_lent_ok_def gives_def lent_core_breakpoints_def lends_def lend_def
        read_loan_def works_refl Let_def)
  note laws = gives_registers [OF ok, of c g] gives_tables [OF ok, of ops c g] gives_disasm [OF ok, of ops parse Z _ _ c g]
    gives_backtrace [of ops c s g] gives_file_tables [OF ok, of ops parse c g] gives_strings [OF ok, of ops c g]
    gives_functions(1) [OF ok, of cc_analysis c g] gives_functions(2,3) [of _ cc_analysis c s g]
  show ?thesis
    using assms(2) laws b
    by (cases q) (auto simp: core_call_def core_plain_def core_answer_def core_query_def core_breakpoints_def
        core_functions_def core_function_blocks_def core_xrefs_to_def lent_core_functions_def
        lent_core_function_blocks_def lent_core_xrefs_to_def core_registers_def)
qed

interpretation live: lender "core_call ops parse Z order fuel g" "core_plain ops parse Z order fuel"
  "core_answer ops parse Z" "\<lambda>c. ar_functions (cc_analysis c)" g core_lent_ok
proof (unfold_locales, goal_cases)
  case (1 c s)
  then show ?case by (simp add: core_lent_ok_def)
next
  case (2 c s x r c1 s1)
  show ?case
  proof (cases "lent_table x")
    case None
    with 2 core_none [OF None, of ops parse Z order fuel g c s] show ?thesis
      using command_results(1) [of ops parse Z order fuel _ c] query_results [of c ops parse Z]
      by (cases x) (auto simp: core_lent_ok_def core_plain_def same_results_def)
  next
    case (Some m)
    then obtain q where q: "x = Inr q" by (cases x) auto
    with core_gives [OF 2(1), of q m ops parse Z order fuel g] Some 2(2) obtain l where
      p: "gives m (core_answer ops parse Z q c) (core_plain ops parse Z order fuel (Inr q) c) s (l, c1, s1)"
      by (auto simp: lending_def)
    have w: "works m s s1" using p by (simp add: gives_def lends_def)
    have "cv_objs (sp_rows s1 Bp_rows) = []"
    proof (cases "m = Bp_rows")
      case True
      then have "q = QBreakpoints" using Some q by (auto split: api_query.splits)
      then show ?thesis using 2 q by (simp add: core_call_def lending_def lent_core_breakpoints_def core_lent_ok_def)
    next
      case False
      then show ?thesis using w 2(1) by (simp add: works_def only_def core_lent_ok_def)
    qed
    moreover have "cc_bp_rows c1 = []"
      using p 2(1) query_results [of c ops parse Z q]
      by (simp add: gives_def core_plain_def core_lent_ok_def same_results_def)
    moreover have "scratch_ok s1" using works_ok [OF w] 2(1) by (simp add: core_lent_ok_def)
    ultimately show ?thesis by (simp add: core_lent_ok_def)
  qed
next
  case (3 c s x)
  show ?case by (rule core_none [OF 3(2)])
next
  case (4 c s q m)
  then show ?case by (rule core_gives)
next
  case (5 c s)
  show ?case
    by (simp add: core_call_def lending_def lent_core_functions_def lent_analysis_def case_prod_unfold)
next
  case (6 c s x)
  then show ?case
    using command_results(2) [of _ ops parse Z order fuel c] query_results [of c ops parse Z]
    by (cases x) (simp_all add: core_plain_def same_results_def)
qed

section \<open>The static session keeps the contract\<close>

definition static_plain ::
    "zydis \<Rightarrow> (u64 list \<Rightarrow> u64 list) \<Rightarrow> nat \<Rightarrow> api_command + api_query \<Rightarrow> static_ctx \<Rightarrow> static_ctx" where
  "static_plain Z order fuel x c =
     (case x of Inl CAnalyze \<Rightarrow> static_analyze Z order fuel c | _ \<Rightarrow> c)"

lemma gives_static_modules:
  assumes ok: "scratch_ok s"
  shows "gives Module_rows (map module_crow (fst (static_modules c))) c s (lent_static_modules g (c, s))"
proof -
  let ?s1 = "push_text g Module_names (bi_path (sc_bin c)) (clear_texts Module_names (clear_rows Module_rows s))"
  let ?sp = "image_span (bi_sections (sc_bin c))" and ?b = "bi_image_base (sc_bin c)"
  let ?r = "Module_row (c_str ?s1 Module_names 0) ?b (if ?sp > ?b then ?sp - ?b else ?sp)"
  let ?t = "push_row g Module_rows ?r ?s1"
  have w1: "works Module_rows s ?s1" by (intro works_steps) simp_all
  have w: "works Module_rows s ?t" by (intro works_steps) (simp_all add: own_row_def)
  have "text_at ?s1 (c_str ?s1 Module_names 0) = Some (bi_path (sc_bin c))"
    using text_at_c_str [OF works_ok [OF w1 ok], of 0 Module_names] by (simp add: storage_values)
  then have "row_at ?s1 ?r = Some (Module_row (bi_path (sc_bin c)) ?b (if ?sp > ?b then ?sp - ?b else ?sp))"
    by (simp add: row_at_def)
  moreover have "row_at ?t = row_at ?s1" by (rule row_at_texts) (simp only: storage_values)
  moreover have "rv ?t Module_rows = [?r]" by (simp add: storage_values)
  ultimately have "lends Module_rows (map module_crow (fst (static_modules c))) s (lend ?t Module_rows, ?t)"
    using w by (intro lends_ready) (simp_all add: static_modules_def module_crow_def Let_def)
  then show ?thesis by (simp add: gives_def lent_static_modules_def Let_def)
qed

lemma gives_static_disasm:
  assumes ok: "scratch_ok s"
  shows "gives Insn_rows (map insn_crow (fst (static_disasm Z addr n c))) c s (lent_static_disasm Z g addr n (c, s))"
proof (cases "n = 0 \<or> length (read_at c addr (unat (n * kMaxInsnBytes))) = 0")
  case True
  then show ?thesis
    by (auto simp: gives_def static_disasm_def lent_static_disasm_def lends_nothing insns_ready Let_def)
next
  case False
  let ?bs = "read_at c addr (unat (n * kMaxInsnBytes))"
  let ?xs = "map (\<lambda>insn. (static_annotation c insn, insn)) (decode_linear Z ?bs addr (unat n))"
  from lends_insns [OF ok, where g = g and bs = ?bs and addr = addr and xs = ?xs] False show ?thesis
    by (simp add: gives_def static_disasm_def lent_static_disasm_def Let_def o_def fold_map)
qed

lemma gives_static_tables:
  assumes ok: "scratch_ok s"
  shows "gives Section_rows (map section_crow (fst (static_sections c))) c s (lent_static_sections g (c, s))"
    "gives Import_rows (map import_crow (fst (static_imports c))) c s (lent_static_imports g (c, s))"
    "gives Export_rows (map export_crow (fst (static_exports c))) c s (lent_static_exports g (c, s))"
    "gives Symbol_rows (map symbol_crow (fst (static_symbols c))) c s (lent_static_symbols g (c, s))"
    "gives String_rows (map string_crow (fst (static_strings c))) c s (lent_static_strings g (c, s))"
proof -
  let ?a = "clear_texts Section_names (clear_rows Section_rows s)"
  have w: "works Section_rows s ?a" by (intro works_steps) simp_all
  from lends_after [OF w lends_sections [OF works_ok [OF w ok], of "bi_sections (sc_bin c)" g]]
  show "gives Section_rows (map section_crow (fst (static_sections c))) c s (lent_static_sections g (c, s))"
    by (simp add: gives_def static_sections_def lent_static_sections_def case_prod_unfold storage_values
        crow_defs section_row_def o_def)
next
  let ?a = "clear_texts Import_libs (clear_texts Import_names (clear_rows Import_rows s))"
  have w: "works Import_rows s ?a" by (intro works_steps) simp_all
  from lends_after [OF w lends_imports [OF works_ok [OF w ok], of "bi_imports (sc_bin c)" g]]
  show "gives Import_rows (map import_crow (fst (static_imports c))) c s (lent_static_imports g (c, s))"
    by (simp add: gives_def static_imports_def lent_static_imports_def case_prod_unfold storage_values
        crow_defs import_row_def o_def)
next
  let ?a = "clear_texts Export_names (clear_rows Export_rows s)"
  have w: "works Export_rows s ?a" by (intro works_steps) simp_all
  from lends_after [OF w lends_exports [OF works_ok [OF w ok], of "bi_exports (sc_bin c)" g]]
  show "gives Export_rows (map export_crow (fst (static_exports c))) c s (lent_static_exports g (c, s))"
    by (simp add: gives_def static_exports_def lent_static_exports_def case_prod_unfold storage_values
        crow_defs export_row_def o_def)
next
  let ?a = "clear_texts Symbol_kinds (clear_texts Symbol_names (clear_rows Symbol_rows s))"
  have w: "works Symbol_rows s ?a" by (intro works_steps) simp_all
  from lends_after [OF w lends_symbols [OF works_ok [OF w ok], of "bi_symbols (sc_bin c)" g]]
  show "gives Symbol_rows (map symbol_crow (fst (static_symbols c))) c s (lent_static_symbols g (c, s))"
    by (simp add: gives_def static_symbols_def lent_static_symbols_def case_prod_unfold storage_values
        crow_defs symbol_row_def o_def)
next
  let ?a = "clear_texts String_texts (clear_rows String_rows s)"
  have w: "works String_rows s ?a" by (intro works_steps) simp_all
  from lends_after [OF w lends_strings [OF works_ok [OF w ok], of "scan_strings (sc_image c) (bi_image_base (sc_bin c)) 4" g]]
  show "gives String_rows (map string_crow (fst (static_strings c))) c s (lent_static_strings g (c, s))"
    by (simp add: gives_def static_strings_def lent_static_strings_def case_prod_unfold storage_values
        crow_defs string_row_def o_def)
qed

lemma static_none:
  "lent_table x = None \<Longrightarrow> static_call Z order fuel g x (c, s) = (None, static_plain Z order fuel x c, s)"
  by (cases x) (auto simp: static_call_def static_plain_def split: api_query.splits api_command.splits)

lemma static_gives:
  assumes ok: "scratch_ok s" and t: "lent_table (Inr q) = Some m"
  shows "\<exists>p. static_call Z order fuel g (Inr q) (c, s) = lending p \<and>
    gives m (static_answer Z q c) (static_plain Z order fuel (Inr q) c) s p"
proof -
  have n: "gives k [] c s (lent_static_nothing k (c, s))" for k
    by (simp add: gives_def lent_static_nothing_def lends_nothing works_refl)
  note laws = gives_static_modules [OF ok, of c g] gives_static_disasm [OF ok, of Z _ _ c g]
    gives_static_tables [OF ok, of c g] gives_functions(1) [OF ok, of sc_analysis c g]
    gives_functions(2,3) [of _ sc_analysis c s g]
  show ?thesis
    using t laws n
    by (cases q) (auto simp: static_call_def static_plain_def static_answer_def static_functions_def
        static_function_blocks_def static_xrefs_to_def lent_static_functions_def
        lent_static_function_blocks_def lent_static_xrefs_to_def)
qed

interpretation on_file: lender "static_call Z order fuel g" "static_plain Z order fuel"
  "static_answer Z" "\<lambda>c. ar_functions (sc_analysis c)" g "\<lambda>_. scratch_ok"
proof (unfold_locales, goal_cases)
  case (1 c s)
  then show ?case by simp
next
  case (2 c s x r c1 s1)
  show ?case
  proof (cases "lent_table x")
    case None
    with 2 static_none [OF None, of Z order fuel g c s] show ?thesis by simp
  next
    case (Some m)
    then obtain q where q: "x = Inr q" by (cases x) auto
    with static_gives [OF 2(1), of q m Z order fuel g c] Some 2 show ?thesis
      by (auto simp: lending_def gives_def lends_def works_def)
  qed
next
  case (3 c s x)
  show ?case by (rule static_none [OF 3(2)])
next
  case (4 c s q m)
  then show ?case by (rule static_gives)
next
  case (5 c s)
  show ?case
    by (simp add: static_call_def lending_def lent_static_functions_def lent_analysis_def case_prod_unfold)
next
  case (6 c s x)
  then show ?case by (cases x) (auto simp: static_plain_def split: api_command.split)
qed

section \<open>Borrowed arrays\<close>

lemma core_start: "core_lent_ok (core_ctx_init t) scratch_init"
  by (simp add: core_lent_ok_def core_ctx_init_def scratch_ok_init) (simp add: scratch_init_def vec_init_def)

text \<open>C33: An array borrowed from a live session reads as answered, row by row and text by text, after any
  further calls, commands and an analysis included, until its own table is asked for again: the
  pointers in it never dangle before.  What it reads is the answer by value, after the same calls
  on the context alone.\<close>

theorem live_arrays_read_as_answered:
  assumes "fold (\<lambda>x cs. snd (core_call ops parse Z order fuel g x cs)) xs (core_ctx_init t, scratch_init) = (c, s)"
    and "core_call ops parse Z order fuel g (Inr q) (c, s) = (Some l, c1, s1)"
    and "\<forall>y \<in> set ys. lent_table y \<noteq> lent_table (Inr q)"
  shows "read_loan (snd (fold (\<lambda>x cs. snd (core_call ops parse Z order fuel g x cs)) ys (c1, s1))) l =
    Some (core_answer ops parse Z q (fold (core_plain ops parse Z order fuel) xs (core_ctx_init t)))"
  using live.session_arrays(1) [OF core_start assms(1) [folded live.calls_def] assms(2,3)]
  by (simp only: live.calls_def)

theorem live_arrays_read_as_answered_witness:
  "\<forall>(ops :: unit backend_ops) Z.
     let call = core_call ops (\<lambda>_. LiefNull) Z id 0 (\<lambda>n. n + n);
         cs = snd (call (Inr QFunctions) (stopped_target, scratch_init));
         p = call (Inr QRegisters) cs
     in \<exists>l. fst p = Some l \<and>
          read_loan (snd (fold (\<lambda>x cs. snd (call x cs)) [Inl CStop, Inr QFunctions] (snd p))) l =
            Some [Register_row ''rip'' 0x10 None]"
proof (intro allI)
  fix ops :: "unit backend_ops" and Z
  let ?call = "core_call ops (\<lambda>_. LiefNull) Z id 0 (\<lambda>n. n + n)"
  let ?cs = "snd (?call (Inr QFunctions) (stopped_target, scratch_init))"
  obtain t where t: "stopped_target = core_ctx_init t" by (simp add: stopped_target_def)
  obtain c s where cs: "fold (\<lambda>x cs. snd (?call x cs)) [Inr QFunctions] (core_ctx_init t, scratch_init) = (c, s)"
    by (rule that) (rule prod.collapse [symmetric])
  then have cs1: "?cs = (c, s)" by (simp only: t fold.simps comp_apply id_apply)
  obtain l c1 s1 where p: "?call (Inr QRegisters) (c, s) = (Some l, c1, s1)"
    by (simp add: core_call_def lending_def) (metis prod.exhaust)
  have "fold (core_plain ops (\<lambda>_. LiefNull) Z id 0) [Inr QFunctions] (core_ctx_init t) = stopped_target"
    by (simp add: core_plain_def core_query_def t)
  moreover have "core_answer ops (\<lambda>_. LiefNull) Z QRegisters stopped_target = [Register_row ''rip'' 0x10 None]"
    by (simp add: core_answer_def core_registers_def register_crow_def stopped_target_def core_ctx_init_def
        tg_registers_def)
  moreover have "\<forall>y \<in> set [Inl CStop, Inr QFunctions]. lent_table y \<noteq> lent_table (Inr QRegisters)" by simp
  note live_arrays_read_as_answered [OF cs p this]
  ultimately show "let call = ?call; cs = snd (call (Inr QFunctions) (stopped_target, scratch_init));
         p = call (Inr QRegisters) cs
     in \<exists>l. fst p = Some l \<and>
          read_loan (snd (fold (\<lambda>x cs. snd (call x cs)) [Inl CStop, Inr QFunctions] (snd p))) l =
            Some [Register_row ''rip'' 0x10 None]"
    unfolding Let_def cs1 p by simp
qed

text \<open>What a static session lends reads as answered in the same way.\<close>

lemma static_arrays_read_as_answered:
  assumes "fold (\<lambda>x cs. snd (static_call Z order fuel g x cs)) xs (c0, scratch_init) = (c, s)"
    and "static_call Z order fuel g (Inr q) (c, s) = (Some l, c1, s1)"
    and "\<forall>y \<in> set ys. lent_table y \<noteq> lent_table (Inr q)"
  shows "read_loan (snd (fold (\<lambda>x cs. snd (static_call Z order fuel g x cs)) ys (c1, s1))) l =
    Some (static_answer Z q (fold (static_plain Z order fuel) xs c0))"
  using on_file.session_arrays(1) [OF scratch_ok_init assms(1) [folded on_file.calls_def] assms(2,3)]
  by (simp only: on_file.calls_def)

text \<open>C37: The array of functions stays valid until the next analysis, as irida.h promises: whatever else is
  called, the functions included, it goes on reading what it read when it was borrowed, in both kinds
  of session.\<close>

theorem functions_valid_until_analysis:
  assumes "core_lent_ok c s" "core_call ops parse Z order fuel g (Inr QFunctions) (c, s) = (Some l, c1, s1)"
    and "scratch_ok u" "static_call Z order fuel g (Inr QFunctions) (d, u) = (Some k, d1, u1)"
    and "Inl CAnalyze \<notin> set ys"
  shows "read_loan (snd (fold (\<lambda>x cs. snd (core_call ops parse Z order fuel g x cs)) ys (c1, s1))) l =
      Some (map function_crow (fst (core_functions c))) \<and>
    read_loan (snd (fold (\<lambda>x cs. snd (static_call Z order fuel g x cs)) ys (d1, u1))) k =
      Some (map function_crow (fst (static_functions d)))"
  using live.functions_until_analysis [OF assms(1,2,5)] on_file.functions_until_analysis [OF assms(3,4,5)]
  by (simp only: live.calls_def on_file.calls_def core_answer_def static_answer_def api_query.case)

definition one_function :: analysis_result where
  "one_function = \<lparr>ar_functions = [\<lparr>fn_addr = 0x10, fn_size = 1, fn_name = ''f'', fn_blocks = [], fn_callees = []\<rparr>], ar_xrefs = []\<rparr>"

theorem functions_valid_until_analysis_witness:
  "\<forall>(ops :: unit backend_ops) Z.
     let call = core_call ops (\<lambda>_. LiefNull) Z id 0 (\<lambda>n. n + n);
         p = call (Inr QFunctions) (stopped_target\<lparr>cc_analysis := one_function\<rparr>, scratch_init)
     in \<exists>l. fst p = Some l \<and>
          read_loan (snd (fold (\<lambda>x cs. snd (call x cs)) [Inr QFunctions, Inl CBreak] (snd p))) l =
            Some [Function_row 0x10 1 ''f'' 0]"
proof (intro allI)
  fix ops :: "unit backend_ops" and Z
  let ?call = "core_call ops (\<lambda>_. LiefNull) Z id 0 (\<lambda>n. n + n)"
  let ?c = "stopped_target\<lparr>cc_analysis := one_function\<rparr>"
  have ok: "core_lent_ok ?c scratch_init"
    using core_start by (simp add: core_lent_ok_def stopped_target_def core_ctx_init_def)
  obtain l c1 s1 where p: "?call (Inr QFunctions) (?c, scratch_init) = (Some l, c1, s1)"
    by (simp add: core_call_def lending_def) (metis prod.exhaust)
  obtain k d1 u1 where q: "static_call Z id 0 (\<lambda>n. n + n) (Inr QFunctions)
      (\<lparr>sc_bin = binary_info_init, sc_image = [], sc_symbol_map = [], sc_analysis = one_function\<rparr>, scratch_init) =
      (Some k, d1, u1)"
    by (simp add: static_call_def lending_def) (metis prod.exhaust)
  have "Inl CAnalyze \<notin> set [Inr QFunctions, Inl CBreak]" by simp
  from functions_valid_until_analysis [OF ok p scratch_ok_init q this]
  show "let call = ?call; p = call (Inr QFunctions) (?c, scratch_init)
     in \<exists>l. fst p = Some l \<and>
          read_loan (snd (fold (\<lambda>x cs. snd (call x cs)) [Inr QFunctions, Inl CBreak] (snd p))) l =
            Some [Function_row 0x10 1 ''f'' 0]"
    unfolding Let_def p by (simp add: core_functions_def function_crow_def function_row_def one_function_def)
qed

text \<open>Asking for a table again may move it: the array borrowed before is then gone.\<close>

lemma asked_again_dangles:
  "let f = (\<lambda>n. \<lparr>ti_tid = n, ti_pc = 0, ti_current = False\<rparr>);
       p = lend_threads g [f 1] scratch_init;
       q = lend_threads g [f 1, f 2] (snd p)
   in read_loan (snd p) (fst p) = Some [Thread_row 1 0 0] \<and> read_loan (snd q) (fst p) = None"
  by (simp add: Let_def lend_threads_def read_loan_def lend_def clear_rows_def reserve_rows_def on_rows_def vec_clear_def
      vec_reserve_def vec_move_def vec_push_def push_all_def push_row_def row_at_def vec_values_def vec_init_def
      scratch_init_def)

end
