(* ===== verification/Spec2Isabelle.thy ===== *)
theory Spec2Isabelle
  imports Gdb_Backend Native_Backend Sockets Painting Application Lent_Sessions
begin

text \<open>
  Irida is a debugger and binary analysis tool: an engine in C++ (irida-core), a C interface to
  it (irida-api) and a Qt front end with a command line tool (irida-ui).  This development models
  the engine, the interface and the logic of the front end, and proves the properties marked
  C1 to C40.  Records and datatypes follow the classes and enums of the source, every method is a
  definition of the same name, and the paths below are relative to src/.

  How the program is put together.  A \<open>Backend\<close> controls a stopped program, over the gdb remote
  protocol or over the Win32 debug interface.  A \<open>Target\<close> owns a backend, the registers of the
  current stop and a memory cache; every stop is a new epoch.  A session of the C interface is
  either live, around a target, or static, around the bytes of a file, or the canned session the
  front end is developed against; all three are tables of entry points.  The analyzer sees a
  session through a reader and a disassembler.  The front end holds one session in a controller;
  signals of the controller make the panels read the session again.

  Base.
    \<^item> \<open>Prelude\<close>: \<open>Result<T>\<close> as a sum, byte buffers, numbers in text (libs/base).
    \<^item> \<open>Vectors\<close>: the storage of \<open>std::vector\<close>: which pointers into it stay good.
    \<^item> \<open>Ordered_Map\<close>: \<open>std::map\<close> as an association list in key order, locale \<open>std_map\<close>.

  The gdb remote protocol (irida-core/libs/protocol, libs/host/src/tcp.cpp, core/transport).
    \<^item> \<open>Hex\<close>: hexadecimal text, locale \<open>wire_codec\<close> (what is written is read back and holds no
      character of the framing), interpreted by hexadecimal bytes and by numbers of a request.
    \<^item> \<open>Frame\<close>: packets with checksums and the incremental decoder.  However a stream is cut into
      pieces, the decoder yields the payloads sent, in order (C1); it yields nothing that did
      not stand in the buffer with a good checksum (C10).
    \<^item> \<open>Packets\<close>: request texts and reply parsers (C8, C9).
    \<^item> \<open>Transport\<close>: \<open>TcpClient\<close> and \<open>GdbClient\<close> over a socket (C3).
    \<^item> \<open>Sockets\<close>: the life of the socket of a \<open>TcpClient\<close>, moves and destructor included.
    \<^item> \<open>Gdb_Backend\<close>: the backend over that client (C4).

  Backends and targets (irida-core/core/backend, libs/host, core/target).
    \<^item> \<open>Backend_Types\<close>: the vocabulary and the class \<open>Backend\<close> as a record of operations.
    \<^item> \<open>Native_Debuggee\<close>: a process under the Win32 debug interface: attaching, events, memory,
      thread contexts, debug registers, breakpoints, modules.  What a hardware slot changes in the
      debug registers (C16), the register block (C17), and how each event is continued, foreign
      exceptions by \<open>resume\<close> and by a single step included (C18).
    \<^item> \<open>Native_Backend\<close>: the backend over it, with the bytes that software breakpoints replaced.
    \<^item> \<open>Register_Set\<close>, \<open>Memory_Cache\<close>, \<open>Target\<close>: the state of a stop.  The locale
      \<open>memory_source\<close> says what the cache needs of a backend; \<open>Native_Backend\<close> interprets it.
      The cache is transparent and stable within an epoch, an epoch is a completed stop, and a
      step is all or nothing.  The comparison of epochs is by whole pages (C19), which is less than
      the comment in memory_cache.hpp says (\<open>changed_compares_whole_pages\<close>).

  Images and code (irida-core/core/binfmt, core/disasm, core/analysis).
    \<^item> \<open>Binfmt\<close>: the parsed image; \<open>Strings\<close>: the scan for strings, shown to find exactly the
      maximal runs.
    \<^item> \<open>Disasm\<close>: instructions and linear decoding.
    \<^item> \<open>Analysis\<close>: recursive descent over blocks and the call graph: the result is closed and well
      formed (C6), and there always is one (C7).

  Sessions (irida-api).
    \<^item> \<open>Api\<close>: rows, tables of entry points and the functions of irida.h.  The locale
      \<open>epoch_frontend\<close> is the contract between sessions and front ends: queries keep epoch,
      registers and program counter, commands keep them or move the epoch.  All three sessions
      interpret it.
    \<^item> \<open>Session_Rows\<close>, \<open>Static_Session\<close>, \<open>Core_Session\<close>: capi_static.cpp and capi_target.cpp.
    \<^item> \<open>Borrowed_Rows\<close>, \<open>Lent_Sessions\<close>: the same entry points with the vectors they fill and the
      pointers they hand out.  The locale \<open>lender\<close> is the contract towards the holder of a borrowed
      array, interpreted by the live and the static session: it reads as the answer by value
      (the refinement that lets the other theories answer by value), until its table is asked
      for again; functions even until the next analysis, as irida.h says.
    \<^item> \<open>Mock_Backend\<close>: irida-ui/mock.

  The front end (irida-ui).
    \<^item> \<open>Table_View\<close>, \<open>Panels\<close>: the table widget and the panels built on it.
    \<^item> \<open>Asm_Tokenizer\<close>: cutting instructions into tokens.
    \<^item> \<open>Graph_View\<close>: the drawn control-flow graph: layers are distances from the entry, boxes do not
      overlap.
    \<^item> \<open>Byte_Overview\<close>: the grid and the strip of bytes: which address a press means.
    \<^item> \<open>Code_View\<close>: the four forms of the code view.
    \<^item> \<open>Painting\<close>: the palette, the delegates, the colours of bytes, rows and blocks.
    \<^item> \<open>Window_Layout\<close>: which docks show, the saved layout, the place of the window on the screens.
    \<^item> \<open>Debug_Controller\<close>: the controller, its signals, the worker thread and the window around it.
      The relation \<open>desk_run\<close> holds the states an open window can get to by the events that are
      allowed: all of them (\<open>any_event\<close>) or those of a user who does not attach or close during an
      analysis (\<open>calm\<close>).  The abstract specification is \<open>displays\<close>, what the window owes its user,
      and \<open>window_follows_session\<close> the refinement.  Closing (\<open>closeWindow\<close>) ends a run; only a
      worker may still run then.  Sessions are pointers into a heap there, so that a use after the
      session has been freed is a failure: none happens in a calm run, but one does when one
      attaches or closes the window while a worker analyses (\<open>attach_while_analysing\<close>,
      \<open>close_while_analysing\<close>).
    \<^item> \<open>Startup\<close>: dialogs, recent files, the main functions of the window and of irida-cli.
    \<^item> \<open>Application\<close>: the whole front end over static and live sessions behind one pointer type,
      from the main function on until the window is closed: what the window shows, with all
      events (C30), and that no call goes through a session that has been freed, in calm runs
      and after closing (C31), stated for the program as it is started.

  Integers.  Machine integers are words of their width, so that sums wrap as in C++; an \<open>int\<close> of
  the front end that stays small is an integer, and casts that cut are written out.  Sizes and
  indices of containers are natural numbers.  Coordinates of the graph are real numbers.

  Loops.  Loops over containers are recursive functions that end.  Three loops count fuel and
  answer \<open>None\<close> when it runs out: the run of one block in the analyzer (one turn per byte of the
  image is enough: C7), the page loop of \<open>changed_since_last_epoch\<close> (enough fuel exists except
  for ranges that reach the last page of memory, where the loop of the source does not end), and
  the loop that drains the events of attaching (\<open>attach_drain_terminates\<close>).  A session whose
  analysis runs out of fuel keeps its old state.

  Parameters.  Code outside the repository is an argument of the definitions: Win32 and Winsock
  (a record of calls over a world), Zydis (decoding one instruction), LIEF (what it reports of a
  file), the file system, the order of the elements of unordered containers, and of Qt the
  classes and folding of characters, the widths of a font, the position of a scroll bar and the
  order of sorted rows.  The hypotheses on them are named and stated where they are used.

  Storage.  A borrowed array and a \<open>const char*\<close> are numbers of objects that are never used twice,
  so following one tells whether it dangles.  Only the theories on borrowed arrays have this
  storage; the others use what they show and answer by value.

  Not modelled.  Calls into Qt with no state of the program behind them: icons (theme/icons.cpp),
  style sheets, menus and the toolbar, the placing of widgets, areas and tabs of docks, pens and
  the cross hair of the byte map, the disabled pages of the load options.  The log
  (libs/base/src/log.cpp) and error texts on the standard error stream; \<open>WSAStartup\<close>.  Failing
  allocations.  The arrays of the canned session, which are answered by value.  Rounding of
  floating point numbers.  Threads other than the worker of an analysis, and interleavings inside
  that worker: it runs in one step, at any time, so the data races of the session, which has no lock,
  are not part of the model.
\<close>

end
